(* ===== verification/Prelude.thy ===== *)
theory Prelude
  imports Main "HOL-Library.Word"
begin

text \<open>
  Shared vocabulary of the development: the machine integers of the C++ code, its exceptions
  as one datatype, and operations that may throw as state transformers.

  An operation on a state \<open>'s\<close> returns an outcome (\<open>Inl\<close> the exception, \<open>Inr\<close> the
  value) together with the state it leaves behind. The state is there on both outcomes: a C++
  exception does not undo the side effects that happened before it.

  \<open>UndefinedBehaviour\<close> is the outcome of the model where the C++ standard gives the code no
  meaning (an out-of-range access of an unchecked container, for instance), and
  \<open>Aborted\<close> where a failed \<open>Assert\<close> (base/assert.h) stops the process.
\<close>

unbundle bit_operations_syntax

type_synonym u8 = "8 word"
type_synonym u32 = "32 word"
type_synonym u64 = "64 word"

text \<open>Names of facts that the proofs of several theories share.\<close>

named_theorems op_simps \<open>equations that run an operation\<close>
named_theorems triple_rules \<open>Hoare rules for operations\<close>
named_theorems parses_rules \<open>rules for parsers that accept an encoding\<close>

section \<open>Exceptions\<close>

text \<open>
  The messages of \<open>ParseException\<close> and \<open>ModuleTooLargeException\<close> (parser/parser.h) are
  format strings with arguments; here each message is a constructor with the same arguments.
\<close>

datatype parse_error =
    UnknownValType u8
  | IndexOutOfRange string u32 nat
  | NameTooLong u32
  | FunctionMagicMismatch u8
  | InvalidTableType u8
  | UnknownImportType u8
  | UnimplementedGlobalValue u8
  | UnknownExportType u8
  | DuplicateExportedName "u8 list"
  | UnsupportedOpcode u8
  | UnexpectedFunctionSize nat u32
  | UnexpectedNumberOfCode u32 nat
  | InvalidSectionOrder u8 nat
  | TablesUnimplemented
  | MemoriesUnimplemented
  | UnknownSectionId u8
  | MagicBytesMismatch "u8 list"
  | UnsupportedWasmVersion

datatype size_error =
    TooManyParameters u32
  | TooLargeTypeSection u32
  | TooManyFunctions u32
  | TooManyImports u32
  | TooManyTables u32
  | TooManyMemories u32
  | TooManyGlobals u32
  | TooManyExports u32
  | TooManyLocals nat

datatype exn =
    EndOfStreamException
  | DecodeException
  | ParseException parse_error
  | ModuleTooLargeException size_error
  | ValidationException
  | CompilationException string
  | RuntimeError string
  | Aborted string
  | UndefinedBehaviour string

section \<open>Operations\<close>

type_synonym ('s, 'a) op = "'s \<Rightarrow> (exn + 'a) \<times> 's"

definition ret :: "'a \<Rightarrow> ('s, 'a) op" where
  "ret x = (\<lambda>s. (Inr x, s))"

definition throw :: "exn \<Rightarrow> ('s, 'a) op" where
  "throw e = (\<lambda>s. (Inl e, s))"

definition seq :: "('s, 'a) op \<Rightarrow> ('a \<Rightarrow> ('s, 'b) op) \<Rightarrow> ('s, 'b) op" where
  "seq m f = (\<lambda>s. case m s of (Inl e, s') \<Rightarrow> (Inl e, s') | (Inr x, s') \<Rightarrow> f x s')"

definition gets :: "('s \<Rightarrow> 'a) \<Rightarrow> ('s, 'a) op" where
  "gets f = (\<lambda>s. (Inr (f s), s))"

text \<open>\<open>Abort\<close> and \<open>Assert\<close> of base/assert.h. \<open>Abort\<close> writes where it was called and the message, and
  stops the process with a trap.\<close>

definition abort_with :: "string \<Rightarrow> ('s, 'a) op" where
  "abort_with msg = throw (Aborted msg)"

definition assert_that :: "bool \<Rightarrow> string \<Rightarrow> ('s, unit) op" where
  "assert_that cond msg = (if \<not> cond then abort_with msg else ret ())"

definition modify :: "('s \<Rightarrow> 's) \<Rightarrow> ('s, unit) op" where
  "modify f = (\<lambda>s. (Inr (), f s))"

definition on_fst :: "('s, 'a) op \<Rightarrow> ('s \<times> 't, 'a) op" where
  "on_fst m = (\<lambda>(s, t). case m s of (r, s') \<Rightarrow> (r, (s', t)))"

definition on_snd :: "('t, 'a) op \<Rightarrow> ('s \<times> 't, 'a) op" where
  "on_snd m = (\<lambda>(s, t). case m t of (r, t') \<Rightarrow> (r, (s, t')))"

text \<open>
  The two counting loops of the code: one that runs its body \<open>n\<close> times for its effect, and
  one that appends every result to a vector that is private to the loop.
\<close>

primrec repeat_op :: "nat \<Rightarrow> ('s, unit) op \<Rightarrow> ('s, unit) op" where
  "repeat_op 0 m = ret ()"
| "repeat_op (Suc n) m = seq m (\<lambda>_. repeat_op n m)"

primrec collect_op :: "nat \<Rightarrow> ('s, 'a) op \<Rightarrow> ('s, 'a list) op" where
  "collect_op 0 m = ret []"
| "collect_op (Suc n) m = seq m (\<lambda>x. seq (collect_op n m) (\<lambda>xs. ret (x # xs)))"

text \<open>A range-based \<open>for\<close> loop that runs a body on every element.\<close>

primrec for_each :: "('a \<Rightarrow> ('s, unit) op) \<Rightarrow> 'a list \<Rightarrow> ('s, unit) op" where
  "for_each f [] = ret ()"
| "for_each f (x # xs) = seq (f x) (\<lambda>_. for_each f xs)"

lemma ret_run [simp, op_simps]: "ret x s = (Inr x, s)"
  by (simp add: ret_def)

lemma throw_run [simp, op_simps]: "throw e s = (Inl e, s)"
  by (simp add: throw_def)

lemma abort_with_run [simp, op_simps]: "abort_with msg s = (Inl (Aborted msg), s)"
  by (simp add: abort_with_def)

lemma assert_that_run [simp, op_simps]:
  "assert_that cond msg s = (if cond then Inr () else Inl (Aborted msg), s)"
  by (simp add: assert_that_def)

lemma gets_run [simp, op_simps]: "gets f s = (Inr (f s), s)"
  by (simp add: gets_def)

lemma modify_run [simp, op_simps]: "modify f s = (Inr (), f s)"
  by (simp add: modify_def)

lemma seq_run_Inr [op_simps]: "m s = (Inr x, s') \<Longrightarrow> seq m f s = f x s'"
  by (simp add: seq_def)

lemma seq_run_Inl [op_simps]: "m s = (Inl e, s') \<Longrightarrow> seq m f s = (Inl e, s')"
  by (simp add: seq_def)

lemma seq_ret [simp, op_simps]: "seq (ret x) f = f x"
  by (simp add: seq_def fun_eq_iff)

lemma seq_throw [simp, op_simps]: "seq (throw e) f = throw e"
  by (simp add: seq_def throw_def fun_eq_iff)

lemma seq_assert_run [simp, op_simps]:
  "seq (assert_that cond msg) f s = (if cond then f () s else (Inl (Aborted msg), s))"
  by (simp add: seq_def)

lemma seq_gets_run [simp, op_simps]: "seq (gets g) f s = f (g s) s"
  by (simp add: seq_def)

lemma seq_modify_run [simp, op_simps]: "seq (modify g) f s = f () (g s)"
  by (simp add: seq_def)

text \<open>
  The simplifier contracts \<open>ret x\<close> and \<open>throw e\<close> to \<open>Pair (Inr x)\<close> and
  \<open>Pair (Inl e)\<close>, so these two forms have equations of their own.
\<close>

lemma seq_Pair [simp, op_simps]:
  "seq (Pair (Inr x)) f = f x" "seq (Pair (Inl e)) f = Pair (Inl e)"
  by (simp_all add: seq_def fun_eq_iff)

lemma seq_assoc: "seq (seq m f) g = seq m (\<lambda>x. seq (f x) g)"
  by (auto simp: seq_def fun_eq_iff split: prod.splits sum.splits)

lemma seq_Inr_iff:
  "seq m f s = (Inr y, s'') \<longleftrightarrow> (\<exists>x s'. m s = (Inr x, s') \<and> f x s' = (Inr y, s''))"
  by (auto simp: seq_def split: prod.splits sum.splits)

lemma seq_InrE [elim!]:
  assumes "seq m f s = (Inr y, s'')"
  obtains x s' where "m s = (Inr x, s')" and "f x s' = (Inr y, s'')"
  using assms by (auto simp: seq_Inr_iff)

lemma seq_Inl_iff:
  "seq m f s = (Inl e, s'') \<longleftrightarrow>
     m s = (Inl e, s'') \<or> (\<exists>x s'. m s = (Inr x, s') \<and> f x s' = (Inl e, s''))"
  by (auto simp: seq_def split: prod.splits sum.splits)

lemma on_fst_run [op_simps]: "on_fst m (s, t) = (case m s of (r, s') \<Rightarrow> (r, (s', t)))"
  by (simp add: on_fst_def)

lemma on_snd_run [op_simps]: "on_snd m (s, t) = (case m t of (r, t') \<Rightarrow> (r, (s, t')))"
  by (simp add: on_snd_def)

lemma seq_cong [fundef_cong]:
  assumes "s = t" and "m t = n t" and "\<And>x u. n t = (Inr x, u) \<Longrightarrow> f x u = g x u"
  shows "seq m f s = seq n g t"
  using assms by (auto simp: seq_def split: prod.split sum.split)

lemma for_each_append: "for_each f (xs @ ys) = seq (for_each f xs) (\<lambda>_. for_each f ys)"
  by (induction xs) (simp_all add: seq_assoc)

lemma collect_op_length:
  "collect_op n m s = (Inr xs, s') \<Longrightarrow> length xs = n"
  by (induction n arbitrary: s xs s') auto

section \<open>Hoare triples for operations\<close>

text \<open>
  \<open>triple P m Q E\<close>: from a state with \<open>P\<close>, a value \<open>x\<close> leaves \<open>Q x\<close> and an exception
  \<open>e\<close> leaves \<open>E e\<close>. Every operation is a total function, so this is total correctness.
\<close>

definition triple ::
    "('s \<Rightarrow> bool) \<Rightarrow> ('s, 'a) op \<Rightarrow> ('a \<Rightarrow> 's \<Rightarrow> bool) \<Rightarrow> (exn \<Rightarrow> 's \<Rightarrow> bool) \<Rightarrow> bool" where
  "triple P m Q E \<longleftrightarrow>
     (\<forall>s. P s \<longrightarrow> (\<forall>x s'. m s = (Inr x, s') \<longrightarrow> Q x s') \<and> (\<forall>e s'. m s = (Inl e, s') \<longrightarrow> E e s'))"

lemma tripleI:
  assumes "\<And>s x s'. P s \<Longrightarrow> m s = (Inr x, s') \<Longrightarrow> Q x s'"
    and "\<And>s e s'. P s \<Longrightarrow> m s = (Inl e, s') \<Longrightarrow> E e s'"
  shows "triple P m Q E"
  using assms by (simp add: triple_def)

lemma triple_InrD: "triple P m Q E \<Longrightarrow> P s \<Longrightarrow> m s = (Inr x, s') \<Longrightarrow> Q x s'"
  by (simp add: triple_def)

lemma triple_InlD: "triple P m Q E \<Longrightarrow> P s \<Longrightarrow> m s = (Inl e, s') \<Longrightarrow> E e s'"
  by (simp add: triple_def)

lemma triple_ret [triple_rules]: "(\<And>s. P s \<Longrightarrow> Q x s) \<Longrightarrow> triple P (ret x) Q E"
  by (simp add: triple_def)

lemma triple_throw [triple_rules]: "(\<And>s. P s \<Longrightarrow> E e s) \<Longrightarrow> triple P (throw e) Q E"
  by (simp add: triple_def)

lemma triple_gets [triple_rules]: "(\<And>s. P s \<Longrightarrow> Q (f s) s) \<Longrightarrow> triple P (gets f) Q E"
  by (simp add: triple_def)

lemma triple_modify [triple_rules]: "(\<And>s. P s \<Longrightarrow> Q () (f s)) \<Longrightarrow> triple P (modify f) Q E"
  by (simp add: triple_def)

lemma triple_seq:
  assumes m: "triple P m R E" and f: "\<And>x. triple (R x) (f x) Q E"
  shows "triple P (seq m f) Q E"
proof (rule tripleI)
  fix s y s' assume "P s" and "seq m f s = (Inr y, s')"
  then show "Q y s'" by (blast dest: triple_InrD [OF m] triple_InrD [OF f])
next
  fix s e s' assume P: "P s" and "seq m f s = (Inl e, s')"
  then consider "m s = (Inl e, s')"
    | x t where "m s = (Inr x, t)" and "f x t = (Inl e, s')"
    by (auto simp: seq_Inl_iff)
  then show "E e s'"
    by cases (use P in \<open>blast dest: triple_InlD [OF m] triple_InrD [OF m] triple_InlD [OF f]\<close>)+
qed

lemma triple_weaken:
  assumes "triple P m Q E" and "\<And>s. P' s \<Longrightarrow> P s"
    and "\<And>x s. Q x s \<Longrightarrow> Q' x s" and "\<And>e s. E e s \<Longrightarrow> E' e s"
  shows "triple P' m Q' E'"
  using assms unfolding triple_def by blast

lemma triple_if [triple_rules]:
  assumes "b \<Longrightarrow> triple P m Q E" and "\<not> b \<Longrightarrow> triple P m' Q E"
  shows "triple P (if b then m else m') Q E"
  using assms by simp

lemma triple_repeat:
  assumes "triple P m (\<lambda>_. P) E"
  shows "triple P (repeat_op n m) (\<lambda>_. P) E"
proof (induction n)
  case 0
  show ?case unfolding repeat_op.simps by (rule triple_ret)
next
  case (Suc n)
  show ?case unfolding repeat_op.simps by (rule triple_seq [OF assms Suc.IH])
qed

lemma triple_repeat_count:
  assumes "\<And>i. i < n \<Longrightarrow> triple (P i) m (\<lambda>_. P (Suc i)) E"
  shows "triple (P 0) (repeat_op n m) (\<lambda>_. P n) E"
proof -
  have "triple (P i) (repeat_op k m) (\<lambda>_. P (i + k)) E" if "i + k \<le> n" for i k
    using that
  proof (induction k arbitrary: i)
    case 0
    show ?case unfolding repeat_op.simps by (rule triple_ret) simp
  next
    case (Suc k)
    have "triple (P i) m (\<lambda>_. P (Suc i)) E" by (rule assms) (use Suc.prems in simp)
    moreover have "triple (P (Suc i)) (repeat_op k m) (\<lambda>_. P (Suc i + k)) E"
      by (rule Suc.IH) (use Suc.prems in simp)
    ultimately show ?case unfolding repeat_op.simps add_Suc_right add_Suc [symmetric]
      by (rule triple_seq)
  qed
  from this [of 0 n] show ?thesis by simp
qed

lemma triple_for_each:
  assumes "\<And>x. x \<in> set xs \<Longrightarrow> triple P (f x) (\<lambda>_. P) E"
  shows "triple P (for_each f xs) (\<lambda>_. P) E"
  using assms
proof (induction xs)
  case Nil
  show ?case unfolding for_each.simps by (rule triple_ret)
next
  case (Cons x xs)
  show ?case unfolding for_each.simps
    by (rule triple_seq [where R = "\<lambda>_. P"]) (use Cons in auto)
qed

lemma triple_keep:
  assumes "triple P m Q E"
  shows "triple (\<lambda>s. P s \<and> R) m (\<lambda>x s. Q x s \<and> R) E"
  using assms unfolding triple_def by blast

lemma triple_collect:
  assumes "triple P m (\<lambda>x s. P s \<and> R x) E"
  shows "triple P (collect_op n m) (\<lambda>xs s. P s \<and> length xs = n \<and> list_all R xs) E"
proof (induction n)
  case 0
  show ?case unfolding collect_op.simps by (rule triple_ret) simp
next
  case (Suc n)
  show ?case unfolding collect_op.simps
    by (rule triple_seq [OF assms], rule triple_seq [OF triple_keep [OF Suc.IH]], rule triple_ret)
      simp
qed

lemma triple_on_fst:
  assumes "\<And>t. triple (\<lambda>s. P (s, t)) m (\<lambda>x s. Q x (s, t)) (\<lambda>e s. E e (s, t))"
  shows "triple P (on_fst m) Q E"
proof (rule tripleI)
  fix st x st' assume "P st" and "on_fst m st = (Inr x, st')"
  then show "Q x st'"
    by (cases st) (auto simp: on_fst_def split: prod.splits dest: triple_InrD [OF assms])
next
  fix st e st' assume "P st" and "on_fst m st = (Inl e, st')"
  then show "E e st'"
    by (cases st) (auto simp: on_fst_def split: prod.splits dest: triple_InlD [OF assms])
qed

lemma triple_on_snd:
  assumes "\<And>s. triple (\<lambda>t. P (s, t)) m (\<lambda>x t. Q x (s, t)) (\<lambda>e t. E e (s, t))"
  shows "triple P (on_snd m) Q E"
proof (rule tripleI)
  fix st x st' assume "P st" and "on_snd m st = (Inr x, st')"
  then show "Q x st'"
    by (cases st) (auto simp: on_snd_def split: prod.splits dest: triple_InrD [OF assms])
next
  fix st e st' assume "P st" and "on_snd m st = (Inl e, st')"
  then show "E e st'"
    by (cases st) (auto simp: on_snd_def split: prod.splits dest: triple_InlD [OF assms])
qed

section \<open>Frame conditions\<close>

text \<open>
  \<open>keeps R m\<close>: whatever its outcome, \<open>m\<close> relates the state before to the state after.
  For a reflexive and transitive \<open>R\<close> this passes from the parts of an operation to the whole.
\<close>

definition keeps :: "('s \<Rightarrow> 's \<Rightarrow> bool) \<Rightarrow> ('s, 'a) op \<Rightarrow> bool" where
  "keeps R m \<longleftrightarrow> (\<forall>s r s'. m s = (r, s') \<longrightarrow> R s s')"

lemma keepsI: "(\<And>s r s'. m s = (r, s') \<Longrightarrow> R s s') \<Longrightarrow> keeps R m"
  by (simp add: keeps_def)

lemma keepsD: "keeps R m \<Longrightarrow> m s = (r, s') \<Longrightarrow> R s s'"
  by (simp add: keeps_def)

text \<open>\<open>leads R m\<close>: the same for the runs that return.\<close>

definition leads :: "('s \<Rightarrow> 's \<Rightarrow> bool) \<Rightarrow> ('s, 'a) op \<Rightarrow> bool" where
  "leads R m \<longleftrightarrow> (\<forall>s x s'. m s = (Inr x, s') \<longrightarrow> R s s')"

lemma leadsI: "(\<And>s x s'. m s = (Inr x, s') \<Longrightarrow> R s s') \<Longrightarrow> leads R m"
  by (simp add: leads_def)

lemma leadsD: "leads R m \<Longrightarrow> m s = (Inr x, s') \<Longrightarrow> R s s'"
  by (simp add: leads_def)

lemma leads_throw: "leads R (throw e)"
  by (simp add: leads_def)

lemma leads_if: "leads R m \<Longrightarrow> leads R m' \<Longrightarrow> leads R (if b then m else m')"
  by simp

locale frame =
  fixes R :: "'s \<Rightarrow> 's \<Rightarrow> bool"
  assumes R_refl: "R s s"
    and R_trans: "R s t \<Longrightarrow> R t u \<Longrightarrow> R s u"
begin

lemma keeps_ret [intro, simp]: "keeps R (ret x)"
  by (auto simp: keeps_def R_refl)

lemma keeps_throw [intro, simp]: "keeps R (throw e)"
  by (auto simp: keeps_def R_refl)

lemma keeps_gets [intro, simp]: "keeps R (gets f)"
  by (auto simp: keeps_def R_refl)

lemma keeps_modify [intro]: "(\<And>s. R s (f s)) \<Longrightarrow> keeps R (modify f)"
  by (auto simp: keeps_def)

lemma keeps_seq [intro]:
  assumes m: "keeps R m" and f: "\<And>x. keeps R (f x)"
  shows "keeps R (seq m f)"
proof (rule keepsI)
  fix s r u assume run: "seq m f s = (r, u)"
  obtain r' t where t: "m s = (r', t)" by fastforce
  with m have 1: "R s t" by (rule keepsD)
  show "R s u"
  proof (cases r')
    case (Inl e)
    with run t 1 show ?thesis by (simp add: seq_run_Inl)
  next
    case (Inr x)
    with run t have "f x t = (r, u)" by (simp add: seq_run_Inr)
    with f have "R t u" by (rule keepsD)
    with 1 show ?thesis by (rule R_trans)
  qed
qed

lemma keeps_if [intro]: "keeps R m \<Longrightarrow> keeps R m' \<Longrightarrow> keeps R (if b then m else m')"
  by simp

lemma keeps_repeat [intro]: "keeps R m \<Longrightarrow> keeps R (repeat_op n m)"
  by (induction n) (unfold repeat_op.simps, blast+)

lemma keeps_for_each [intro]: "(\<And>x. keeps R (f x)) \<Longrightarrow> keeps R (for_each f xs)"
  by (induction xs) (unfold for_each.simps, blast+)

lemma keeps_collect [intro]: "keeps R m \<Longrightarrow> keeps R (collect_op n m)"
  by (induction n) (unfold collect_op.simps, blast+)

lemma leads_ret: "leads R (ret x)"
  by (simp add: leads_def R_refl)

lemma leads_seq: "leads R m \<Longrightarrow> (\<And>x. leads R (f x)) \<Longrightarrow> leads R (seq m f)"
  unfolding leads_def by (blast intro: R_trans)

end

text \<open>Operations on one half of a pair.\<close>

lemma keeps_on_fst:
  "keeps R m \<Longrightarrow> (\<And>s s' t. R s s' \<Longrightarrow> Q (s, t) (s', t)) \<Longrightarrow> keeps Q (on_fst m)"
  by (auto simp: keeps_def on_fst_def split: prod.splits)

lemma keeps_on_snd:
  "keeps R m \<Longrightarrow> (\<And>s t t'. R t t' \<Longrightarrow> Q (s, t) (s, t')) \<Longrightarrow> keeps Q (on_snd m)"
  by (auto simp: keeps_def on_snd_def split: prod.splits)

section \<open>Machine words\<close>

lemma unat_lt_32 [simp]: "unat (x :: u32) < 2 ^ 32"
  using unsigned_less [of x] by simp

lemma unat_of_nat_u32 [simp]: "n < 2 ^ 32 \<Longrightarrow> unat (of_nat n :: u32) = n"
  by (simp add: unat_of_nat)

lemma unat_of_nat_u64 [simp]: "n < 2 ^ 64 \<Longrightarrow> unat (of_nat n :: u64) = n"
  by (simp add: unat_of_nat)

lemma sint_of_nat_i32:
  assumes "n < 2 ^ 31"
  shows "sint (of_nat n :: u32) = int n"
proof -
  have "sint (of_nat n :: u32) = signed_take_bit 31 (int n)"
    by (simp add: signed_of_nat)
  also have "\<dots> = int n"
    using assms by (simp add: signed_take_bit_int_eq_self)
  finally show ?thesis .
qed

end
