(* ===== verification/Coroutine.thy ===== *)
theory Coroutine
  imports Prelude
begin

text \<open>
  The coroutines that the parser and the compiler are written in: base/coro.h and base/coro.cc. A
  coroutine's body is a tree of what it does between its suspensions; the frames that the C++
  compiler allocates are on a heap of numbered frames, and a transfer of control is a step from one
  frame to the next. The specification is the direct execution, in which \<open>co_await f()\<close> is a call:
  the rest of the development models coroutines by it.
\<close>

section \<open>Bodies\<close>

text \<open>\<open>CoStep f k\<close> changes the data by \<open>f\<close> and goes on as \<open>k\<close> says of the data before.
  \<open>CoAwait c k\<close> is \<open>co_await\<close> of a call of another coroutine: \<open>k\<close> gets its value, or the exception
  that \<open>await_resume\<close> throws, which the body may catch. A body that catches nothing passes
  exceptions on.\<close>

datatype ('s, 'v) coro =
    CoReturn 'v
  | CoThrow exn
  | CoStep "'s \<Rightarrow> 's" "'s \<Rightarrow> ('s, 'v) coro"
  | CoAwait "('s, 'v) coro" "exn + 'v \<Rightarrow> ('s, 'v) coro"

primrec direct :: "('s, 'v) coro \<Rightarrow> ('s, 'v) op" where
  "direct (CoReturn v) = (\<lambda>s. (Inr v, s))"
| "direct (CoThrow e) = (\<lambda>s. (Inl e, s))"
| "direct (CoStep f k) = (\<lambda>s. direct (k s) (f s))"
| "direct (CoAwait c k) = (\<lambda>s. case direct c s of (r, s') \<Rightarrow> direct (k r) s')"

text \<open>\<open>MaybeYield\<close>; its value, \<open>void\<close>, is a parameter.\<close>

definition maybe_yield :: "'v \<Rightarrow> ('s, 'v) coro" where
  "maybe_yield unit = CoReturn unit"

lemma direct_maybe_yield: "direct (CoAwait (maybe_yield u) k) = direct (k (Inr u))"
  by (simp add: maybe_yield_def)

section \<open>Frames\<close>

type_synonym handle = nat

text \<open>A \<open>std::coroutine_handle<>\<close>: null, the no-op coroutine, or a frame.\<close>

datatype coroutine_handle = NullHandle | NoopCoroutine | Frame handle

datatype 'v promise_result = Monostate | Value 'v | Exception exn

datatype ('s, 'v) frame_point =
    Suspended "('s, 'v) coro"
  | Awaiting handle "exn + 'v \<Rightarrow> ('s, 'v) coro"
  | FinalSuspend

record ('s, 'v) coro_frame =
  point :: "('s, 'v) frame_point"
  chain_parent :: coroutine_handle
  promise_result :: "'v promise_result"

record ('s, 'v) coro_heap =
  frames :: "handle \<rightharpoonup> ('s, 'v) coro_frame"
  next_handle :: handle
  data :: 's

definition set_frame :: "handle \<Rightarrow> ('s, 'v) coro_frame \<Rightarrow> ('s, 'v) coro_heap \<Rightarrow> ('s, 'v) coro_heap" where
  "set_frame h fr H = H\<lparr>frames := (frames H)(h \<mapsto> fr)\<rparr>"

definition destroy_frame :: "handle \<Rightarrow> ('s, 'v) coro_heap \<Rightarrow> ('s, 'v) coro_heap" where
  "destroy_frame h H = H\<lparr>frames := (frames H)(h := None)\<rparr>"

text \<open>A call of a coroutine: the frame is created, with \<open>get_return_object\<close>, and suspended at once
  (\<open>initial_suspend\<close>).\<close>

definition call_coroutine :: "('s, 'v) coro \<Rightarrow> ('s, 'v) coro_heap \<Rightarrow> handle \<times> ('s, 'v) coro_heap" where
  "call_coroutine c H = (next_handle H,
     H\<lparr>frames := (frames H)(next_handle H \<mapsto>
         \<lparr>point = Suspended c, chain_parent = NullHandle, promise_result = Monostate\<rparr>),
       next_handle := next_handle H + 1\<rparr>)"

text \<open>\<open>Future::await_suspend\<close> and \<open>Future::await_resume\<close>. A result that is not there makes
  \<open>std::get\<close> throw.\<close>

definition await_suspend :: "handle \<Rightarrow> coroutine_handle \<Rightarrow> ('s, 'v) coro_heap \<Rightarrow> ('s, 'v) coro_heap" where
  "await_suspend h parent H = (case frames H h of
     None \<Rightarrow> H
   | Some fr \<Rightarrow> set_frame h (fr\<lparr>chain_parent := parent\<rparr>) H)"

definition await_resume :: "handle \<Rightarrow> ('s, 'v) coro_heap \<Rightarrow> exn + 'v" where
  "await_resume h H = (case frames H h of
     None \<Rightarrow> Inl (UndefinedBehaviour ''frame is destroyed'')
   | Some fr \<Rightarrow> (case promise_result fr of
       Value v \<Rightarrow> Inr v
     | Exception e \<Rightarrow> Inl e
     | Monostate \<Rightarrow> Inl (RuntimeError ''bad variant access'')))"

text \<open>The end of a body: \<open>return_value\<close> or \<open>unhandled_exception\<close> stores the result \<open>r\<close>, and
  \<open>final_suspend\<close> awaits the chain: without a parent it does not suspend, which destroys the
  frame; otherwise control goes to the parent, where the no-op coroutine returns to whoever called
  \<open>resume\<close>.\<close>

definition final_suspend :: "handle \<Rightarrow> ('s, 'v) coro_frame \<Rightarrow> 'v promise_result \<Rightarrow> ('s, 'v) coro_heap \<Rightarrow>
    handle option \<times> ('s, 'v) coro_heap" where
  "final_suspend h fr r H =
     (let H' = set_frame h (fr\<lparr>promise_result := r, point := FinalSuspend\<rparr>) H
      in case chain_parent fr of
           NullHandle \<Rightarrow> (None, destroy_frame h H')
         | NoopCoroutine \<Rightarrow> (None, H')
         | Frame p \<Rightarrow> (Some p, H'))"

text \<open>One step of the frame that has control, and the frame that has it afterwards. A parent that
  is transferred to takes the result from the awaited future, which is destroyed with its frame at
  the end of the expression. \<open>None\<close> is a resumption that has no meaning.\<close>

definition coro_step :: "handle \<Rightarrow> ('s, 'v) coro_heap \<Rightarrow> (handle option \<times> ('s, 'v) coro_heap) option" where
  "coro_step h H = (case frames H h of
     None \<Rightarrow> None
   | Some fr \<Rightarrow> (case point fr of
       FinalSuspend \<Rightarrow> None
     | Awaiting n k \<Rightarrow>
         Some (Some h, destroy_frame n (set_frame h (fr\<lparr>point := Suspended (k (await_resume n H))\<rparr>) H))
     | Suspended (CoReturn v) \<Rightarrow> Some (final_suspend h fr (Value v) H)
     | Suspended (CoThrow e) \<Rightarrow> Some (final_suspend h fr (Exception e) H)
     | Suspended (CoStep f k) \<Rightarrow>
         Some (Some h, (set_frame h (fr\<lparr>point := Suspended (k (data H))\<rparr>) H)\<lparr>data := f (data H)\<rparr>)
     | Suspended (CoAwait c k) \<Rightarrow>
         (let (n, H') = call_coroutine c H
          in Some (Some n, await_suspend n (Frame h) (set_frame h (fr\<lparr>point := Awaiting n k\<rparr>) H')))))"

text \<open>\<open>coroutine_handle::resume\<close>, until control comes back, and \<open>Future::get\<close>.\<close>

partial_function (option) resume_handle :: "handle \<Rightarrow> ('s, 'v) coro_heap \<Rightarrow> ('s, 'v) coro_heap option" where
  "resume_handle h H = Option.bind (coro_step h H) (\<lambda>(next, H').
     case next of None \<Rightarrow> Some H' | Some h' \<Rightarrow> resume_handle h' H')"

definition handle_done :: "handle \<Rightarrow> ('s, 'v) coro_heap \<Rightarrow> bool" where
  "handle_done h H = (case frames H h of
     None \<Rightarrow> True | Some fr \<Rightarrow> (case point fr of FinalSuspend \<Rightarrow> True | _ \<Rightarrow> False))"

partial_function (option) get_loop :: "handle \<Rightarrow> ('s, 'v) coro_heap \<Rightarrow> ('s, 'v) coro_heap option" where
  "get_loop h H = (if handle_done h H then Some H else Option.bind (resume_handle h H) (get_loop h))"

definition future_get :: "handle \<Rightarrow> ('s, 'v) coro_heap \<Rightarrow> ((exn + 'v) \<times> ('s, 'v) coro_heap) option" where
  "future_get h H = map_option (\<lambda>H'. (await_resume h H', H'))
     (get_loop h (await_suspend h NoopCoroutine H))"

section \<open>Frames execute bodies directly\<close>

definition outcome :: "exn + 'v \<Rightarrow> ('s, 'v) coro" where
  "outcome r = (case r of Inl e \<Rightarrow> CoThrow e | Inr v \<Rightarrow> CoReturn v)"

definition stored :: "exn + 'v \<Rightarrow> 'v promise_result" where
  "stored r = (case r of Inl e \<Rightarrow> Exception e | Inr v \<Rightarrow> Value v)"

text \<open>Handles that are yet to be given out are free.\<close>

definition heap_ok :: "('s, 'v) coro_heap \<Rightarrow> bool" where
  "heap_ok H \<longleftrightarrow> (\<forall>m \<ge> next_handle H. frames H m = None)"

lemma heap_okD: "heap_ok H \<Longrightarrow> frames H h = Some fr \<Longrightarrow> h < next_handle H"
  by (auto simp: heap_ok_def not_le [symmetric])

text \<open>The heap in which the frame \<open>h\<close> has got to \<open>c\<close>.\<close>

definition at_point :: "handle \<Rightarrow> ('s, 'v) coro_frame \<Rightarrow> ('s, 'v) coro \<Rightarrow> 's \<Rightarrow> nat \<Rightarrow>
    ('s, 'v) coro_heap \<Rightarrow> ('s, 'v) coro_heap" where
  "at_point h fr c s n H =
     \<lparr>frames = (frames H)(h \<mapsto> fr\<lparr>point := Suspended c\<rparr>), next_handle = n, data = s\<rparr>"

lemma at_point_self: "frames H h = Some fr \<Longrightarrow> point fr = Suspended c \<Longrightarrow>
    at_point h fr c (data H) (next_handle H) H = H"
  by (cases H; cases fr) (simp add: at_point_def fun_upd_idem)

lemma at_point_again: "at_point h (fr\<lparr>point := p\<rparr>) c s n (at_point h fr c' s' n' H) = at_point h fr c s n H"
  by (cases fr) (simp add: at_point_def)

lemma resume_step: "coro_step h H = Some (Some h', H') \<Longrightarrow> resume_handle h H = resume_handle h' H'"
  by (simp add: resume_handle.simps [of h H])

lemma resume_outcome:
  assumes "frames H h = Some fr" and "point fr = Suspended (outcome r)"
  shows "coro_step h H = Some (final_suspend h fr (stored r) H)"
  using assms by (simp add: coro_step_def outcome_def stored_def split: sum.split)

lemma at_point_ok: "heap_ok H \<Longrightarrow> frames H h = Some fr \<Longrightarrow> next_handle H \<le> n \<Longrightarrow> heap_ok (at_point h fr' c s n H)"
  by (auto simp: heap_ok_def at_point_def dest: heap_okD)

text \<open>A call and what it comes back with: the awaiting frame goes on with the callee's outcome, and
  the callee's frame is gone.\<close>

definition awaiting :: "handle \<Rightarrow> ('s, 'v) coro_frame \<Rightarrow> ('s, 'v) coro \<Rightarrow> (exn + 'v \<Rightarrow> ('s, 'v) coro) \<Rightarrow>
    ('s, 'v) coro_heap \<Rightarrow> ('s, 'v) coro_heap" where
  "awaiting h fr c k H =
     \<lparr>frames = (frames H)(h \<mapsto> fr\<lparr>point := Awaiting (next_handle H) k\<rparr>,
        next_handle H \<mapsto> \<lparr>point = Suspended c, chain_parent = Frame h, promise_result = Monostate\<rparr>),
      next_handle = next_handle H + 1, data = data H\<rparr>"

lemma await_step:
  assumes "frames H h = Some fr" and "point fr = Suspended (CoAwait c k)" and "heap_ok H"
  shows "coro_step h H = Some (Some (next_handle H), awaiting h fr c k H)"
proof -
  have "h \<noteq> next_handle H" using heap_okD [OF assms(3,1)] by simp
  then show ?thesis
    using assms(1,2)
    by (cases H) (simp add: coro_step_def call_coroutine_def set_frame_def await_suspend_def awaiting_def
        fun_upd_twist)
qed

lemma await_return:
  assumes "frames H h = Some fr" and "heap_ok H"
  shows "resume_handle (next_handle H) (at_point (next_handle H)
      \<lparr>point = Suspended c, chain_parent = Frame h, promise_result = Monostate\<rparr> (outcome r) s n (awaiting h fr c k H)) =
    resume_handle h (at_point h fr (k r) s n H)"
proof -
  let ?n = "next_handle H"
  let ?fr = "\<lparr>point = Suspended c, chain_parent = Frame h, promise_result = Monostate\<rparr>"
  let ?H2 = "at_point ?n ?fr (outcome r) s n (awaiting h fr c k H)"
  have ne: "h \<noteq> ?n" using heap_okD [OF assms(2,1)] by simp
  have free: "frames H ?n = None" using assms(2) by (simp add: heap_ok_def)
  let ?H3 = "\<lparr>frames = (frames H)(h \<mapsto> fr\<lparr>point := Awaiting ?n k\<rparr>,
      ?n \<mapsto> \<lparr>point = FinalSuspend, chain_parent = Frame h, promise_result = stored r\<rparr>),
    next_handle = n, data = s\<rparr>"
  have "coro_step ?n ?H2 = Some (final_suspend ?n (?fr\<lparr>point := Suspended (outcome r)\<rparr>) (stored r) ?H2)"
    by (rule resume_outcome) (simp_all add: at_point_def)
  then have 1: "coro_step ?n ?H2 = Some (Some h, ?H3)"
    using ne by (simp add: final_suspend_def set_frame_def at_point_def awaiting_def Let_def fun_upd_twist)
  have "await_resume ?n ?H3 = r" by (simp add: await_resume_def stored_def split: sum.split)
  moreover have "(frames H)(h \<mapsto> x, ?n := None) = (frames H)(h \<mapsto> x)" for x
    using ne free by (auto simp: fun_eq_iff)
  ultimately have 2: "coro_step h ?H3 = Some (Some h, at_point h fr (k r) s n H)"
    using ne by (simp add: coro_step_def destroy_frame_def set_frame_def at_point_def)
  show ?thesis unfolding resume_step [OF 1] resume_step [OF 2] ..
qed

lemma body_runs:
  assumes "frames H h = Some fr" and "point fr = Suspended c" and "heap_ok H"
  shows "\<exists>n \<ge> next_handle H. resume_handle h H = resume_handle h
    (at_point h fr (outcome (fst (direct c (data H)))) (snd (direct c (data H))) n H)"
  using assms
proof (induction c arbitrary: h fr H)
  case (CoReturn v)
  then show ?case using at_point_self [of H h fr "CoReturn v"] by (auto simp: outcome_def intro!: exI)
next
  case (CoThrow e)
  then show ?case using at_point_self [of H h fr "CoThrow e"] by (auto simp: outcome_def intro!: exI)
next
  case (CoStep f k)
  let ?H = "at_point h fr (k (data H)) (f (data H)) (next_handle H) H"
  let ?fr = "fr\<lparr>point := Suspended (k (data H))\<rparr>"
  have "coro_step h H = Some (Some h, ?H)"
    using CoStep.prems by (simp add: coro_step_def set_frame_def at_point_def)
  note go = resume_step [OF this]
  have "frames ?H h = Some ?fr" "data ?H = f (data H)" "next_handle ?H = next_handle H"
    by (simp_all add: at_point_def)
  with CoStep.IH [of "k (data H)" ?H h ?fr] at_point_ok [OF CoStep.prems(3,1) order_refl] go show ?case
    by (auto simp: at_point_again)
next
  case (CoAwait c k)
  let ?n = "next_handle H" and ?H1 = "awaiting h fr c k H"
  let ?fr = "\<lparr>point = Suspended c, chain_parent = Frame h, promise_result = Monostate\<rparr>"
  obtain r s where d: "direct c (data H) = (r, s)" by fastforce
  note go1 = resume_step [OF await_step [OF CoAwait.prems]]
  have "heap_ok ?H1" using CoAwait.prems heap_okD [OF CoAwait.prems(3,1)]
    by (auto simp: heap_ok_def awaiting_def)
  moreover have "frames ?H1 ?n = Some ?fr" "point ?fr = Suspended c" "data ?H1 = data H"
    "next_handle ?H1 = ?n + 1" by (simp_all add: awaiting_def)
  ultimately obtain n1 where n1: "?n < n1" and
    go2: "resume_handle ?n ?H1 = resume_handle ?n (at_point ?n ?fr (outcome r) s n1 ?H1)"
    using CoAwait.IH(1) [of ?H1 ?n ?fr] unfolding d fst_conv snd_conv by (metis Suc_eq_plus1 Suc_le_eq d fst_conv snd_conv)
  note go3 = await_return [OF CoAwait.prems(1,3), of c r s n1 k]
  let ?H4 = "at_point h fr (k r) s n1 H" and ?fr4 = "fr\<lparr>point := Suspended (k r)\<rparr>"
  have "frames ?H4 h = Some ?fr4" "data ?H4 = s" "next_handle ?H4 = n1" "heap_ok ?H4"
    using at_point_ok [OF CoAwait.prems(3,1), of n1] n1 by (simp_all add: at_point_def)
  with CoAwait.IH(2) [of "k r" ?H4 h ?fr4] obtain n where "n1 \<le> n" and
    "resume_handle h ?H4 = resume_handle h
       (at_point h fr (outcome (fst (direct (k r) s))) (snd (direct (k r) s)) n H)"
    by (auto simp: at_point_again)
  with n1 go1 go2 go3 d show ?case by (auto intro!: exI [of _ n])
qed

text \<open>A frame that was resumed from its start runs to its end. Awaited by nobody but \<open>get\<close>, it then
  holds its result; without a parent it is gone.\<close>

definition finished :: "('s, 'v) coro_frame \<Rightarrow> exn + 'v \<Rightarrow> ('s, 'v) coro_frame" where
  "finished fr r = fr\<lparr>point := FinalSuspend, promise_result := stored r\<rparr>"

lemma finished_sel [simp]:
  "point (finished fr r) = FinalSuspend" "chain_parent (finished fr r) = chain_parent fr"
  "promise_result (finished fr r) = stored r"
  by (simp_all add: finished_def)

lemma stored_value: "(case stored r of Value v \<Rightarrow> Inr v | Exception e \<Rightarrow> Inl e | Monostate \<Rightarrow> x) = r"
  by (simp add: stored_def split: sum.split)

lemma stored_Monostate [simp]: "stored r \<noteq> Monostate"
  by (simp add: stored_def split: sum.split)

lemma resume_handle_runs:
  assumes "frames H h = Some fr" and "point fr = Suspended c" and "heap_ok H"
    and "direct c (data H) = (r, s)" and "chain_parent fr = NoopCoroutine \<or> chain_parent fr = NullHandle"
  shows "\<exists>n \<ge> next_handle H. resume_handle h H =
    Some \<lparr>frames = (frames H)(h := (if chain_parent fr = NullHandle then None else Some (finished fr r))),
      next_handle = n, data = s\<rparr>"
proof -
  obtain n where n: "next_handle H \<le> n"
    and run: "resume_handle h H = resume_handle h (at_point h fr (outcome r) s n H)" (is "_ = resume_handle h ?G")
    using body_runs [OF assms(1-3)] assms(4) by auto
  have "coro_step h ?G = Some (final_suspend h (fr\<lparr>point := Suspended (outcome r)\<rparr>) (stored r) ?G)"
    by (rule resume_outcome) (simp_all add: at_point_def)
  moreover have "final_suspend h (fr\<lparr>point := Suspended (outcome r)\<rparr>) (stored r) ?G =
    (None, \<lparr>frames = (frames H)(h := (if chain_parent fr = NullHandle then None else Some (finished fr r))),
      next_handle = n, data = s\<rparr>)"
    using assms(5) by (cases fr) (auto simp: final_suspend_def set_frame_def destroy_frame_def
        at_point_def finished_def Let_def)
  ultimately have "resume_handle h ?G =
    Some \<lparr>frames = (frames H)(h := (if chain_parent fr = NullHandle then None else Some (finished fr r))),
      next_handle = n, data = s\<rparr>"
    by (simp add: resume_handle.simps [of h ?G])
  with n run show ?thesis by auto
qed

text \<open>\<open>get\<close> of a future that has not been evaluated, and of one that has.\<close>

lemma get_runs:
  assumes "frames H h = Some fr" and "point fr = Suspended c" and "heap_ok H"
    and "direct c (data H) = (r, s)"
  shows "\<exists>n \<ge> next_handle H. future_get h H =
    Some (r, \<lparr>frames = (frames H)(h \<mapsto> finished (fr\<lparr>chain_parent := NoopCoroutine\<rparr>) r),
      next_handle = n, data = s\<rparr>)"
proof -
  define G where "G = await_suspend h NoopCoroutine H"
  have G: "frames G = (frames H)(h \<mapsto> fr\<lparr>chain_parent := NoopCoroutine\<rparr>)" "data G = data H"
    "next_handle G = next_handle H"
    using assms(1) by (simp_all add: G_def await_suspend_def set_frame_def)
  then have "heap_ok G" using assms(3) heap_okD [OF assms(3,1)] by (auto simp: heap_ok_def)
  with resume_handle_runs [of G h "fr\<lparr>chain_parent := NoopCoroutine\<rparr>" c r s] assms(2,4) G
  obtain n where n: "next_handle H \<le> n" and run: "resume_handle h G =
      Some \<lparr>frames = (frames H)(h \<mapsto> finished (fr\<lparr>chain_parent := NoopCoroutine\<rparr>) r),
        next_handle = n, data = s\<rparr>" (is "_ = Some ?H2")
    by auto
  have "\<not> handle_done h G" "handle_done h ?H2" using assms(2) by (simp_all add: handle_done_def G(1))
  with run have "get_loop h G = Some ?H2"
    by (simp add: get_loop.simps [of h G] get_loop.simps [of h ?H2])
  moreover have "await_resume h ?H2 = r" by (simp add: await_resume_def stored_value)
  ultimately show ?thesis using n by (auto simp: future_get_def G_def)
qed

lemma get_again:
  assumes "frames H h = Some fr" and "point fr = FinalSuspend"
  shows "future_get h H =
    Some (await_resume h H, set_frame h (fr\<lparr>chain_parent := NoopCoroutine\<rparr>) H)"
proof -
  let ?G = "set_frame h (fr\<lparr>chain_parent := NoopCoroutine\<rparr>) H"
  have "await_suspend h NoopCoroutine H = ?G" using assms by (simp add: await_suspend_def)
  moreover have "get_loop h ?G = Some ?G"
    using assms by (subst get_loop.simps) (simp add: handle_done_def set_frame_def)
  ultimately show ?thesis using assms by (simp add: future_get_def await_resume_def set_frame_def)
qed

section \<open>Properties\<close>

text \<open>C31: coroutines compute what the same code computes with calls in place of \<open>co_await\<close>.
  Calling a coroutine and then \<open>get\<close> terminates for every body, after one resumption; it returns
  the value or throws the exception of the direct execution and leaves the data as that does; and
  of all the frames that were created on the way only the future's own is left.\<close>

theorem get_runs_directly:
  assumes "heap_ok H" and "call_coroutine c H = (h, H1)"
  shows "\<exists>H2 fr. future_get h H1 = Some (fst (direct c (data H)), H2) \<and>
    data H2 = snd (direct c (data H)) \<and> frames H2 = (frames H)(h \<mapsto> fr) \<and> heap_ok H2"
proof -
  obtain r s where d: "direct c (data H) = (r, s)" by fastforce
  let ?fr = "\<lparr>point = Suspended c, chain_parent = NullHandle, promise_result = Monostate\<rparr>"
  have h: "h = next_handle H" and H1: "H1 = \<lparr>frames = (frames H)(h \<mapsto> ?fr), next_handle = h + 1, data = data H\<rparr>"
    using assms(2) by (auto simp: call_coroutine_def)
  have "frames H1 h = Some ?fr" "point ?fr = Suspended c" "heap_ok H1" "direct c (data H1) = (r, s)"
    using assms(1) d by (auto simp: H1 heap_ok_def h)
  from get_runs [OF this] obtain n where n: "h + 1 \<le> n" and "future_get h H1 =
    Some (r, \<lparr>frames = (frames H)(h \<mapsto> finished (?fr\<lparr>chain_parent := NoopCoroutine\<rparr>) r), next_handle = n, data = s\<rparr>)"
    (is "_ = Some (r, ?H2)")
    by (auto simp: H1)
  moreover have "heap_ok ?H2" using assms(1) n by (auto simp: heap_ok_def h)
  ultimately show ?thesis using d by auto
qed

text \<open>A coroutine that awaits another one twice, with a \<open>MaybeYield\<close> between.\<close>

definition four :: "(nat, int) coro" where
  "four = CoStep (\<lambda>s. s + 1) (\<lambda>s. CoReturn 4)"

definition twice_four :: "(nat, int) coro" where
  "twice_four = CoAwait four (\<lambda>a. CoAwait (maybe_yield 0) (\<lambda>_. CoAwait four (\<lambda>b.
     CoReturn (projr a + projr b))))"

theorem get_runs_directly_witness:
  "let (h, H1) = call_coroutine twice_four \<lparr>frames = Map.empty, next_handle = 0, data = 0\<rparr>
   in \<exists>H2. future_get h H1 = Some (Inr 8, H2) \<and> data H2 = 2 \<and> frames H2 1 = None"
proof -
  let ?H = "\<lparr>frames = Map.empty, next_handle = 0, data = 0\<rparr> :: (nat, int) coro_heap"
  obtain h H1 where c: "call_coroutine twice_four ?H = (h, H1)" by fastforce
  then have "h = 0" by (auto simp: call_coroutine_def)
  moreover have "heap_ok ?H" by (simp add: heap_ok_def)
  moreover have "direct twice_four 0 = (Inr 8, 2)"
    by (simp add: twice_four_def four_def maybe_yield_def)
  ultimately show ?thesis using get_runs_directly [of ?H twice_four h H1] c by auto
qed

section \<open>Operations as coroutines\<close>

text \<open>The operations of this development as bodies, \<open>co_await\<close> in sequence, and the loops of the
  parser and the compiler with their \<open>MaybeYield\<close> after every round: executed directly, and so by
  the theorem above also by \<open>get\<close>, they are the operations, sequences and loops of Prelude.\<close>

definition of_op :: "('s, 'v) op \<Rightarrow> ('s, 'v) coro" where
  "of_op m = CoStep (\<lambda>s. snd (m s)) (\<lambda>s. outcome (fst (m s)))"

definition co_seq :: "('s, 'v) coro \<Rightarrow> ('v \<Rightarrow> ('s, 'v) coro) \<Rightarrow> ('s, 'v) coro" where
  "co_seq c f = CoAwait c (\<lambda>r. case r of Inl e \<Rightarrow> CoThrow e | Inr v \<Rightarrow> f v)"

primrec co_for_each :: "('a \<Rightarrow> ('s, unit) op) \<Rightarrow> 'a list \<Rightarrow> ('s, unit) coro" where
  "co_for_each f [] = CoReturn ()"
| "co_for_each f (x # xs) =
     co_seq (of_op (f x)) (\<lambda>_. co_seq (maybe_yield ()) (\<lambda>_. co_for_each f xs))"

lemma direct_of_op: "direct (of_op m) = m"
  by (auto simp: of_op_def outcome_def fun_eq_iff prod_eq_iff split: sum.split)

lemma direct_co_seq: "direct (co_seq c f) = seq (direct c) (\<lambda>v. direct (f v))"
  by (auto simp: co_seq_def seq_def fun_eq_iff split: prod.split sum.split)

lemma direct_return: "direct (CoReturn v) = ret v" "direct (maybe_yield v) = ret v"
  by (simp_all add: maybe_yield_def ret_def)

lemma direct_co_for_each: "direct (co_for_each f xs) = for_each f xs"
proof (induction xs)
  case Nil
  show ?case by (simp only: co_for_each.simps for_each.simps direct_return)
next
  case (Cons x xs)
  show ?case
    by (simp only: co_for_each.simps for_each.simps direct_co_seq direct_of_op direct_return seq_ret Cons.IH)
qed

end
