(* ===== verification/Futures.thy ===== *)
theory Futures
  imports Coroutine
begin

text \<open>
  The ownership of frames by \<open>Future\<close> objects (base/coro.h): construction, moves, conversion to a
  raw handle and destruction, in any order that a client may call them, together with \<open>get\<close>. The
  invariant is that every frame on the heap has exactly one owner, so that none leaks and none is
  destroyed twice. \<open>Future<void>\<close> and its promise are at the end.
\<close>

section \<open>Future objects\<close>

text \<open>Futures are variables, numbered by their addresses; a variable holds the \<open>_handle\<close> of the
  future. \<open>raw_handles\<close> are the frames whose handle was taken out of a future; they are for the
  client to resume and destroy.\<close>

record ('s, 'v) future_world =
  futures :: "nat \<rightharpoonup> coroutine_handle"
  raw_handles :: "handle set"
  heap :: "('s, 'v) coro_heap"

definition no_futures :: "'s \<Rightarrow> ('s, 'v) future_world" where
  "no_futures s = \<lparr>futures = Map.empty, raw_handles = {},
     heap = \<lparr>frames = Map.empty, next_handle = 0, data = s\<rparr>\<rparr>"

text \<open>A call of a coroutine that initialises the future \<open>x\<close>: \<open>get_return_object\<close> and the constructor
  from the promise.\<close>

definition new_future :: "nat \<Rightarrow> ('s, 'v) coro \<Rightarrow> ('s, 'v) future_world \<Rightarrow> ('s, 'v) future_world" where
  "new_future x c W = (let (h, H) = call_coroutine c (heap W)
     in W\<lparr>futures := (futures W)(x \<mapsto> Frame h), heap := H\<rparr>)"

definition no_such_future :: exn where
  "no_such_future = UndefinedBehaviour ''future is destroyed''"

definition move_construct :: "nat \<Rightarrow> nat \<Rightarrow> (('s, 'v) future_world, unit) op" where
  "move_construct y x W = (case futures W x of
     None \<Rightarrow> (Inl no_such_future, W)
   | Some hnd \<Rightarrow> (Inr (), W\<lparr>futures := (futures W)(x \<mapsto> NullHandle, y \<mapsto> hnd)\<rparr>))"

text \<open>The move assignment has no return statement.\<close>

definition move_assign :: "nat \<Rightarrow> nat \<Rightarrow> (('s, 'v) future_world, unit) op" where
  "move_assign y x W = (case futures W x of
     None \<Rightarrow> (Inl no_such_future, W)
   | Some hnd \<Rightarrow> (Inl (UndefinedBehaviour ''no return statement''),
       W\<lparr>futures := (futures W)(x \<mapsto> NullHandle, y \<mapsto> hnd)\<rparr>))"

definition to_raw_handle :: "nat \<Rightarrow> (('s, 'v) future_world, coroutine_handle) op" where
  "to_raw_handle x W = (case futures W x of
     None \<Rightarrow> (Inl no_such_future, W)
   | Some hnd \<Rightarrow> (Inr hnd, W\<lparr>futures := (futures W)(x \<mapsto> NullHandle),
       raw_handles := raw_handles W \<union> {h. hnd = Frame h}\<rparr>))"

definition destroy_future :: "nat \<Rightarrow> (('s, 'v) future_world, unit) op" where
  "destroy_future x W = (case futures W x of
     None \<Rightarrow> (Inl no_such_future, W)
   | Some (Frame h) \<Rightarrow> (Inr (), W\<lparr>futures := (futures W)(x := None), heap := destroy_frame h (heap W)\<rparr>)
   | Some hnd \<Rightarrow> (Inr (), W\<lparr>futures := (futures W)(x := None)\<rparr>))"

text \<open>\<open>get\<close> returns \<open>await_resume()\<close> by value, so the value is moved out of the promise; \<open>moved\<close> is what
  the move constructor of its type leaves behind. On a future without a handle \<open>get\<close> is undefined.\<close>

definition take_value :: "('v \<Rightarrow> 'v) \<Rightarrow> handle \<Rightarrow> ('s, 'v) coro_heap \<Rightarrow> ('s, 'v) coro_heap" where
  "take_value moved h H = (case frames H h of
     Some fr \<Rightarrow> (case promise_result fr of
         Value v \<Rightarrow> set_frame h (fr\<lparr>promise_result := Value (moved v)\<rparr>) H
       | _ \<Rightarrow> H)
   | None \<Rightarrow> H)"

definition get_value :: "('v \<Rightarrow> 'v) \<Rightarrow> nat \<Rightarrow> ('s, 'v) future_world \<Rightarrow>
    ((exn + 'v) \<times> ('s, 'v) future_world) option" where
  "get_value moved x W = (case futures W x of
     Some (Frame h) \<Rightarrow> map_option (\<lambda>(r, H). (r, W\<lparr>heap := take_value moved h H\<rparr>)) (future_get h (heap W))
   | _ \<Rightarrow> Some (Inl (UndefinedBehaviour ''future without a handle''), W))"

text \<open>The client's use of raw handles: \<open>coroutine_handle::resume\<close>, after which the handle is gone when
  the frame is, and \<open>coroutine_handle::destroy\<close>.\<close>

definition resume_raw :: "handle \<Rightarrow> ('s, 'v) future_world \<Rightarrow> ('s, 'v) future_world option" where
  "resume_raw h W = map_option (\<lambda>H. W\<lparr>heap := H,
     raw_handles := (if frames H h = None then raw_handles W - {h} else raw_handles W)\<rparr>)
     (resume_handle h (heap W))"

definition destroy_raw :: "handle \<Rightarrow> ('s, 'v) future_world \<Rightarrow> ('s, 'v) future_world" where
  "destroy_raw h W = W\<lparr>heap := destroy_frame h (heap W), raw_handles := raw_handles W - {h}\<rparr>"

section \<open>Clients\<close>

text \<open>What a client may do, in any order: everything but move assignment, on futures that exist; a
  raw handle is resumed only before it is done.\<close>

inductive future_step :: "('v \<Rightarrow> 'v) \<Rightarrow> ('s, 'v) future_world \<Rightarrow> ('s, 'v) future_world \<Rightarrow> bool"
  for moved :: "'v \<Rightarrow> 'v" where
  Call: "futures W x = None \<Longrightarrow> future_step moved W (new_future x c W)"
| Move: "futures W y = None \<Longrightarrow> move_construct y x W = (Inr (), W') \<Longrightarrow> future_step moved W W'"
| Get: "futures W x = Some (Frame h) \<Longrightarrow> get_value moved x W = Some (r, W') \<Longrightarrow> future_step moved W W'"
| Release: "to_raw_handle x W = (Inr hnd, W') \<Longrightarrow> future_step moved W W'"
| Destroy: "destroy_future x W = (Inr (), W') \<Longrightarrow> future_step moved W W'"
| Resume_Raw: "h \<in> raw_handles W \<Longrightarrow> \<not> handle_done h (heap W) \<Longrightarrow> resume_raw h W = Some W' \<Longrightarrow>
    future_step moved W W'"
| Destroy_Raw: "h \<in> raw_handles W \<Longrightarrow> future_step moved W (destroy_raw h W)"

inductive_cases future_stepE: "future_step moved W W'"

text \<open>The owners of a frame.\<close>

datatype owner = Variable nat | Raw_Handle

fun owns :: "('s, 'v) future_world \<Rightarrow> owner \<Rightarrow> handle \<Rightarrow> bool" where
  "owns W (Variable x) h \<longleftrightarrow> futures W x = Some (Frame h)"
| "owns W Raw_Handle h \<longleftrightarrow> h \<in> raw_handles W"

text \<open>Between two calls of the client a frame is at its start or at its end, and its promise holds a
  result just when it is at its end.\<close>

definition settled :: "('s, 'v) coro_frame \<Rightarrow> bool" where
  "settled fr \<longleftrightarrow> (case point fr of
     Suspended c \<Rightarrow> chain_parent fr = NullHandle \<and> promise_result fr = Monostate
   | Awaiting n k \<Rightarrow> False
   | FinalSuspend \<Rightarrow> chain_parent fr = NoopCoroutine \<and> promise_result fr \<noteq> Monostate)"

lemma settled_cases:
  assumes "settled fr"
  obtains c where "point fr = Suspended c" "chain_parent fr = NullHandle" "promise_result fr = Monostate"
  | "point fr = FinalSuspend" "chain_parent fr = NoopCoroutine" "promise_result fr \<noteq> Monostate"
  using assms by (cases "point fr") (auto simp: settled_def)

lemma settled_finished [simp]: "settled (finished (fr\<lparr>chain_parent := NoopCoroutine\<rparr>) r)"
  by (simp add: settled_def)

definition futures_ok :: "('s, 'v) future_world \<Rightarrow> bool" where
  "futures_ok W \<longleftrightarrow> heap_ok (heap W) \<and>
     (\<forall>h fr. frames (heap W) h = Some fr \<longrightarrow> settled fr \<and> (\<exists>w. owns W w h)) \<and>
     (\<forall>w h. owns W w h \<longrightarrow> frames (heap W) h \<noteq> None) \<and>
     (\<forall>w w' h. owns W w h \<longrightarrow> owns W w' h \<longrightarrow> w = w')"

lemma futures_okD:
  assumes "futures_ok W" and "frames (heap W) h = Some fr"
  shows "settled fr" and "\<exists>w. owns W w h"
  using assms by (auto simp: futures_ok_def)

lemma owned_frame:
  assumes "futures_ok W" and "owns W w h"
  obtains fr where "frames (heap W) h = Some fr" "settled fr"
  using assms unfolding futures_ok_def by blast

lemma ok_empty: "futures_ok (no_futures s)"
  by (auto simp: futures_ok_def no_futures_def heap_ok_def elim: owns.elims(2))

lemma owner_unique: "futures_ok W \<Longrightarrow> owns W w h \<Longrightarrow> owns W w' h \<Longrightarrow> w = w'"
  unfolding futures_ok_def by blast

lemma same_future: "futures_ok W \<Longrightarrow> futures W x = Some (Frame h) \<Longrightarrow> futures W y = Some (Frame h) \<Longrightarrow> x = y"
  using owner_unique [of W "Variable x" h "Variable y"] by simp

lemma not_raw: "futures_ok W \<Longrightarrow> futures W x = Some (Frame h) \<Longrightarrow> h \<notin> raw_handles W"
  using owner_unique [of W "Variable x" h Raw_Handle] by auto

text \<open>A step changes one frame, or removes one with its owner, or hands one over.\<close>

lemma ok_update:
  assumes "futures_ok W" and "owns W w h" and "heap_ok H"
    and "frames H = (frames (heap W))(h \<mapsto> fr)" and "settled fr"
  shows "futures_ok (W\<lparr>heap := H\<rparr>)"
proof -
  have "owns (W\<lparr>heap := H\<rparr>) w' h' = owns W w' h'" for w' h' by (cases w') simp_all
  with assms show ?thesis by (auto simp: futures_ok_def)
qed

lemma ok_remove:
  assumes "futures_ok W" and "heap_ok (heap W')" and "frames (heap W') = (frames (heap W))(h := None)"
    and "\<And>w h'. owns W' w h' \<longleftrightarrow> owns W w h' \<and> h' \<noteq> h"
  shows "futures_ok W'"
  using assms by (auto simp: futures_ok_def)

lemma ok_hand_over:
  assumes "futures_ok W" and "heap W' = heap W"
    and "\<And>w h. owns W' w h \<Longrightarrow> \<exists>v. owns W v h" and "\<And>v h. owns W v h \<Longrightarrow> \<exists>w. owns W' w h"
    and "\<And>w w' h. owns W' w h \<Longrightarrow> owns W' w' h \<Longrightarrow> w = w'"
  shows "futures_ok W'"
  using assms unfolding futures_ok_def by metis

lemma destroy_frame_sel [simp]:
  "frames (destroy_frame h H) = (frames H)(h := None)" "next_handle (destroy_frame h H) = next_handle H"
  "data (destroy_frame h H) = data H"
  by (simp_all add: destroy_frame_def)

lemma heap_ok_destroy: "heap_ok H \<Longrightarrow> heap_ok (destroy_frame h H)"
  by (simp add: heap_ok_def)

text \<open>\<open>get\<close> always ends. The first time it gives the outcome of the body, executed directly; from then
  on, the exception, or what is left of the value.\<close>

lemma take_value_settled:
  assumes "frames H h = Some fr" and "settled fr"
  shows "\<exists>fr'. settled fr' \<and> frames (take_value moved h H) = (frames H)(h \<mapsto> fr')"
    and "next_handle (take_value moved h H) = next_handle H"
proof -
  have "\<exists>fr'. settled fr' \<and> take_value moved h H = set_frame h fr' H"
  proof (cases "promise_result fr")
    case (Value v)
    with assms have "settled (fr\<lparr>promise_result := Value (moved v)\<rparr>)"
      by (auto simp: settled_def split: frame_point.splits)
    with Value assms(1) show ?thesis by (auto simp: take_value_def)
  qed (use assms in \<open>auto simp: take_value_def set_frame_def fun_upd_idem intro!: exI [of _ fr]\<close>)
  then show "\<exists>fr'. settled fr' \<and> frames (take_value moved h H) = (frames H)(h \<mapsto> fr')"
    "next_handle (take_value moved h H) = next_handle H"
    by (auto simp: set_frame_def)
qed

lemma heap_ok_map: "heap_ok H \<Longrightarrow> frames H h = Some fr \<Longrightarrow> next_handle H \<le> next_handle H' \<Longrightarrow>
    frames H' = (frames H)(h := v) \<Longrightarrow> heap_ok H'"
  by (auto simp: heap_ok_def dest: heap_okD)

lemma get_value_runs:
  assumes "futures_ok W" and "futures W x = Some (Frame h)"
  shows "\<exists>r H fr. get_value moved x W = Some (r, W\<lparr>heap := H\<rparr>) \<and> heap_ok H \<and> settled fr \<and>
    frames H = (frames (heap W))(h \<mapsto> fr)"
proof -
  have ok: "heap_ok (heap W)" using assms(1) by (simp add: futures_ok_def)
  obtain fr where fr: "frames (heap W) h = Some fr" "settled fr"
    using owned_frame [OF assms(1), of "Variable x"] assms(2) by auto
  have taken: "\<exists>r H fr. get_value moved x W = Some (r, W\<lparr>heap := H\<rparr>) \<and> heap_ok H \<and> settled fr \<and>
      frames H = (frames (heap W))(h \<mapsto> fr)"
    if got: "future_get h (heap W) = Some (r, H)" and fr': "frames H = (frames (heap W))(h \<mapsto> fr')" "settled fr'"
      and n: "next_handle (heap W) \<le> next_handle H" for r H fr'
  proof -
    have "frames H h = Some fr'" using fr'(1) by simp
    from take_value_settled [OF this fr'(2), of moved] obtain fr'' where t: "settled fr''"
      "frames (take_value moved h H) = (frames (heap W))(h \<mapsto> fr'')"
      "next_handle (take_value moved h H) = next_handle H" by (auto simp: fr'(1))
    with heap_ok_map [OF ok fr(1) _ t(2)] n have "heap_ok (take_value moved h H)" by simp
    with t got assms(2) show ?thesis by (auto simp: get_value_def)
  qed
  from fr(2) show ?thesis
  proof (cases rule: settled_cases)
    case (1 c)
    obtain r s where d: "direct c (data (heap W)) = (r, s)" by fastforce
    from get_runs [OF fr(1) 1(1) ok d] obtain n where n: "next_handle (heap W) \<le> n" and
      g: "future_get h (heap W) = Some (r, \<lparr>frames = (frames (heap W))(h \<mapsto>
        finished (fr\<lparr>chain_parent := NoopCoroutine\<rparr>) r), next_handle = n, data = s\<rparr>)" (is "_ = Some (r, ?H)")
      by blast
    from taken [OF g] n show ?thesis by simp
  next
    case 2
    have "set_frame h (fr\<lparr>chain_parent := NoopCoroutine\<rparr>) (heap W) = heap W"
      using fr(1) 2(2) by (cases fr; cases "heap W") (simp add: set_frame_def fun_upd_idem)
    with get_again [OF fr(1) 2(1)] have "future_get h (heap W) = Some (await_resume h (heap W), heap W)" by simp
    moreover have "frames (heap W) = (frames (heap W))(h \<mapsto> fr)" using fr(1) by (simp add: fun_upd_idem)
    ultimately show ?thesis using taken [of _ "heap W"] fr(2) by blast
  qed
qed

text \<open>A raw handle that is resumed runs its coroutine to the end and destroys the frame: nobody awaits it.\<close>

lemma resume_raw_runs:
  assumes "futures_ok W" and "h \<in> raw_handles W" and "\<not> handle_done h (heap W)"
  shows "\<exists>c n. point (the (frames (heap W) h)) = Suspended c \<and> next_handle (heap W) \<le> n \<and>
    resume_raw h W = Some (W\<lparr>heap := \<lparr>frames = (frames (heap W))(h := None), next_handle = n,
        data = snd (direct c (data (heap W)))\<rparr>, raw_handles := raw_handles W - {h}\<rparr>)"
proof -
  have ok: "heap_ok (heap W)" using assms(1) by (simp add: futures_ok_def)
  obtain fr where fr: "frames (heap W) h = Some fr" "settled fr"
    using owned_frame [OF assms(1), of Raw_Handle] assms(2) by auto
  then obtain c where c: "point fr = Suspended c" "chain_parent fr = NullHandle"
    using assms(3) by (auto simp: handle_done_def elim: settled_cases)
  obtain r s where d: "direct c (data (heap W)) = (r, s)" by fastforce
  from resume_handle_runs [OF fr(1) c(1) ok d] c(2) obtain n where "next_handle (heap W) \<le> n" and
    "resume_handle h (heap W) =
      Some \<lparr>frames = (frames (heap W))(h := None), next_handle = n, data = s\<rparr>" by auto
  with c fr d show ?thesis by (auto simp: resume_raw_def)
qed

lemma ok_new_future:
  assumes "futures_ok W" and "futures W x = None"
  shows "futures_ok (new_future x c W)"
proof -
  let ?n = "next_handle (heap W)" and ?W = "new_future x c W"
  have ok: "heap_ok (heap W)" using assms(1) by (simp add: futures_ok_def)
  have new: "heap_ok (heap ?W)" "frames (heap ?W) = (frames (heap W))(?n \<mapsto>
      \<lparr>point = Suspended c, chain_parent = NullHandle, promise_result = Monostate\<rparr>)"
    using ok by (auto simp: new_future_def call_coroutine_def heap_ok_def)
  have free: "\<not> owns W w ?n" for w
    using assms(1) ok unfolding futures_ok_def heap_ok_def by blast
  have own: "owns ?W w h \<longleftrightarrow> owns W w h \<or> w = Variable x \<and> h = ?n" for w h
    using assms(2) by (cases w) (auto simp: new_future_def call_coroutine_def)
  show ?thesis
    using assms(1) free unfolding futures_ok_def own new(2) by (auto simp: new(1) settled_def)
qed

lemma ok_move_construct:
  assumes "futures_ok W" and "futures W y = None" and "move_construct y x W = (Inr (), W')"
  shows "futures_ok W'"
proof -
  have own: "owns W' w h \<longleftrightarrow> (case w of Variable v \<Rightarrow>
      if v = y then owns W (Variable x) h else v \<noteq> x \<and> owns W w h | Raw_Handle \<Rightarrow> owns W w h)" for w h
    using assms(3) by (cases w) (auto simp: move_construct_def split: option.splits if_splits)
  have h: "heap W' = heap W" using assms(3) by (auto simp: move_construct_def split: option.splits)
  show ?thesis
  proof (rule ok_hand_over [OF assms(1) h])
    show "owns W' w h \<Longrightarrow> \<exists>v. owns W v h" for w h
      unfolding own by (auto split: owner.splits if_splits simp del: owns.simps)
    show "owns W v h \<Longrightarrow> \<exists>w. owns W' w h" for v h
      using assms(2) unfolding own
      by (cases v) (auto intro!: exI [of _ "if v = Variable x then Variable y else v"])
    show "owns W' w h \<Longrightarrow> owns W' w' h \<Longrightarrow> w = w'" for w w' h
      using owner_unique [OF assms(1)] unfolding own by (force split: owner.splits if_splits)
  qed
qed

lemma ok_to_raw_handle:
  assumes "futures_ok W" and "to_raw_handle x W = (Inr hnd, W')"
  shows "futures_ok W'"
proof -
  have own: "owns W' w h \<longleftrightarrow> (case w of Variable v \<Rightarrow> v \<noteq> x \<and> owns W w h
      | Raw_Handle \<Rightarrow> owns W w h \<or> owns W (Variable x) h)" for w h
    using assms(2) by (cases w) (auto simp: to_raw_handle_def split: option.splits if_splits)
  have h: "heap W' = heap W" using assms(2) by (auto simp: to_raw_handle_def split: option.splits)
  show ?thesis
  proof (rule ok_hand_over [OF assms(1) h])
    show "owns W' w h \<Longrightarrow> \<exists>v. owns W v h" for w h
      unfolding own by (auto split: owner.splits simp del: owns.simps)
    show "owns W v h \<Longrightarrow> \<exists>w. owns W' w h" for v h
      unfolding own by (cases "v = Variable x") (auto split: owner.splits intro: exI [of _ Raw_Handle] exI [of _ v])
    show "owns W' w h \<Longrightarrow> owns W' w' h \<Longrightarrow> w = w'" for w w' h
      using owner_unique [OF assms(1)] unfolding own by (force split: owner.splits)
  qed
qed

lemma ok_destroy_future:
  assumes "futures_ok W" and "destroy_future x W = (Inr (), W')"
  shows "futures_ok W'"
proof (cases "\<exists>h. futures W x = Some (Frame h)")
  case True
  then obtain h where x: "futures W x = Some (Frame h)"
    and W': "W' = W\<lparr>futures := (futures W)(x := None), heap := destroy_frame h (heap W)\<rparr>"
    using assms(2) by (auto simp: destroy_future_def)
  show ?thesis
  proof (rule ok_remove [OF assms(1)])
    show "frames (heap W') = (frames (heap W))(h := None)" "heap_ok (heap W')"
      using assms(1) by (simp_all add: W' heap_ok_destroy futures_ok_def)
    show "owns W' w h' \<longleftrightarrow> owns W w h' \<and> h' \<noteq> h" for w h'
      using x same_future [OF assms(1)] not_raw [OF assms(1)] by (cases w) (auto simp: W')
  qed
next
  case False
  with assms(2) have W': "W' = W\<lparr>futures := (futures W)(x := None)\<rparr>"
    by (auto simp: destroy_future_def split: option.splits coroutine_handle.splits)
  have "owns W' w h \<longleftrightarrow> owns W w h" for w h using False by (cases w) (auto simp: W')
  with assms(1) W' show ?thesis by (simp add: futures_ok_def)
qed

lemma ok_raw_handle_gone:
  assumes "futures_ok W" and "h \<in> raw_handles W" and "next_handle (heap W) \<le> next_handle H"
    and "frames H = (frames (heap W))(h := None)"
    and "W' = W\<lparr>heap := H, raw_handles := raw_handles W - {h}\<rparr>"
  shows "futures_ok W'"
proof (rule ok_remove [OF assms(1)])
  show "frames (heap W') = (frames (heap W))(h := None)" "heap_ok (heap W')"
    using assms by (auto simp: futures_ok_def heap_ok_def)
  show "owns W' w h' \<longleftrightarrow> owns W w h' \<and> h' \<noteq> h" for w h'
    using not_raw [OF assms(1)] assms(2) by (cases w) (auto simp: assms(5))
qed

lemma ok_step:
  assumes "futures_ok W" and "future_step moved W W'"
  shows "futures_ok W'"
  using assms(2)
proof cases
  case (Get x h r)
  with get_value_runs [OF assms(1) Get(1), of moved] ok_update [OF assms(1), of "Variable x" h]
  show ?thesis by auto
next
  case (Resume_Raw h)
  from resume_raw_runs [OF assms(1) Resume_Raw(1,2)] Resume_Raw(3) ok_raw_handle_gone [OF assms(1) Resume_Raw(1)]
  show ?thesis by fastforce
next
  case (Destroy_Raw h)
  then show ?thesis
    using ok_raw_handle_gone [OF assms(1) Destroy_Raw(2), of "destroy_frame h (heap W)"]
    by (simp add: destroy_raw_def)
qed (use assms(1) ok_new_future ok_move_construct ok_to_raw_handle ok_destroy_future in blast)+

lemma futures_ok_reachable:
  assumes "(future_step moved)\<^sup>*\<^sup>* (no_futures s) W"
  shows "futures_ok W"
  using assms by (induction rule: rtranclp_induct) (simp_all add: ok_empty ok_step)

text \<open>The first \<open>get\<close> of a future is the direct execution of its body.\<close>

lemma get_value_first:
  assumes "futures_ok W" and "futures W x = Some (Frame h)"
    and "frames (heap W) h = Some fr" and "point fr = Suspended c"
  shows "\<exists>W'. get_value moved x W = Some (fst (direct c (data (heap W))), W') \<and>
    data (heap W') = snd (direct c (data (heap W)))"
proof -
  have "heap_ok (heap W)" using assms(1) by (simp add: futures_ok_def)
  moreover obtain r s where "direct c (data (heap W)) = (r, s)" by fastforce
  ultimately show ?thesis
    using get_runs [OF assms(3,4)] assms(2)
    by (fastforce simp: get_value_def take_value_def set_frame_def split: promise_result.splits)
qed

text \<open>C20: futures own their frames. Whatever a client does with futures, short of assigning one to
  another, in any order: every frame that is alive has exactly one owner, a future or a raw handle that
  was taken out of one; what a future or raw handle refers to is alive; and the frame is
  either at its start or at its end. So no frame leaks, none is destroyed twice, and none is used
  after it was destroyed.\<close>

theorem futures_own_frames:
  assumes "(future_step moved)\<^sup>*\<^sup>* (no_futures s) W"
  shows "(frames (heap W) h \<noteq> None \<longleftrightarrow> (\<exists>!w. owns W w h)) \<and>
    (\<forall>fr. frames (heap W) h = Some fr \<longrightarrow> settled fr)"
  using futures_ok_reachable [OF assms] unfolding futures_ok_def by (metis not_None_eq)

text \<open>A future that was moved, and one that gave away its handle.\<close>

definition moved_and_released :: "(nat, int) future_world" where
  "moved_and_released = snd (to_raw_handle 2 (new_future 2 twice_four
     (snd (move_construct 1 0 (new_future 0 four (no_futures 0))))))"

lemma moved_and_released_reached: "(future_step id)\<^sup>*\<^sup>* (no_futures 0) moved_and_released"
proof -
  let ?W1 = "new_future 0 four (no_futures 0)"
  let ?W2 = "snd (move_construct 1 0 ?W1)"
  let ?W3 = "new_future 2 twice_four ?W2"
  have "future_step id (no_futures 0) ?W1" by (rule Call) (simp add: no_futures_def)
  moreover have "future_step id ?W1 ?W2"
    by (rule Move [of _ 1 0])
      (simp_all add: new_future_def call_coroutine_def no_futures_def move_construct_def)
  moreover have "future_step id ?W2 ?W3"
    by (rule Call) (simp add: new_future_def call_coroutine_def no_futures_def move_construct_def)
  moreover have "future_step id ?W3 moved_and_released"
    by (rule Release [of 2])
      (simp add: moved_and_released_def new_future_def call_coroutine_def no_futures_def
        move_construct_def to_raw_handle_def)
  ultimately show ?thesis by (meson converse_rtranclp_into_rtranclp rtranclp.rtrancl_refl)
qed

lemmas moved_and_released_simps = moved_and_released_def new_future_def call_coroutine_def
  no_futures_def move_construct_def to_raw_handle_def

theorem futures_own_frames_witness:
  "(\<exists>!w. owns moved_and_released w 0) \<and> owns moved_and_released (Variable 1) 0 \<and>
   (\<exists>!w. owns moved_and_released w 1) \<and> owns moved_and_released Raw_Handle 1 \<and>
   (\<nexists>!w. owns moved_and_released w 2)"
  using futures_own_frames [OF moved_and_released_reached, of 0]
    futures_own_frames [OF moved_and_released_reached, of 1]
    futures_own_frames [OF moved_and_released_reached, of 2]
  by (simp add: moved_and_released_simps)

text \<open>C39: the move assignment of \<open>Future\<close> breaks this. It writes the moved handle over the one that the
  target had without destroying that frame, which then has no owner and is never freed; and
  it ends without returning the reference that it promises, which is undefined behaviour.\<close>

theorem move_assign_leaks:
  assumes "(future_step moved)\<^sup>*\<^sup>* (no_futures s) W"
    and "futures W y = Some (Frame h)" and "futures W x \<noteq> None" and "x \<noteq> y"
  shows "\<exists>W'. move_assign y x W = (Inl (UndefinedBehaviour ''no return statement''), W') \<and>
    frames (heap W') h \<noteq> None \<and> (\<forall>w. \<not> owns W' w h)"
proof -
  note ok = futures_ok_reachable [OF assms(1)]
  from assms(3) obtain hnd where x: "futures W x = Some hnd" by blast
  define W' where "W' = W\<lparr>futures := (futures W)(x \<mapsto> NullHandle, y \<mapsto> hnd)\<rparr>"
  have "hnd \<noteq> Frame h" using same_future [OF ok assms(2)] x assms(4) by blast
  then have "\<not> owns W' w h" for w
    using same_future [OF ok assms(2)] not_raw [OF ok assms(2)] by (cases w) (auto simp: W'_def)
  moreover have "frames (heap W') h \<noteq> None"
    using owned_frame [OF ok, of "Variable y" h] assms(2) by (auto simp: W'_def)
  ultimately show ?thesis using x by (auto simp: move_assign_def W'_def)
qed

definition two_futures :: "(nat, int) future_world" where
  "two_futures = new_future 1 twice_four (new_future 0 four (no_futures 0))"

theorem move_assign_leaks_witness:
  "\<exists>W'. move_assign 0 1 two_futures = (Inl (UndefinedBehaviour ''no return statement''), W') \<and>
     frames (heap W') 0 \<noteq> None \<and> (\<forall>w. \<not> owns W' w 0)"
proof (rule move_assign_leaks)
  have "future_step id (no_futures 0) (new_future 0 four (no_futures 0))"
    by (rule Call) (simp add: no_futures_def)
  moreover have "future_step id (new_future 0 four (no_futures 0)) two_futures"
    unfolding two_futures_def by (rule Call) (simp add: new_future_def call_coroutine_def no_futures_def)
  ultimately show "(future_step id)\<^sup>*\<^sup>* (no_futures 0) two_futures" by simp
qed (simp_all add: two_futures_def new_future_def call_coroutine_def no_futures_def)

section \<open>\<open>Future<void>\<close>\<close>

text \<open>The promise of \<open>void\<close> keeps an optional exception. Its \<open>return_void\<close> stores nothing, and
  \<open>await_resume\<close> throws just when there is an exception.\<close>

type_synonym void_result = "exn option"

definition no_result :: void_result where
  "no_result = None"

definition return_void :: "void_result \<Rightarrow> void_result" where
  "return_void r = r"

definition unhandled_exception_void :: "exn \<Rightarrow> void_result \<Rightarrow> void_result" where
  "unhandled_exception_void e r = Some e"

definition await_resume_void :: "void_result \<Rightarrow> exn + unit" where
  "await_resume_void r = (case r of Some e \<Rightarrow> Inl e | None \<Rightarrow> Inr ())"

text \<open>At the end of a coroutine this gives the outcome of its body, as the promise of any other type does
  (\<open>stored_value\<close>): \<open>Future<void>\<close> is the instance of the model whose values are \<open>()\<close>.\<close>

definition ended_void :: "exn + unit \<Rightarrow> void_result" where
  "ended_void r = (case r of Inl e \<Rightarrow> unhandled_exception_void e no_result
                          | Inr _ \<Rightarrow> return_void no_result)"

lemma void_result_kept:
  "await_resume_void (ended_void r) = r"
  "frames H h = Some fr \<Longrightarrow> promise_result fr = stored r \<Longrightarrow> await_resume h H = await_resume_void (ended_void r)"
  by (auto simp: await_resume_void_def ended_void_def unhandled_exception_void_def return_void_def
      no_result_def await_resume_def stored_def split: sum.splits)

end
