(* ===== verification/Value.thy ===== *)
theory Value
  imports Prelude
begin

text \<open>
  Value types and values of core/value.h and core/value.cc. A \<open>float\<close> or \<open>double\<close> is
  represented by its bit pattern, so that \<open>std::bit_cast\<close> is the identity on it. Pointers have
  64 bits, as on both targets of the compiler (x86-64 and AArch64).
\<close>

section \<open>Value types\<close>

datatype val_type = kI32 | kI64 | kF32 | kF64 | kV128 | kFuncRef | kExternRef

fun val_type_code :: "val_type \<Rightarrow> u8" where
  "val_type_code kI32 = 0x7F"
| "val_type_code kI64 = 0x7E"
| "val_type_code kF32 = 0x7D"
| "val_type_code kF64 = 0x7C"
| "val_type_code kV128 = 0x7B"
| "val_type_code kFuncRef = 0x70"
| "val_type_code kExternRef = 0x6F"

fun is_val_type_32bit :: "val_type \<Rightarrow> bool" where
  "is_val_type_32bit kI32 = True"
| "is_val_type_32bit kF32 = True"
| "is_val_type_32bit kExternRef = True"
| "is_val_type_32bit kFuncRef = True"
| "is_val_type_32bit _ = False"

fun is_val_type_64bit :: "val_type \<Rightarrow> bool" where
  "is_val_type_64bit kI64 = True"
| "is_val_type_64bit kF64 = True"
| "is_val_type_64bit _ = False"

fun val_type_size_bytes :: "val_type \<Rightarrow> nat" where
  "val_type_size_bytes kI32 = 4"
| "val_type_size_bytes kI64 = 8"
| "val_type_size_bytes kF32 = 4"
| "val_type_size_bytes kF64 = 8"
| "val_type_size_bytes kV128 = 8 * 2"
| "val_type_size_bytes kFuncRef = 8"
| "val_type_size_bytes kExternRef = 8"

fun print_val_type :: "val_type \<Rightarrow> string" where
  "print_val_type kI32 = ''i32''"
| "print_val_type kI64 = ''i64''"
| "print_val_type kF32 = ''f32''"
| "print_val_type kF64 = ''f64''"
| "print_val_type kV128 = ''v128''"
| "print_val_type kFuncRef = ''funcref''"
| "print_val_type kExternRef = ''externref''"

lemma val_type_code_inj [simp]: "val_type_code a = val_type_code b \<longleftrightarrow> a = b"
  by (cases a; cases b) simp_all

lemma val_type_size_bytes_bounds: "4 \<le> val_type_size_bytes t" "val_type_size_bytes t \<le> 16"
  by (cases t; simp)+

section \<open>Values\<close>

record wasm_value =
  underlying :: u64

text \<open>\<open>uint64_t(v)\<close> of a negative \<open>int32_t\<close> extends the sign.\<close>

definition value_I32 :: "u32 \<Rightarrow> wasm_value" where
  "value_I32 v = \<lparr>underlying = scast v\<rparr>"

definition value_U32 :: "u32 \<Rightarrow> wasm_value" where
  "value_U32 v = \<lparr>underlying = ucast v\<rparr>"

definition value_I64 :: "u64 \<Rightarrow> wasm_value" where
  "value_I64 v = \<lparr>underlying = v\<rparr>"

definition value_U64 :: "u64 \<Rightarrow> wasm_value" where
  "value_U64 v = \<lparr>underlying = v\<rparr>"

definition value_F32 :: "u32 \<Rightarrow> wasm_value" where
  "value_F32 bits = \<lparr>underlying = ucast bits\<rparr>"

definition value_F64 :: "u64 \<Rightarrow> wasm_value" where
  "value_F64 bits = \<lparr>underlying = bits\<rparr>"

definition as_I32 :: "wasm_value \<Rightarrow> u32" where
  "as_I32 v = ucast (underlying v)"

definition as_U32 :: "wasm_value \<Rightarrow> u32" where
  "as_U32 v = ucast (underlying v)"

definition as_I64 :: "wasm_value \<Rightarrow> u64" where
  "as_I64 v = underlying v"

definition as_U64 :: "wasm_value \<Rightarrow> u64" where
  "as_U64 v = underlying v"

definition as_F32 :: "wasm_value \<Rightarrow> u32" where
  "as_F32 v = ucast (underlying v)"

definition as_F64 :: "wasm_value \<Rightarrow> u64" where
  "as_F64 v = underlying v"

lemmas value_defs =
  value_I32_def value_U32_def value_I64_def value_U64_def value_F32_def value_F64_def
  as_I32_def as_U32_def as_I64_def as_U64_def as_F32_def as_F64_def

lemma ucast_scast_u32 [simp]: "(ucast (scast (v :: u32) :: u64) :: u32) = v"
  by (rule bit_word_eqI) (simp add: bit_simps)

lemma ucast_ucast_u32 [simp]: "(ucast (ucast (v :: u32) :: u64) :: u32) = v"
  by (rule bit_word_eqI) (simp add: bit_simps)

lemma as_I32_value_U32 [simp]: "as_I32 (value_U32 v) = v"
  by (simp add: value_defs)

text \<open>Every accessor returns what the matching factory stored, and the two 32-bit integer
  views of a value agree on its bits, so a negative \<open>int32_t\<close> survives being stored as a 64-bit
  number.\<close>

theorem value_round_trips:
  "as_I32 (value_I32 v) = v \<and> as_U32 (value_U32 v) = v \<and> as_U32 (value_I32 v) = v \<and>
   as_I32 (value_U32 v) = v \<and> as_F32 (value_F32 v) = v \<and>
   as_I64 (value_I64 w) = w \<and> as_U64 (value_U64 w) = w \<and> as_F64 (value_F64 w) = w \<and>
   sint (as_I64 (value_I32 v)) = sint v \<and> uint (as_U64 (value_U32 v)) = uint v"
proof -
  have "sint (scast v :: u64) = sint v"
    by (rule bit_eqI) (simp add: bit_simps min_def)
  then show ?thesis
    by (simp add: value_defs uint_up_ucast is_up_def source_size_def target_size_def word_size)
qed

text \<open>The register width that \<open>IsValType32Bit\<close> gives a type and its size in memory disagree
  exactly on the reference types: they count as 32-bit in a register and take 8 bytes in
  memory. For every other type up to 64 bits the two agree.\<close>

theorem register_width_vs_size:
  "(is_val_type_32bit t \<and> val_type_size_bytes t \<noteq> 4 \<longleftrightarrow> t = kFuncRef \<or> t = kExternRef) \<and>
   (is_val_type_64bit t \<longleftrightarrow> val_type_size_bytes t = 8 \<and> t \<noteq> kFuncRef \<and> t \<noteq> kExternRef)"
  by (cases t) simp_all

end
