(* ===== verification/Ast.thy ===== *)
theory Ast
  imports Value
begin

text \<open>
  The data of core/ast.h and core/instruction.h: signatures, the pieces of a module, and the
  instructions of the intermediate representation. The strongly typed indices
  (\<open>NamedType<uint32_t, Tag>\<close>) are type synonyms for 32-bit words, a \<open>Name\<close> is the vector of
  its bytes, and a label id keeps the two arguments of \<open>MakeLabelId\<close> apart instead of the text
  that \<open>absl::StrFormat\<close> makes of them.
\<close>

section \<open>Types of functions, tables, memories and globals\<close>

record block_type =
  parameter_types :: "val_type list"
  result_types :: "val_type list"

record limits =
  lim_min :: u32
  lim_max :: u32

type_synonym name = "u8 list"
type_synonym type_idx = u32
type_synonym func_idx = u32
type_synonym table_idx = u32
type_synonym mem_idx = u32
type_synonym global_idx = u32

record table_type =
  table_limits :: limits
  reftype :: val_type

record mem_type =
  mem_limits :: limits

record global_type =
  global_valtype :: val_type
  mut :: bool

section \<open>Imports, exports and definitions\<close>

datatype import_description =
    ImportFunc type_idx
  | ImportTable table_type
  | ImportMem mem_type
  | ImportGlobal global_type

record module_import =
  import_module_name :: name
  import_name :: name
  import_desc :: import_description

record wasm_table =
  table_type :: table_type

record wasm_mem =
  mem_type :: mem_type

record wasm_global =
  global_type :: global_type
  global_value :: wasm_value

datatype export_description =
    ExportFunc func_idx
  | ExportTable table_idx
  | ExportMem mem_idx
  | ExportGlobal global_idx

record module_export =
  export_name :: name
  export_desc :: export_description

section \<open>Instructions\<close>

datatype label_id = MakeLabelId string int

datatype instruction =
    ConstI32 wasm_value
  | AddI32
  | GetLocalI32 nat
  | SetLocalI32 nat
  | Return
  | Label label_id
  | Br label_id
  | BrIf label_id label_id

section \<open>Functions and modules\<close>

record function_metadata =
  signature :: block_type
  locals :: "val_type list"
  max_stack_size_bytes :: u32
  max_stack_elements :: u32

record wasm_function =
  meta :: function_metadata
  body :: "instruction list"

text \<open>\<open>exported_functions\<close> is a hash map; nothing in the code depends on its order.\<close>

record parsed_module =
  module_functions :: "wasm_function list"
  exported_functions :: "name \<rightharpoonup> func_idx"

text \<open>Bodies without control transfer, for which the compiler emits complete code.\<close>

definition straight :: "instruction \<Rightarrow> bool" where
  "straight i = (case i of Label _ \<Rightarrow> False | Br _ \<Rightarrow> False | BrIf _ _ \<Rightarrow> False | _ \<Rightarrow> True)"

lemma straight_simps [simp]:
  "straight (ConstI32 v)" "straight AddI32" "straight (GetLocalI32 i)" "straight (SetLocalI32 i)"
  "straight Return" "\<not> straight (Label l)" "\<not> straight (Br l)" "\<not> straight (BrIf l l')"
  by (simp_all add: straight_def)

end
