(* ===== verification/Validator.thy ===== *)
theory Validator
  imports Ast
begin

text \<open>
  The function validator of parser/validator.h and parser/validator.cc: an abstract
  interpretation of a body over a stack of types, which also computes how much stack the
  function needs. The operations keep the changes they made before they throw.
\<close>

section \<open>Validation types\<close>

text \<open>
  A \<open>ValidationType\<close> is a byte: the code of a value type, 0 for any type or 1 for any
  reference. Its constructors reach no other byte, so it is a datatype here;
  \<open>validation_code\<close> is the byte.
\<close>

datatype validation_type = Known val_type | AnyType | AnyRefType

fun validation_code :: "validation_type \<Rightarrow> u8" where
  "validation_code (Known t) = val_type_code t"
| "validation_code AnyType = 0"
| "validation_code AnyRefType = 1"

lemma validation_code_inj: "validation_code a = validation_code b \<longleftrightarrow> a = b"
proof -
  have "val_type_code t \<noteq> 0 \<and> val_type_code t \<noteq> 1" for t by (cases t) simp_all
  then show ?thesis by (cases a; cases b) (auto dest: sym)
qed

definition is_i32 :: "validation_type \<Rightarrow> bool" where
  "is_i32 vt \<longleftrightarrow> validation_code vt = val_type_code kI32"

definition is_any :: "validation_type \<Rightarrow> bool" where
  "is_any vt \<longleftrightarrow> validation_code vt = 0"

definition is_anyref :: "validation_type \<Rightarrow> bool" where
  "is_anyref vt \<longleftrightarrow> validation_code vt = 1"

definition is_ref :: "validation_type \<Rightarrow> bool" where
  "is_ref vt \<longleftrightarrow> validation_code vt = 1 \<or> validation_code vt = val_type_code kFuncRef \<or>
                validation_code vt = val_type_code kExternRef"

fun size_bytes :: "validation_type \<Rightarrow> u64" where
  "size_bytes AnyType = 8 * 2"
| "size_bytes AnyRefType = 8"
| "size_bytes (Known t) = of_nat (val_type_size_bytes t)"

lemma validation_tests [simp]:
  "is_any (Known t) = False" "is_any AnyType" "\<not> is_any AnyRefType"
  "is_anyref (Known t) = False" "\<not> is_anyref AnyType" "is_anyref AnyRefType"
  by (cases t; simp add: is_any_def is_anyref_def)+

section \<open>The validator\<close>

record validator =
  v_locals :: "val_type list"
  v_returns :: "val_type list"
  v_unreachable :: bool
  v_underlying :: "validation_type list"
  v_current_memory_usage :: u64
  v_max_stack_size :: nat
  v_max_memory_usage :: u64

text \<open>The vector \<open>_underlying\<close> grows at its end, as \<open>push_back\<close> does.\<close>

definition new_validator :: "block_type \<Rightarrow> val_type list \<Rightarrow> validator" where
  "new_validator ft local_types =
     \<lparr>v_locals = parameter_types ft @ local_types,
      v_returns = result_types ft,
      v_unreachable = False,
      v_underlying = [],
      v_current_memory_usage = 0,
      v_max_stack_size = 0,
      v_max_memory_usage = 0\<rparr>"

definition maximum_stack_elements :: "validator \<Rightarrow> nat" where
  "maximum_stack_elements v = v_max_stack_size v"

definition maximum_stack_size_bytes :: "validator \<Rightarrow> u64" where
  "maximum_stack_size_bytes v = v_max_memory_usage v"

definition assert_local :: "nat \<Rightarrow> val_type \<Rightarrow> (validator, unit) op" where
  "assert_local idx vt v =
     (if length (v_locals v) \<le> idx \<or> v_locals v ! idx \<noteq> vt
      then (Inl ValidationException, v) else (Inr (), v))"

definition assert_empty :: "(validator, unit) op" where
  "assert_empty v =
     (if v_underlying v \<noteq> [] then (Inl ValidationException, v) else (Inr (), v))"

text \<open>The end of \<open>Pop\<close>, after \<open>actual\<close> has been taken off the stack.\<close>

definition pop_actual :: "validation_type \<Rightarrow> validation_type \<Rightarrow> (validator, unit) op" where
  "pop_actual expected actual v =
     (let v' = v\<lparr>v_current_memory_usage := v_current_memory_usage v - size_bytes actual\<rparr>;
          ok = (if is_any actual \<or> is_any expected then True
                else if is_anyref expected then is_ref actual
                else actual = expected)
      in if \<not> ok then (Inl ValidationException, v') else (Inr (), v'))"

definition pop :: "validation_type \<Rightarrow> (validator, unit) op" where
  "pop expected v =
     (if v_underlying v = [] then
        (if \<not> v_unreachable v then (Inl ValidationException, v)
         else pop_actual expected AnyType v)
      else pop_actual expected (last (v_underlying v))
             (v\<lparr>v_underlying := butlast (v_underlying v)\<rparr>))"

definition push :: "validation_type \<Rightarrow> (validator, unit) op" where
  "push vt v =
     (let v1 = v\<lparr>v_underlying := v_underlying v @ [vt]\<rparr>;
          v2 = v1\<lparr>v_current_memory_usage := v_current_memory_usage v1 + size_bytes vt\<rparr>;
          v3 = v2\<lparr>v_max_stack_size := max (v_max_stack_size v2) (length (v_underlying v2))\<rparr>;
          v4 = v3\<lparr>v_max_memory_usage :=
                    max (v_max_memory_usage v3) (v_current_memory_usage v3)\<rparr>
      in (Inr (), v4))"

definition pop_returns :: "(validator, unit) op" where
  "pop_returns v = for_each (\<lambda>vt. pop (Known vt)) (v_returns v) v"

fun validate_op :: "instruction \<Rightarrow> (validator, unit) op" where
  "validate_op (ConstI32 _) = push (Known kI32)"
| "validate_op AddI32 =
     seq (pop (Known kI32)) (\<lambda>_. seq (pop (Known kI32)) (\<lambda>_. push (Known kI32)))"
| "validate_op (GetLocalI32 idx) = seq (assert_local idx kI32) (\<lambda>_. push (Known kI32))"
| "validate_op (SetLocalI32 idx) = seq (pop (Known kI32)) (\<lambda>_. assert_local idx kI32)"
| "validate_op Return =
     seq pop_returns (\<lambda>_. seq assert_empty (\<lambda>_. modify (\<lambda>v. v\<lparr>v_unreachable := True\<rparr>)))"
| "validate_op (Label _) = ret ()"
| "validate_op (Br _) = ret ()"
| "validate_op (BrIf _ _) = ret ()"

definition finalize :: "(validator, unit) op" where
  "finalize = seq pop_returns (\<lambda>_. assert_empty)"

text \<open>What \<open>OpEmitter\<close> (parser/parser.cc) runs on a whole body.\<close>

definition validate :: "instruction list \<Rightarrow> (validator, unit) op" where
  "validate is = seq (for_each validate_op is) (\<lambda>_. finalize)"

lemma validate_Cons: "validate (i # is) = seq (validate_op i) (\<lambda>_. validate is)"
  by (simp add: validate_def seq_assoc)

section \<open>The abstract validator\<close>

text \<open>
  The contract of the validator, without its memory accounting: a flag that says whether the
  current point is unreachable, and a stack of value types, top first. Popping an empty stack
  fails in reachable code and yields whatever is wanted in unreachable code.
\<close>

type_synonym vstate = "bool \<times> val_type list"

fun abs_pop :: "val_type \<Rightarrow> vstate \<Rightarrow> vstate option" where
  "abs_pop t (u, []) = (if u then Some (u, []) else None)"
| "abs_pop t (u, t' # st) = (if t' = t then Some (u, st) else None)"

fun abs_pops :: "val_type list \<Rightarrow> vstate \<Rightarrow> vstate option" where
  "abs_pops [] s = Some s"
| "abs_pops (t # ts) s = Option.bind (abs_pop t s) (abs_pops ts)"

definition abs_empty :: "vstate \<Rightarrow> vstate option" where
  "abs_empty s = (if snd s = [] then Some s else None)"

fun abs_op :: "val_type list \<Rightarrow> val_type list \<Rightarrow> instruction \<Rightarrow> vstate \<Rightarrow> vstate option" where
  "abs_op L R (ConstI32 _) (u, st) = Some (u, kI32 # st)"
| "abs_op L R AddI32 s =
     Option.bind (abs_pops [kI32, kI32] s) (\<lambda>(u, st). Some (u, kI32 # st))"
| "abs_op L R (GetLocalI32 i) (u, st) =
     (if i < length L \<and> L ! i = kI32 then Some (u, kI32 # st) else None)"
| "abs_op L R (SetLocalI32 i) s =
     Option.bind (abs_pop kI32 s) (\<lambda>s. if i < length L \<and> L ! i = kI32 then Some s else None)"
| "abs_op L R Return s =
     Option.bind (abs_pops R s) (\<lambda>s. Option.bind (abs_empty s) (\<lambda>(u, st). Some (True, st)))"
| "abs_op L R (Label _) s = Some s"
| "abs_op L R (Br _) s = Some s"
| "abs_op L R (BrIf _ _) s = Some s"

fun abs_ops :: "val_type list \<Rightarrow> val_type list \<Rightarrow> instruction list \<Rightarrow> vstate \<Rightarrow> vstate option" where
  "abs_ops L R [] s = Some s"
| "abs_ops L R (i # is) s = Option.bind (abs_op L R i s) (abs_ops L R is)"

definition abs_validate ::
    "val_type list \<Rightarrow> val_type list \<Rightarrow> instruction list \<Rightarrow> vstate \<Rightarrow> vstate option" where
  "abs_validate L R is s =
     Option.bind (abs_ops L R is s) (\<lambda>s. Option.bind (abs_pops R s) abs_empty)"

section \<open>Refinement\<close>

text \<open>The abstract state of a validator whose stack holds value types only.\<close>

definition vabs :: "validator \<Rightarrow> vstate \<Rightarrow> bool" where
  "vabs v s \<longleftrightarrow> v_unreachable v = fst s \<and> v_underlying v = map Known (rev (snd s))"

definition same_context :: "validator \<Rightarrow> validator \<Rightarrow> bool" where
  "same_context v v' \<longleftrightarrow> v_locals v' = v_locals v \<and> v_returns v' = v_returns v"

text \<open>
  \<open>refines m f\<close>: \<open>m\<close> does to the validator what \<open>f\<close> does to its abstract state; where \<open>f\<close> has
  no result, \<open>m\<close> throws \<open>ValidationException\<close>.
\<close>

definition refines ::
    "val_type list \<Rightarrow> val_type list \<Rightarrow> (validator, unit) op \<Rightarrow> (vstate \<Rightarrow> vstate option) \<Rightarrow> bool" where
  "refines L R m f \<longleftrightarrow>
     (\<forall>v s. v_locals v = L \<and> v_returns v = R \<and> vabs v s \<longrightarrow>
        (case f s of
           None \<Rightarrow> fst (m v) = Inl ValidationException
         | Some s' \<Rightarrow> fst (m v) = Inr () \<and> same_context v (snd (m v)) \<and> vabs (snd (m v)) s'))"

lemma refines_SomeD:
  assumes "refines L R m f" and "v_locals v = L" and "v_returns v = R" and "vabs v s"
    and "f s = Some s'"
  obtains v' where "m v = (Inr (), v')" and "v_locals v' = L" and "v_returns v' = R"
    and "vabs v' s'"
proof -
  have "fst (m v) = Inr ()" "same_context v (snd (m v))" "vabs (snd (m v)) s'"
    using assms(1) [unfolded refines_def, rule_format, of v s] assms(2-5) by simp_all
  then show thesis
    using that [of "snd (m v)"] assms(2,3) by (simp add: same_context_def prod_eq_iff)
qed

lemma refines_NoneD:
  assumes "refines L R m f" and "v_locals v = L" and "v_returns v = R" and "vabs v s"
    and "f s = None"
  shows "\<exists>v'. m v = (Inl ValidationException, v')"
  using assms(1) [unfolded refines_def, rule_format, of v s] assms(2-5)
  by (simp add: prod_eq_iff)

lemma refines_ret: "refines L R (ret ()) Some"
  by (simp add: refines_def same_context_def)

lemma refines_seq:
  assumes m: "refines L R m f" and n: "refines L R n g"
  shows "refines L R (seq m (\<lambda>_. n)) (\<lambda>s. Option.bind (f s) g)"
  unfolding refines_def
proof (intro allI impI)
  fix v s assume v: "v_locals v = L \<and> v_returns v = R \<and> vabs v s"
  show "case Option.bind (f s) g of
      None \<Rightarrow> fst (seq m (\<lambda>_. n) v) = Inl ValidationException
    | Some s' \<Rightarrow> fst (seq m (\<lambda>_. n) v) = Inr () \<and> same_context v (snd (seq m (\<lambda>_. n) v)) \<and>
        vabs (snd (seq m (\<lambda>_. n) v)) s'"
  proof (cases "f s")
    case None
    then obtain v' where "m v = (Inl ValidationException, v')"
      using refines_NoneD [OF m] v by blast
    with None show ?thesis by (simp add: seq_run_Inl)
  next
    case (Some s1)
    then obtain v1 where v1: "m v = (Inr (), v1)" "v_locals v1 = L" "v_returns v1 = R" "vabs v1 s1"
      using refines_SomeD [OF m] v by blast
    show ?thesis
    proof (cases "g s1")
      case None
      then obtain v2 where "n v1 = (Inl ValidationException, v2)"
        using refines_NoneD [OF n] v1 by blast
      with None Some v1 show ?thesis by (simp add: seq_run_Inr)
    next
      case (Some s2)
      then obtain v2 where "n v1 = (Inr (), v2)" "v_locals v2 = L" "v_returns v2 = R" "vabs v2 s2"
        using refines_SomeD [OF n] v1 by blast
      with Some \<open>f s = Some s1\<close> v1 v show ?thesis
        by (simp add: seq_run_Inr same_context_def)
    qed
  qed
qed

lemma refines_pop: "refines L R (pop (Known t)) (abs_pop t)"
  unfolding refines_def
proof (intro allI impI)
  fix v s assume v: "v_locals v = L \<and> v_returns v = R \<and> vabs v s"
  obtain u st where s: "s = (u, st)" by fastforce
  show "case abs_pop t s of
      None \<Rightarrow> fst (pop (Known t) v) = Inl ValidationException
    | Some s' \<Rightarrow> fst (pop (Known t) v) = Inr () \<and> same_context v (snd (pop (Known t) v)) \<and>
        vabs (snd (pop (Known t) v)) s'"
    using v unfolding s
    by (cases st) (auto simp: vabs_def pop_def pop_actual_def same_context_def Let_def)
qed

lemma refines_push: "refines L R (push (Known t)) (\<lambda>(u, st). Some (u, t # st))"
  by (auto simp: refines_def push_def vabs_def same_context_def Let_def split: prod.splits)

lemma refines_assert_local:
  "refines L R (assert_local i t) (\<lambda>s. if i < length L \<and> L ! i = t then Some s else None)"
  by (auto simp: refines_def assert_local_def same_context_def)

lemma refines_assert_empty: "refines L R assert_empty abs_empty"
  by (auto simp: refines_def assert_empty_def abs_empty_def same_context_def vabs_def)

lemma refines_pops: "refines L R (for_each (\<lambda>vt. pop (Known vt)) ts) (abs_pops ts)"
proof (induction ts)
  case Nil
  show ?case unfolding for_each.simps abs_pops.simps(1) by (rule refines_ret)
next
  case (Cons t ts)
  show ?case unfolding for_each.simps abs_pops.simps(2)
    by (rule refines_seq [OF refines_pop Cons.IH])
qed

lemma refines_pop_returns: "refines L R pop_returns (abs_pops R)"
  using refines_pops [of L R R] unfolding refines_def pop_returns_def by auto

lemma refines_mark: "refines L R (modify (\<lambda>v. v\<lparr>v_unreachable := True\<rparr>)) (\<lambda>(u, st). Some (True, st))"
  by (auto simp: refines_def vabs_def same_context_def)

lemma refines_cong: "refines L R m f \<Longrightarrow> (\<And>s. f s = g s) \<Longrightarrow> refines L R m g"
  by (simp add: refines_def)

lemma refines_op: "refines L R (validate_op i) (abs_op L R i)"
proof (cases i)
  case (ConstI32 x)
  show ?thesis unfolding ConstI32 validate_op.simps
    by (rule refines_cong [OF refines_push]) auto
next
  case AddI32
  show ?thesis unfolding AddI32 validate_op.simps
    by (rule refines_cong [OF refines_seq [OF refines_pop refines_seq [OF refines_pop refines_push]]])
      (simp add: Option.bind_assoc)
next
  case (GetLocalI32 x)
  show ?thesis unfolding GetLocalI32 validate_op.simps
    by (rule refines_cong [OF refines_seq [OF refines_assert_local refines_push]]) auto
next
  case (SetLocalI32 x)
  show ?thesis unfolding SetLocalI32 validate_op.simps
    by (rule refines_cong [OF refines_seq [OF refines_pop refines_assert_local]]) simp
next
  case Return
  show ?thesis unfolding Return validate_op.simps
    by (rule refines_cong [OF refines_seq [OF refines_pop_returns
            refines_seq [OF refines_assert_empty refines_mark]]]) simp
qed (simp_all only: validate_op.simps abs_op.simps refines_cong [OF refines_ret])

lemma refines_ops: "refines L R (for_each validate_op is) (abs_ops L R is)"
proof (induction "is")
  case Nil
  show ?case unfolding for_each.simps abs_ops.simps(1) by (rule refines_ret)
next
  case (Cons i "is")
  show ?case unfolding for_each.simps abs_ops.simps(2)
    by (rule refines_seq [OF refines_op Cons.IH])
qed

lemma refines_validate: "refines L R (validate is) (abs_validate L R is)"
  unfolding validate_def abs_validate_def finalize_def
  by (rule refines_seq [OF refines_ops refines_seq [OF refines_pop_returns refines_assert_empty]])

lemma vabs_new [simp]: "vabs (new_validator ft ls) (False, [])"
  by (simp add: vabs_def new_validator_def)

lemma new_validator_context [simp]:
  "v_locals (new_validator ft ls) = parameter_types ft @ ls"
  "v_returns (new_validator ft ls) = result_types ft"
  by (simp_all add: new_validator_def)

lemma validate_decides:
  "(abs_validate (parameter_types ft @ ls) (result_types ft) is (False, []) = None \<longrightarrow>
      (\<exists>v. validate is (new_validator ft ls) = (Inl ValidationException, v))) \<and>
   (\<forall>s. abs_validate (parameter_types ft @ ls) (result_types ft) is (False, []) = Some s \<longrightarrow>
      (\<exists>v. validate is (new_validator ft ls) = (Inr (), v) \<and> vabs v s))"
proof (intro conjI impI allI)
  assume None: "abs_validate (parameter_types ft @ ls) (result_types ft) is (False, []) = None"
  show "\<exists>v. validate is (new_validator ft ls) = (Inl ValidationException, v)"
    by (rule refines_NoneD [OF refines_validate new_validator_context vabs_new None])
next
  fix s
  assume Some: "abs_validate (parameter_types ft @ ls) (result_types ft) is (False, []) = Some s"
  obtain v where "validate is (new_validator ft ls) = (Inr (), v)" and "vabs v s"
    by (rule refines_SomeD [OF refines_validate new_validator_context vabs_new Some])
  then show "\<exists>v. validate is (new_validator ft ls) = (Inr (), v) \<and> vabs v s" by blast
qed

lemma validate_accepts:
  assumes "abs_validate (parameter_types ft @ ls) (result_types ft) is (False, []) \<noteq> None"
  obtains v where "validate is (new_validator ft ls) = (Inr (), v)"
  using assms validate_decides [of ft ls "is"] by fastforce

text \<open>C7: the validator implements its contract. On a freshly built validator it accepts exactly
  the bodies that the abstract validator accepts, with the same final state, and every
  rejection is a \<open>ValidationException\<close>.\<close>

theorem validate_refines:
  "case abs_validate (parameter_types ft @ ls) (result_types ft) is (False, []) of
     None \<Rightarrow> \<exists>v. validate is (new_validator ft ls) = (Inl ValidationException, v)
   | Some s \<Rightarrow> \<exists>v. validate is (new_validator ft ls) = (Inr (), v) \<and> vabs v s"
  using validate_decides [of ft ls "is"] by (simp split: option.split)

end
