(* ===== verification/Printing.thy ===== *)
theory Printing
  imports Validator
begin

text \<open>
  The texts that the program makes of its data: operator<< of a \<open>Value\<close> (core/value.cc) and of a
  \<open>ValidationType\<close> (parser/validator.cc), and the labels of \<open>MakeLabelId\<close> (core/instruction.cc).
  Different data have different texts, so that nothing is confused in a label or a log.
\<close>

section \<open>Numbers\<close>

text \<open>What \<open>std::ostream\<close> and the conversion \<open>%d\<close> write for a number: its digits, the most significant
  one first.\<close>

fun digits :: "nat \<Rightarrow> nat \<Rightarrow> nat list" where
  "digits b n = (if n < b \<or> b < 2 then [n] else digits b (n div b) @ [n mod b])"

declare digits.simps [simp del]

definition number :: "nat \<Rightarrow> nat list \<Rightarrow> nat" where
  "number b = foldl (\<lambda>a d. a * b + d) 0"

lemma number_digits: "number b (digits b n) = n"
proof (induction b n rule: digits.induct)
  case (1 b n)
  then show ?case by (subst digits.simps) (simp add: number_def)
qed

lemma digits_less: "2 \<le> b \<Longrightarrow> d \<in> set (digits b n) \<Longrightarrow> d < b"
proof (induction b n rule: digits.induct)
  case (1 b n)
  then show ?case by (subst (asm) (2) digits.simps) (auto split: if_splits)
qed

definition hex_digit :: "nat \<Rightarrow> char" where
  "hex_digit d = ''0123456789ABCDEF'' ! d"

lemma hex_digit_all: "list_all (\<lambda>d. list_all (\<lambda>e. hex_digit d = hex_digit e \<longleftrightarrow> d = e) [0..<16]) [0..<16]"
  by code_simp

lemma hex_digit_inj: "inj_on hex_digit {..<16}"
  using hex_digit_all by (auto simp: inj_on_def list_all_iff)

definition print_digits :: "nat \<Rightarrow> nat \<Rightarrow> string" where
  "print_digits b n = map hex_digit (digits b n)"

lemma print_digits_inj:
  assumes "2 \<le> b" and "b \<le> 16" and "print_digits b n = print_digits b m"
  shows "n = m"
proof -
  have "set (digits b n) \<subseteq> {..<16}" "set (digits b m) \<subseteq> {..<16}"
    using digits_less [OF assms(1)] assms(2) by fastforce+
  then have "digits b n = digits b m"
    using assms(3) inj_on_map_eq_map [OF inj_on_subset [OF hex_digit_inj]] unfolding print_digits_def
    by (metis Un_subset_iff)
  then show ?thesis by (metis number_digits)
qed

text \<open>A decimal number, with its sign.\<close>

definition print_int :: "int \<Rightarrow> string" where
  "print_int i = (if i < 0 then CHR ''-'' # print_digits 10 (nat (- i)) else print_digits 10 (nat i))"

lemma digit_chars: "d < 10 \<Longrightarrow> hex_digit d \<in> set ''0123456789''"
proof -
  have "list_all (\<lambda>d. hex_digit d \<in> set ''0123456789'') [0..<10]" by code_simp
  then show "d < 10 \<Longrightarrow> hex_digit d \<in> set ''0123456789''" by (simp add: list_all_iff)
qed

lemma print_decimal_chars: "set (print_digits 10 n) \<subseteq> set ''0123456789''"
  using digits_less [of 10] digit_chars by (fastforce simp: print_digits_def)

lemma print_digits_nonempty: "print_digits b n \<noteq> []"
  by (subst print_digits_def, subst digits.simps) simp

lemma no_minus: "CHR ''-'' # xs \<noteq> print_digits 10 n"
proof
  assume "CHR ''-'' # xs = print_digits 10 n"
  then have "CHR ''-'' \<in> set (print_digits 10 n)" by (metis list.set_intros(1))
  then show False using print_decimal_chars [of n] by auto
qed

lemma print_int_inj [simp]: "print_int i = print_int j \<longleftrightarrow> i = j"
proof
  assume eq: "print_int i = print_int j"
  have 1: "nat a = nat b \<Longrightarrow> 0 \<le> a \<Longrightarrow> 0 \<le> b \<Longrightarrow> a = b" for a b :: int by simp
  show "i = j"
    using eq no_minus no_minus [symmetric] print_digits_inj [of 10 "nat (- i)" "nat (- j)"]
      print_digits_inj [of 10 "nat i" "nat j"] 1 [of i j] 1 [of "- i" "- j"]
    by (auto simp: print_int_def split: if_splits)
qed simp

section \<open>Values\<close>

text \<open>\<open>std::hex\<close> writes the bits of a signed number, so negative numbers have sixteen digits.\<close>

definition print_value :: "wasm_value \<Rightarrow> string" where
  "print_value v = ''0x'' @ print_digits 16 (unat (as_I64 v))"

lemma print_value_inj: "print_value v = print_value w \<longleftrightarrow> v = w"
  using print_digits_inj [of 16 "unat (as_I64 v)" "unat (as_I64 w)"]
  by (cases v; cases w) (auto simp: print_value_def as_I64_def intro: unsigned_word_eqI)

section \<open>Validation types\<close>

fun print_validation_type :: "validation_type \<Rightarrow> string" where
  "print_validation_type (Known t) = print_val_type t"
| "print_validation_type AnyType = ''{any}''"
| "print_validation_type AnyRefType = ''{anyref}''"

lemma print_val_type_inj: "print_val_type a = print_val_type b \<longleftrightarrow> a = b"
  by (cases a; cases b) simp_all

lemma print_validation_type_inj: "print_validation_type a = print_validation_type b \<longleftrightarrow> a = b"
proof -
  have "print_val_type t \<noteq> ''{any}''" "print_val_type t \<noteq> ''{anyref}''" for t by (cases t; simp)+
  note this this [symmetric]
  then show ?thesis by (cases a; cases b) (simp_all add: print_val_type_inj)
qed

section \<open>Labels\<close>

text \<open>In the model a label is the pair of its name and number. The code has the text, which
  determines both: the number is what follows the last underscore.\<close>

fun label_text :: "label_id \<Rightarrow> string" where
  "label_text (MakeLabelId nm i) = nm @ ''_'' @ print_int i"

lemma print_int_underscore: "CHR ''_'' \<notin> set (print_int i)"
  using print_decimal_chars [of "nat i"] print_decimal_chars [of "nat (- i)"] by (auto simp: print_int_def)

lemma append_separated:
  assumes "xs @ z # ys = xs' @ z # ys'" and "z \<notin> set ys" and "z \<notin> set ys'"
  shows "xs = xs' \<and> ys = ys'"
  using assms by (induction xs arbitrary: xs') (auto simp: Cons_eq_append_conv append_eq_Cons_conv)

lemma label_text_inj: "label_text a = label_text b \<longleftrightarrow> a = b"
proof (cases a; cases b)
  fix nm i nm' i' assume "a = MakeLabelId nm i" "b = MakeLabelId nm' i'"
  then show ?thesis
    using append_separated [of nm "CHR ''_''" "print_int i" nm' "print_int i'"] print_int_underscore
    by auto
qed

end
