(* ===== verification/Byte_Stream.thy ===== *)
theory Byte_Stream
  imports Prelude
begin

text \<open>
  The byte streams of base/stream.h and base/stream.cc. \<open>byte_source\<close> is the contract of the
  abstract class \<open>Stream\<close>, as far as its clients rely on \<open>ReadByte\<close>; \<open>byte_stream\<close> models
  \<open>ByteStream\<close>, the implementation over a vector of bytes.
\<close>

section \<open>The Stream interface\<close>

text \<open>
  \<open>rest\<close> is what is left to read and \<open>advance n\<close> the stream after \<open>n\<close> more bytes.
\<close>

locale byte_source =
  fixes read :: "('s, u8) op"
    and rest :: "'s \<Rightarrow> u8 list"
    and advance :: "nat \<Rightarrow> 's \<Rightarrow> 's"
  assumes read_Nil: "rest s = [] \<Longrightarrow> read s = (Inl EndOfStreamException, s)"
    and read_Cons: "rest s = b # bs \<Longrightarrow> read s = (Inr b, advance (Suc 0) s)"
    and rest_advance: "rest (advance n s) = drop n (rest s)"
    and advance_0: "advance 0 s = s"
    and advance_advance: "advance m (advance n s) = advance (n + m) s"
begin

lemma advance_Suc: "advance n (advance (Suc 0) s) = advance (Suc n) s"
  by (simp add: advance_advance)

lemma rest_advance_Cons: "rest s = b # bs \<Longrightarrow> rest (advance (Suc 0) s) = bs"
  by (simp add: rest_advance)

lemma seq_read_Cons: "rest s = b # bs \<Longrightarrow> seq read f s = f b (advance (Suc 0) s)"
  by (simp add: seq_run_Inr [OF read_Cons])

lemma seq_read_Nil: "rest s = [] \<Longrightarrow> seq read f s = (Inl EndOfStreamException, s)"
  by (simp add: seq_run_Inl [OF read_Nil])

end

section \<open>ByteStream\<close>

record byte_stream =
  buffer :: "u8 list"
  position :: nat

definition new_byte_stream :: "u8 list \<Rightarrow> byte_stream" where
  "new_byte_stream b = \<lparr>buffer = b, position = 0\<rparr>"

definition has_remaining :: "byte_stream \<Rightarrow> bool" where
  "has_remaining s \<longleftrightarrow> position s < length (buffer s)"

definition bytes_consumed :: "byte_stream \<Rightarrow> nat" where
  "bytes_consumed s = position s"

definition read_byte :: "(byte_stream, u8) op" where
  "read_byte s =
     (if \<not> has_remaining s then (Inl EndOfStreamException, s)
      else (Inr (buffer s ! position s), s\<lparr>position := position s + 1\<rparr>))"

definition peek_byte :: "(byte_stream, u8) op" where
  "peek_byte s =
     (if \<not> has_remaining s then (Inl EndOfStreamException, s)
      else (Inr (buffer s ! position s), s))"

text \<open>
  \<open>int32_t(n)\<close> on a \<open>size_t\<close> keeps the low 32 bits and reads them as signed.
\<close>

definition int32_of_size :: "nat \<Rightarrow> int" where
  "int32_of_size n = sint (of_nat n :: u32)"

text \<open>
  \<open>ReadBytes\<close> builds its result from two iterators computed with \<open>int32_t\<close> casts; a range
  that does not lie inside the buffer is undefined behaviour.
\<close>

definition read_bytes :: "nat \<Rightarrow> (byte_stream, u8 list) op" where
  "read_bytes n s =
     (let remainder = length (buffer s) - position s in
      if remainder < n then (Inl EndOfStreamException, s)
      else
        (let start = int32_of_size (position s);
             fin = start + int32_of_size n
         in if 0 \<le> start \<and> start \<le> fin \<and> fin \<le> int (length (buffer s))
            then (Inr (take (nat (fin - start)) (drop (nat start) (buffer s))),
                  s\<lparr>position := position s + n\<rparr>)
            else (Inl (UndefinedBehaviour ''ReadBytes iterator range''), s)))"

definition skip :: "nat \<Rightarrow> (byte_stream, unit) op" where
  "skip n s =
     (let remainder = length (buffer s) - position s in
      if remainder < n then (Inl EndOfStreamException, s)
      else (Inr (), s\<lparr>position := position s + n\<rparr>))"

section \<open>The stream as a list of remaining bytes\<close>

definition remaining :: "byte_stream \<Rightarrow> u8 list" where
  "remaining s = drop (position s) (buffer s)"

definition advance :: "nat \<Rightarrow> byte_stream \<Rightarrow> byte_stream" where
  "advance n s = s\<lparr>position := position s + n\<rparr>"

text \<open>Well-formed streams: the position is inside a buffer that \<open>int32_t\<close> can index.\<close>

definition stream_ok :: "byte_stream \<Rightarrow> bool" where
  "stream_ok s \<longleftrightarrow> position s \<le> length (buffer s) \<and> length (buffer s) < 2 ^ 31"

lemma remaining_advance [simp]: "remaining (advance n s) = drop n (remaining s)"
  by (simp add: remaining_def advance_def add.commute)

lemma advance_0 [simp]: "advance 0 s = s"
  by (simp add: advance_def)

lemma advance_advance [simp]: "advance m (advance n s) = advance (n + m) s"
  by (simp add: advance_def add.assoc)

lemma buffer_advance [simp]: "buffer (advance n s) = buffer s"
  by (simp add: advance_def)

lemma position_advance [simp]: "position (advance n s) = position s + n"
  by (simp add: advance_def)

lemma remaining_new [simp]: "remaining (new_byte_stream b) = b"
  by (simp add: remaining_def new_byte_stream_def)

lemma length_remaining: "length (remaining s) = length (buffer s) - position s"
  by (simp add: remaining_def)

lemma has_remaining_iff: "has_remaining s \<longleftrightarrow> remaining s \<noteq> []"
  by (auto simp: has_remaining_def remaining_def)

lemma stream_ok_advance [simp]:
  "stream_ok s \<Longrightarrow> n \<le> length (remaining s) \<Longrightarrow> stream_ok (advance n s)"
  by (auto simp: stream_ok_def length_remaining)

lemma stream_ok_new [simp]: "length b < 2 ^ 31 \<Longrightarrow> stream_ok (new_byte_stream b)"
  by (simp add: stream_ok_def new_byte_stream_def)

lemma remaining_hd: "has_remaining s \<Longrightarrow> buffer s ! position s = hd (remaining s)"
  by (simp add: has_remaining_def remaining_def hd_drop_conv_nth)

lemma read_byte_run:
  "read_byte s = (case remaining s of [] \<Rightarrow> (Inl EndOfStreamException, s)
                   | b # _ \<Rightarrow> (Inr b, advance (Suc 0) s))"
  by (auto simp: read_byte_def has_remaining_iff advance_def remaining_hd neq_Nil_conv
      split: list.splits)

lemma peek_byte_run:
  "peek_byte s = (case remaining s of [] \<Rightarrow> (Inl EndOfStreamException, s)
                   | b # _ \<Rightarrow> (Inr b, s))"
  by (auto simp: peek_byte_def has_remaining_iff remaining_hd neq_Nil_conv split: list.splits)

lemma skip_run:
  "skip n s = (if length (remaining s) < n then (Inl EndOfStreamException, s)
               else (Inr (), advance n s))"
  by (simp add: skip_def advance_def length_remaining)

lemma read_bytes_run:
  assumes "stream_ok s"
  shows "read_bytes n s =
           (if length (remaining s) < n then (Inl EndOfStreamException, s)
            else (Inr (take n (remaining s)), advance n s))"
proof (cases "length (remaining s) < n")
  case True
  then show ?thesis by (simp add: read_bytes_def length_remaining)
next
  case False
  with assms have "int32_of_size (position s) = int (position s)"
    and "int32_of_size n = int n"
    by (auto simp: int32_of_size_def stream_ok_def length_remaining intro!: sint_of_nat_i32)
  with False assms show ?thesis
    by (auto simp: read_bytes_def length_remaining remaining_def advance_def stream_ok_def Let_def)
qed

interpretation byte_stream: byte_source read_byte remaining advance
  by unfold_locales (auto simp: read_byte_run)

section \<open>Parsers that accept an encoding\<close>

text \<open>
  \<open>parses m bs x\<close>: on any well-formed stream that starts with \<open>bs\<close>, \<open>m\<close> returns \<open>x\<close>
  and consumes exactly \<open>bs\<close>.
\<close>

definition parses :: "(byte_stream, 'a) op \<Rightarrow> u8 list \<Rightarrow> 'a \<Rightarrow> bool" where
  "parses m bs x \<longleftrightarrow>
     (\<forall>s ts. stream_ok s \<and> remaining s = bs @ ts \<longrightarrow> m s = (Inr x, advance (length bs) s))"

lemma parsesI:
  assumes "\<And>s ts. stream_ok s \<Longrightarrow> remaining s = bs @ ts \<Longrightarrow> m s = (Inr x, advance (length bs) s)"
  shows "parses m bs x"
  using assms by (auto simp: parses_def)

lemma parsesD:
  "parses m bs x \<Longrightarrow> stream_ok s \<Longrightarrow> remaining s = bs @ ts \<Longrightarrow> m s = (Inr x, advance (length bs) s)"
  by (auto simp: parses_def)

lemma parses_ret [parses_rules]: "parses (ret x) [] x"
  by (rule parsesI) simp

lemma parses_seq [parses_rules]:
  assumes m: "parses m bs x" and f: "parses (f x) cs y"
  shows "parses (seq m f) (bs @ cs) y"
proof (rule parsesI)
  fix s ts assume s: "stream_ok s" "remaining s = (bs @ cs) @ ts"
  then have 1: "m s = (Inr x, advance (length bs) s)"
    by (auto intro: parsesD [OF m])
  have "f x (advance (length bs) s) = (Inr y, advance (length cs) (advance (length bs) s))"
    by (rule parsesD [OF f, where ts = ts]) (use s in auto)
  with 1 show "seq m f s = (Inr y, advance (length (bs @ cs)) s)"
    by (simp add: seq_run_Inr)
qed

lemma parses_read_byte [parses_rules]: "parses read_byte [b] b"
  by (rule parsesI) (simp add: read_byte_run)

lemma parses_read_bytes [parses_rules]:
  "n = length bs \<Longrightarrow> parses (read_bytes n) bs bs"
  by (rule parsesI) (simp add: read_bytes_run)

lemma parses_skip [parses_rules]: "n = length bs \<Longrightarrow> parses (skip n) bs ()"
  by (rule parsesI) (simp add: skip_run)

lemma parses_if [parses_rules]:
  assumes "b \<Longrightarrow> parses m bs x" and "\<not> b \<Longrightarrow> parses m' bs x"
  shows "parses (if b then m else m') bs x"
  using assms by simp

text \<open>
  A codec is a parser with an encoder that it inverts; the vectors of the WebAssembly binary
  format repeat one.
\<close>

locale codec =
  fixes enc :: "'a \<Rightarrow> u8 list"
    and parse :: "(byte_stream, 'a) op"
    and valid :: "'a \<Rightarrow> bool"
  assumes parse_enc: "valid x \<Longrightarrow> parses parse (enc x) x"
begin

lemma parse_many:
  "list_all valid xs \<Longrightarrow> parses (collect_op (length xs) parse) (concat (map enc xs)) xs"
proof (induction xs)
  case Nil
  show ?case unfolding collect_op.simps list.size list.map concat.simps by (rule parses_ret)
next
  case (Cons x xs)
  have "parses (seq parse (\<lambda>y. seq (collect_op (length xs) parse) (\<lambda>ys. ret (y # ys))))
      (enc x @ (concat (map enc xs) @ [])) (x # xs)"
    by (rule parses_seq, rule parse_enc)
      (use Cons in \<open>auto intro!: parses_seq [where x = xs] parses_ret simp del: append_Nil2\<close>)
  then show ?case by simp
qed

end

section \<open>Streams only move forward\<close>

text \<open>
  What every stream operation keeps, also when it throws: the buffer is unchanged and the
  position never decreases and never leaves the buffer.
\<close>

definition moves :: "byte_stream \<Rightarrow> byte_stream \<Rightarrow> bool" where
  "moves s s' \<longleftrightarrow>
     buffer s' = buffer s \<and> position s \<le> position s' \<and> (stream_ok s \<longrightarrow> stream_ok s')"

text \<open>Operations that, when they return, have read at least one byte.\<close>

definition progress :: "(byte_stream, 'a) op \<Rightarrow> bool" where
  "progress m \<longleftrightarrow> (\<forall>s x s'. m s = (Inr x, s') \<longrightarrow> position s < position s')"

abbreviation forward :: "(byte_stream, 'a) op \<Rightarrow> bool" where
  "forward \<equiv> keeps moves"

interpretation moves: frame moves
  by unfold_locales (auto simp: moves_def)

text \<open>The same for a stream that is one half of a state.\<close>

definition moves_fst :: "byte_stream \<times> 't \<Rightarrow> byte_stream \<times> 't \<Rightarrow> bool" where
  "moves_fst p q \<longleftrightarrow> moves (fst p) (fst q)"

definition moves_snd :: "'t \<times> byte_stream \<Rightarrow> 't \<times> byte_stream \<Rightarrow> bool" where
  "moves_snd p q \<longleftrightarrow> moves (snd p) (snd q)"

abbreviation forward_fst :: "(byte_stream \<times> 't, 'a) op \<Rightarrow> bool" where
  "forward_fst \<equiv> keeps moves_fst"

abbreviation forward_snd :: "('t \<times> byte_stream, 'a) op \<Rightarrow> bool" where
  "forward_snd \<equiv> keeps moves_snd"

interpretation moves_fst: frame moves_fst
  by unfold_locales (auto simp: moves_fst_def moves_def)

interpretation moves_snd: frame moves_snd
  by unfold_locales (auto simp: moves_snd_def moves_def)

lemma forward_on_fst: "forward m \<Longrightarrow> forward_fst (on_fst m)"
  by (erule keeps_on_fst) (simp add: moves_fst_def)

lemma forward_other_fst: "forward_fst (on_snd m)"
  by (rule keepsI) (auto simp: on_snd_def moves_fst_def moves_def split: prod.splits)

lemma forward_on_snd: "forward m \<Longrightarrow> forward_snd (on_snd m)"
  by (erule keeps_on_snd) (simp add: moves_snd_def)

lemma forward_other_snd: "forward_snd (on_fst m)"
  by (rule keepsI) (auto simp: on_fst_def moves_snd_def moves_def split: prod.splits)

lemma moves_advance [simp]: "n \<le> length (remaining s) \<Longrightarrow> moves s (advance n s)"
  by (simp add: moves_def)

lemma moves_refl [simp]: "moves s s"
  by (rule moves.R_refl)

lemma forward_read_byte [intro, simp]: "forward read_byte"
  by (rule keepsI) (auto simp: read_byte_run split: list.splits)

lemma forward_peek_byte [intro, simp]: "forward peek_byte"
  by (rule keepsI) (auto simp: peek_byte_run split: list.splits)

lemma forward_read_bytes [intro, simp]: "forward (read_bytes n)"
  by (rule keepsI) (auto simp: moves_def read_bytes_def stream_ok_def Let_def split: if_splits)

lemma forward_skip [intro, simp]: "forward (skip n)"
  by (rule keepsI) (auto simp: skip_run split: if_splits)

lemma progress_read_byte [intro]: "progress read_byte"
  by (auto simp: progress_def read_byte_run split: list.splits)

lemma progress_seq_left:
  assumes "progress m" and f: "\<And>x. forward (f x)"
  shows "progress (seq m f)"
  unfolding progress_def
proof (intro allI impI)
  fix s y u assume "seq m f s = (Inr y, u)"
  then obtain x t where t: "m s = (Inr x, t)" and u: "f x t = (Inr y, u)" by blast
  from t assms(1) have "position s < position t" by (simp add: progress_def)
  moreover have "position t \<le> position u" using keepsD [OF f u] by (simp add: moves_def)
  ultimately show "position s < position u" by simp
qed

lemma progress_seq_right:
  assumes m: "forward m" and "\<And>x. progress (f x)"
  shows "progress (seq m f)"
  unfolding progress_def
proof (intro allI impI)
  fix s y u assume "seq m f s = (Inr y, u)"
  then obtain x t where t: "m s = (Inr x, t)" and u: "f x t = (Inr y, u)" by blast
  have "position s \<le> position t" using keepsD [OF m t] by (simp add: moves_def)
  moreover from u assms(2) [of x] have "position t < position u" by (simp add: progress_def)
  ultimately show "position s < position u" by simp
qed

end
