(* ===== verification/Leb128.thy ===== *)
theory Leb128
  imports Byte_Stream
begin

text \<open>
  The LEB128 codec of leb128/leb128.h. \<open>Encode\<close> and \<open>Decode\<close> are templates over the integer
  type. Unsigned values and all results of \<open>Decode\<close> are words, polymorphic in their width;
  the signed \<open>Encode\<close> only ever shifts its argument to the right, which cannot overflow, so it
  works on the \<open>int\<close> that the signed integer denotes. \<open>Decode\<close> takes the stream's
  \<open>ReadByte\<close> as an argument, as it takes a \<open>Stream*\<close>.
\<close>

section \<open>Encode\<close>

lemma unat_drop_bit_7: "unat (drop_bit 7 v) = unat v div 128"
  by (simp only: unat_drop_bit_eq) (simp add: drop_bit_eq_div)

function encode_unsigned :: "'a::len word \<Rightarrow> u8 list" where
  "encode_unsigned v =
     (let byte = ucast (v AND 0x7F) :: u8;
          v' = drop_bit 7 v
      in if v' \<noteq> 0 then (byte OR 0x80) # encode_unsigned v' else [byte])"
  by pat_completeness auto
termination
proof (relation "measure unat")
  fix v v' :: "'a word"
  assume v': "v' = drop_bit 7 v" and "v' \<noteq> 0"
  then have "unat v div 128 \<noteq> 0"
    by (metis unat_0_iff unat_drop_bit_7)
  then have "unat v div 128 < unat v" by simp
  then show "(v', v) \<in> measure unat"
    by (simp add: v' unat_drop_bit_7)
qed simp

text \<open>The loop of the signed instantiation: it runs while \<open>more\<close> is set.\<close>

lemma byte_of_minus_1: "(word_of_int ((-1) AND 0x7F) :: u8) AND 0x40 \<noteq> 0"
  by simp

function encode_signed :: "int \<Rightarrow> u8 list" where
  "encode_signed v =
     (let byte = word_of_int (v AND 0x7F) :: u8;
          v' = drop_bit 7 v
      in if (v' = 0 \<and> byte AND 0x40 = 0) \<or> (v' = -1 \<and> byte AND 0x40 \<noteq> 0)
         then [byte] else (byte OR 0x80) # encode_signed v')"
  by pat_completeness auto
termination
proof (relation "measure (\<lambda>v. nat \<bar>2 * v + 1\<bar>)")
  fix v v' :: int and byte :: u8
  assume b: "byte = word_of_int (v AND 0x7F)" and v': "v' = drop_bit 7 v"
    and more: "\<not> (v' = 0 \<and> byte AND 0x40 = 0 \<or> v' = -1 \<and> byte AND 0x40 \<noteq> 0)"
  have "v \<noteq> 0" using b v' more by auto
  moreover have "v \<noteq> -1" using b v' more byte_of_minus_1 by auto
  ultimately consider "1 \<le> v" | "v \<le> -2" by linarith
  then have "\<bar>2 * (v div 128) + 1\<bar> < \<bar>2 * v + 1\<bar>"
  proof cases
    case 1
    then have "0 \<le> v div 128" and "v div 128 < v" by simp_all
    then show ?thesis by simp
  next
    case 2
    then have "v div 128 \<le> -1" and "v < v div 128" by simp_all
    then show ?thesis by simp
  qed
  then show "(v', v) \<in> measure (\<lambda>v. nat \<bar>2 * v + 1\<bar>)"
    by (simp add: v' drop_bit_eq_div)
qed simp

declare encode_unsigned.simps [simp del] encode_signed.simps [simp del]

section \<open>Decode\<close>

text \<open>\<open>byte & continuation_bit_mask\<close>, as a test.\<close>

definition has_more :: "u8 \<Rightarrow> bool" where
  "has_more byte \<longleftrightarrow> byte AND 0x80 \<noteq> 0"

function decode_loop ::
    "('s, u8) op \<Rightarrow> nat \<Rightarrow> 'a::len word \<Rightarrow> u8 \<Rightarrow> ('s, 'a word \<times> nat \<times> u8) op" where
  "decode_loop read shift result byte =
     (if shift < LENGTH('a) \<and> has_more byte
      then seq read (\<lambda>byte.
             decode_loop read (shift + 7) (result OR push_bit shift (ucast (byte AND 0x7F))) byte)
      else ret (result, shift, byte))"
  by pat_completeness auto
termination
  by (relation "measure (\<lambda>(read, shift, result, byte). size result - shift)")
     (auto simp: word_size)

definition decode_unsigned :: "('s, u8) op \<Rightarrow> ('s, 'a::len word) op" where
  "decode_unsigned read =
     seq (decode_loop read 0 0 0x80) (\<lambda>(result, shift, byte).
       if has_more byte then throw DecodeException else ret result)"

definition decode_signed :: "('s, u8) op \<Rightarrow> ('s, 'a::len word) op" where
  "decode_signed read =
     seq (decode_loop read 0 0 0x80) (\<lambda>(result, shift, byte).
       if has_more byte then throw DecodeException
       else if shift < LENGTH('a) \<and> byte AND 0x40 \<noteq> 0
       then ret (result OR push_bit shift (NOT 0))
       else ret result)"

declare decode_loop.simps [simp del]


section \<open>The number that a group of bytes denotes\<close>

definition low7 :: "u8 \<Rightarrow> nat" where
  "low7 byte = unat (byte AND 0x7F)"

fun leb_sum :: "u8 list \<Rightarrow> nat" where
  "leb_sum [] = 0"
| "leb_sum (b # bs) = low7 b + 128 * leb_sum bs"

text \<open>The signed reading: bit 6 of the last byte is the sign.\<close>

definition leb_signed :: "u8 list \<Rightarrow> int" where
  "leb_signed bs =
     int (leb_sum bs) - (if last bs AND 0x40 \<noteq> 0 then 2 ^ (7 * length bs) else 0)"

text \<open>
  What a decoder that may read \<open>n\<close> bytes makes of its input: the group up to the first byte
  without a continuation bit, or an exception.
\<close>

fun leb_scan :: "nat \<Rightarrow> u8 list \<Rightarrow> exn + u8 list" where
  "leb_scan 0 bs = Inl DecodeException"
| "leb_scan (Suc n) [] = Inl EndOfStreamException"
| "leb_scan (Suc n) (b # bs) =
     (if has_more b
      then (case leb_scan n bs of Inl e \<Rightarrow> Inl e | Inr cs \<Rightarrow> Inr (b # cs))
      else Inr [b])"

text \<open>The number of bytes that the loop of \<open>Decode\<close> can read: 5 for 32 bits, 10 for 64.\<close>

definition leb_max :: "nat \<Rightarrow> nat" where
  "leb_max w = (w + 6) div 7"

lemma leb_max_values [simp]: "leb_max 32 = 5" "leb_max 64 = 10"
  by (simp_all add: leb_max_def)

lemma low7_less: "low7 b < 128"
proof -
  have "b AND 0x7F \<le> 0x7F" by (rule word_and_le1)
  then show ?thesis by (simp add: low7_def word_le_nat_alt)
qed

lemma leb_sum_less: "leb_sum bs < 128 ^ length bs"
proof (induction bs)
  case (Cons b bs)
  with low7_less [of b] show ?case by (simp add: algebra_simps)
qed simp

lemma leb_scan_not_Nil [simp]: "leb_scan n bs \<noteq> Inr []"
  by (cases "(n, bs)" rule: leb_scan.cases) (auto split: sum.splits)

lemma leb_scan_length: "leb_scan n bs = Inr cs \<Longrightarrow> length cs \<le> n \<and> length cs \<le> length bs"
  by (induction n bs arbitrary: cs rule: leb_scan.induct) (auto split: if_splits sum.splits)

lemma leb_scan_prefix: "leb_scan n bs = Inr cs \<Longrightarrow> bs = cs @ drop (length cs) bs"
  by (induction n bs arbitrary: cs rule: leb_scan.induct) (auto split: if_splits sum.splits)

lemma leb_scan_last: "leb_scan n bs = Inr cs \<Longrightarrow> \<not> has_more (last cs)"
  by (induction n bs arbitrary: cs rule: leb_scan.induct) (auto split: if_splits sum.splits)

lemma small_nat_bit:
  fixes acc :: nat
  assumes "acc < 2 ^ k" and "bit acc n"
  shows "n < k"
proof (rule ccontr)
  assume "\<not> n < k"
  then have "acc < 2 ^ n" using assms(1)
    by (meson order_less_le_trans power_increasing one_le_numeral not_less)
  with assms(2) show False by (simp add: bit_iff_odd)
qed

lemma or_push_bit_of_nat:
  assumes "acc < 2 ^ k"
  shows "(of_nat acc :: 'a::len word) OR push_bit k (ucast (b AND (0x7F :: u8)))
         = of_nat (acc + 2 ^ k * low7 b)"
proof -
  let ?x = "ucast (b AND (0x7F :: u8)) :: 'a word"
  have "(of_nat acc :: 'a word) AND push_bit k ?x = 0"
    by (intro bit_eqI) (auto simp: bit_simps dest: small_nat_bit [OF assms])
  then have "(of_nat acc :: 'a word) OR push_bit k ?x = of_nat acc + push_bit k ?x"
    by (simp add: disjunctive_add_eq_or)
  moreover have "?x = of_nat (low7 b)"
    by (simp add: low7_def)
  ultimately show ?thesis
    by (simp only: push_bit_eq_mult) (simp add: mult.commute)
qed

lemma sign_extend:
  assumes "acc < 2 ^ k"
  shows "k < LENGTH('a) \<Longrightarrow>
      (of_nat acc :: 'a::len word) OR push_bit k (NOT 0) = of_int (int acc - 2 ^ k)"
    and "\<not> k < LENGTH('a) \<Longrightarrow> (of_nat acc :: 'a::len word) = of_int (int acc - 2 ^ k)"
proof -
  have "(of_nat acc :: 'a word) AND push_bit k (NOT 0) = 0"
    by (intro bit_eqI) (auto simp: bit_simps dest: small_nat_bit [OF assms])
  then have "(of_nat acc :: 'a word) OR push_bit k (NOT 0) = of_nat acc + push_bit k (NOT 0)"
    by (simp only: disjunctive_add_eq_or)
  then show "(of_nat acc :: 'a::len word) OR push_bit k (NOT 0) = of_int (int acc - 2 ^ k)"
    by (simp add: push_bit_eq_mult)
  show "(of_nat acc :: 'a::len word) = of_int (int acc - 2 ^ k)" if "\<not> k < LENGTH('a)"
  proof -
    from that have "(2 :: 'a word) ^ k = 0" by simp
    then show ?thesis by simp
  qed
qed

text \<open>The loop, followed by the test for a dangling continuation bit.\<close>

context byte_source begin

lemma decode_loop_run:
  fixes g :: "'a::len word \<Rightarrow> nat \<Rightarrow> u8 \<Rightarrow> ('s, 'b) op"
  assumes "has_more byte" and "acc < 2 ^ shift" and "n = leb_max (LENGTH('a) - shift)"
  shows "seq (decode_loop read shift (of_nat acc) byte)
           (\<lambda>(result, shift, byte). if has_more byte then throw DecodeException else g result shift byte) s
         = (case leb_scan n (rest s) of
              Inl e \<Rightarrow> (Inl e, advance (min n (length (rest s))) s)
            | Inr bs \<Rightarrow> g (of_nat (acc + 2 ^ shift * leb_sum bs)) (shift + 7 * length bs) (last bs)
                         (advance (length bs) s))"
  using assms
proof (induction n arbitrary: shift acc byte s)
  case 0
  then have "\<not> shift < LENGTH('a)" by (simp add: leb_max_def)
  with "0.prems"(1) show ?case
    by (subst decode_loop.simps) (simp add: advance_0)
next
  case (Suc n)
  then have shift: "shift < LENGTH('a)" and n: "n = leb_max (LENGTH('a) - (shift + 7))"
    by (auto simp: leb_max_def split: nat_diff_split)
  let ?k = "\<lambda>(result, shift, byte). if has_more byte then throw DecodeException
      else g result shift byte"
  have unroll: "seq (decode_loop read shift (of_nat acc) byte) ?k s =
      seq read (\<lambda>b. seq (decode_loop read (shift + 7) (of_nat (acc + 2 ^ shift * low7 b)) b) ?k) s"
    using Suc.prems(1,2) shift
    by (subst decode_loop.simps) (simp add: seq_assoc or_push_bit_of_nat)
  show ?case
  proof (cases "rest s")
    case Nil
    then show ?thesis unfolding unroll by (simp add: seq_read_Nil advance_0)
  next
    case (Cons b bs)
    let ?acc = "acc + 2 ^ shift * low7 b"
    have acc: "?acc < 2 ^ (shift + 7)"
    proof -
      have "acc + 2 ^ shift * low7 b < 2 ^ shift + 2 ^ shift * low7 b" using Suc.prems(2) by simp
      also have "\<dots> = 2 ^ shift * (low7 b + 1)" by simp
      also have "\<dots> \<le> 2 ^ shift * 128" using low7_less [of b] by (intro mult_le_mono) auto
      finally show ?thesis by (simp add: power_add)
    qed
    have step: "seq (decode_loop read shift (of_nat acc) byte) ?k s =
        seq (decode_loop read (shift + 7) (of_nat ?acc) b) ?k (advance (Suc 0) s)"
      unfolding unroll using Cons by (simp add: seq_read_Cons)
    show ?thesis
    proof (cases "has_more b")
      case True
      from Suc.IH [OF True acc n, of "advance (Suc 0) s"] show ?thesis
        unfolding step using Cons True
        by (auto simp: rest_advance_Cons advance_advance power_add algebra_simps
            split: sum.splits)
    next
      case False
      then show ?thesis unfolding step using Cons
        by (subst decode_loop.simps) (simp add: advance_advance)
    qed
  qed
qed

lemma decode_unsigned_run:
  "decode_unsigned read s =
     (case leb_scan (leb_max LENGTH('a)) (rest s) of
        Inl e \<Rightarrow> (Inl e, advance (min (leb_max LENGTH('a)) (length (rest s))) s)
      | Inr bs \<Rightarrow> (Inr (of_nat (leb_sum bs) :: 'a::len word), advance (length bs) s))"
  using decode_loop_run [where byte = "0x80" and acc = 0 and shift = 0 and s = s
      and g = "\<lambda>result _ _. ret (result :: 'a word)"]
  by (simp add: decode_unsigned_def has_more_def split: sum.split)

lemma decode_signed_run:
  "decode_signed read s =
     (case leb_scan (leb_max LENGTH('a)) (rest s) of
        Inl e \<Rightarrow> (Inl e, advance (min (leb_max LENGTH('a)) (length (rest s))) s)
      | Inr bs \<Rightarrow> (Inr (of_int (leb_signed bs) :: 'a::len word), advance (length bs) s))"
proof -
  let ?g = "\<lambda>(result :: 'a word) shift byte.
      if shift < LENGTH('a) \<and> byte AND (0x40 :: u8) \<noteq> 0 then ret (result OR push_bit shift (NOT 0))
      else ret result"
  have g: "?g (of_nat (leb_sum bs)) (7 * length bs) (last bs) t = (Inr (of_int (leb_signed bs)), t)"
    for bs and t :: 's
    using leb_sum_less [of bs] sign_extend [of "leb_sum bs" "7 * length bs", where 'a = 'a]
    by (simp add: leb_signed_def power_mult)
  have "decode_signed read s =
      (case leb_scan (leb_max LENGTH('a)) (rest s) of
         Inl e \<Rightarrow> (Inl e, advance (min (leb_max LENGTH('a)) (length (rest s))) s)
       | Inr bs \<Rightarrow> ?g (of_nat (leb_sum bs)) (7 * length bs) (last bs) (advance (length bs) s))"
    using decode_loop_run [where byte = "0x80" and acc = 0 and shift = 0 and s = s and g = ?g]
    by (simp add: decode_signed_def has_more_def split: sum.split)
  then show ?thesis by (simp only: g)
qed

end

section \<open>What Encode writes\<close>

text \<open>A group: every byte but the last has the continuation bit.\<close>

definition leb_group :: "u8 list \<Rightarrow> bool" where
  "leb_group bs \<longleftrightarrow> bs \<noteq> [] \<and> list_all has_more (butlast bs) \<and> \<not> has_more (last bs)"

lemma leb_scan_group:
  "leb_group bs \<Longrightarrow> length bs \<le> n \<Longrightarrow> leb_scan n (bs @ ts) = Inr bs"
proof (induction n bs rule: leb_scan.induct)
  case (3 n b bs)
  then show ?case by (cases bs) (auto simp: leb_group_def)
qed (auto simp: leb_group_def)

lemma leb_group_Cons: "leb_group bs \<Longrightarrow> has_more b \<Longrightarrow> leb_group (b # bs)"
  by (simp add: leb_group_def)

lemma leb_group_not_Nil: "leb_group bs \<Longrightarrow> bs \<noteq> []"
  by (simp add: leb_group_def)

lemma has_more_iff: "has_more b \<longleftrightarrow> 128 \<le> unat b"
proof -
  have "b AND 0x80 = b AND (2 ^ 7)" by simp
  then have "has_more b \<longleftrightarrow> bit b 7"
    unfolding has_more_def by (simp only: and_exp_eq_0_iff_not_bit) simp
  also have "\<dots> \<longleftrightarrow> odd (unat b div 128)"
    by (simp add: bit_iff_odd odd_iff_mod_2_eq_one unat_div unat_mod word_unat_eq_iff)
  also have "\<dots> \<longleftrightarrow> 128 \<le> unat b"
  proof -
    have "unat b < 256" using unsigned_less [of b] by simp
    then have "unat b div 128 = (if 128 \<le> unat b then 1 else 0)" by auto
    then show ?thesis by simp
  qed
  finally show ?thesis .
qed

lemma has_more_or [simp]: "has_more (b OR 0x80)"
proof -
  have "bit ((b OR 0x80) AND 0x80) 7" by (simp add: bit_simps)
  then show ?thesis unfolding has_more_def by (metis bit_0_eq bot_apply bot_bool_def)
qed

lemma low7_or [simp]: "low7 (b OR 0x80) = low7 b"
proof -
  have "(b OR 0x80) AND 0x7F = b AND (0x7F :: u8)"
    by (simp add: bit.conj_disj_distrib2)
  then show ?thesis by (simp add: low7_def)
qed

lemma and_7F: "v AND 0x7F = take_bit 7 (v :: 'a::len word)"
  by (simp only: take_bit_eq_mask) (simp add: mask_eq_exp_minus_1)

lemma low7_mod: "low7 b = unat b mod 128"
proof -
  have "low7 b = take_bit 7 (unat b)"
    by (simp only: low7_def and_7F unsigned_take_bit_eq)
  then show ?thesis
    by (simp add: take_bit_eq_mod)
qed

lemma unat_byte: "n < 128 \<Longrightarrow> unat (of_nat n :: u8) = n"
  by (simp add: unat_of_nat)

lemma unsigned_byte: "(ucast (v AND 0x7F) :: u8) = of_nat (unat v mod 128)"
proof -
  have "unat (v AND 0x7F) = take_bit 7 (unat v)"
    by (simp only: and_7F unsigned_take_bit_eq)
  then have "(of_nat (unat (v AND 0x7F)) :: u8) = of_nat (unat v mod 128)"
    by (simp add: take_bit_eq_mod)
  then show ?thesis by simp
qed

lemma signed_byte: "(word_of_int (v AND 0x7F) :: u8) = of_nat (nat (v mod 128))"
proof -
  have "v AND 0x7F = take_bit 7 v"
    by (simp only: take_bit_eq_mask) (simp add: mask_eq_exp_minus_1)
  then show ?thesis by (simp add: take_bit_eq_mod)
qed

lemma low7_byte [simp]: "n < 128 \<Longrightarrow> low7 (of_nat n) = n"
  by (simp add: low7_mod unat_byte)

lemma has_more_byte [simp]: "n < 128 \<Longrightarrow> \<not> has_more (of_nat n)"
  by (simp add: has_more_iff unat_byte)

lemma sign_byte: "n < 128 \<Longrightarrow> (of_nat n :: u8) AND 0x40 \<noteq> 0 \<longleftrightarrow> 64 \<le> n"
proof -
  assume n: "n < 128"
  have "(of_nat n :: u8) AND 0x40 = of_nat n AND (2 ^ 6)" by simp
  then have "(of_nat n :: u8) AND 0x40 \<noteq> 0 \<longleftrightarrow> bit (of_nat n :: u8) 6"
    by (simp only: and_exp_eq_0_iff_not_bit) simp
  also have "\<dots> \<longleftrightarrow> bit n 6"
    by (simp add: bit_of_nat_iff)
  also have "\<dots> \<longleftrightarrow> odd (n div 64)"
    by (simp add: bit_iff_odd)
  also have "\<dots> \<longleftrightarrow> 64 \<le> n"
  proof -
    have "n div 64 = (if 64 \<le> n then 1 else 0)" using n by auto
    then show ?thesis by simp
  qed
  finally show ?thesis .
qed

lemma encode_unsigned_unfold:
  "encode_unsigned v =
     (if drop_bit 7 v \<noteq> 0
      then (of_nat (unat v mod 128) OR 0x80) # encode_unsigned (drop_bit 7 v)
      else [of_nat (unat v mod 128)])"
  by (subst encode_unsigned.simps) (simp only: Let_def unsigned_byte)

lemma drop_bit_7_eq_0_iff: "drop_bit 7 v = 0 \<longleftrightarrow> unat v < 128"
  by (metis unat_0_iff unat_drop_bit_7 div_eq_0_iff zero_neq_numeral)

lemma leb_group_single: "\<not> has_more b \<Longrightarrow> leb_group [b]"
  by (simp add: leb_group_def)

lemma encode_unsigned_spec:
  "leb_group (encode_unsigned v) \<and> leb_sum (encode_unsigned v) = unat v"
proof (induction v rule: encode_unsigned.induct)
  case (1 v)
  let ?b = "of_nat (unat v mod 128) :: u8"
  have b: "low7 ?b = unat v mod 128" "\<not> has_more ?b"
    by (rule low7_byte has_more_byte, simp)+
  show ?case
  proof (cases "drop_bit 7 v = 0")
    case True
    then have "encode_unsigned v = [?b]"
      by (simp only: encode_unsigned_unfold [of v]) simp
    moreover have "unat v mod 128 = unat v"
      using True by (simp add: drop_bit_7_eq_0_iff)
    ultimately show ?thesis
      using b by (simp add: leb_group_single)
  next
    case False
    with 1 have "leb_group (encode_unsigned (drop_bit 7 v))"
      and "leb_sum (encode_unsigned (drop_bit 7 v)) = unat v div 128"
      by (simp_all add: unat_drop_bit_7 Let_def)
    moreover from False
    have "encode_unsigned v = (?b OR 0x80) # encode_unsigned (drop_bit 7 v)"
      by (simp only: encode_unsigned_unfold [of v]) simp
    ultimately show ?thesis
      by (simp add: leb_group_Cons b)
  qed
qed

lemma encode_unsigned_length:
  "unat v < 128 ^ Suc n \<Longrightarrow> length (encode_unsigned v) \<le> Suc n"
proof (induction n arbitrary: v)
  case 0
  then have "drop_bit 7 v = 0" by (simp add: drop_bit_7_eq_0_iff)
  then show ?case by (simp only: encode_unsigned_unfold [of v]) simp
next
  case (Suc n)
  then have "unat (drop_bit 7 v) < 128 ^ Suc n"
    by (simp add: unat_drop_bit_7 less_mult_imp_div_less mult.commute)
  from Suc.IH [OF this] show ?case
    by (simp only: encode_unsigned_unfold [of v]) simp
qed

lemma leb_max_pos: "leb_max LENGTH('a::len) = Suc (leb_max LENGTH('a) - 1)"
proof -
  have "0 < LENGTH('a)" by simp
  then have "1 \<le> leb_max LENGTH('a)" unfolding leb_max_def by linarith
  then show ?thesis by simp
qed

lemma leb_max_covers: "w \<le> 7 * leb_max w"
  unfolding leb_max_def by presburger

lemma encode_unsigned_max: "length (encode_unsigned (v :: 'a::len word)) \<le> leb_max LENGTH('a)"
proof -
  have "unat v < 2 ^ LENGTH('a)" by (rule unsigned_less)
  also have "\<dots> \<le> 2 ^ (7 * leb_max LENGTH('a))"
    by (rule power_increasing [OF leb_max_covers]) simp
  also have "\<dots> = 128 ^ leb_max LENGTH('a)" by (simp add: power_mult)
  finally have "unat v < 128 ^ Suc (leb_max LENGTH('a) - 1)"
    by (simp only: leb_max_pos [symmetric])
  from encode_unsigned_length [OF this] show ?thesis
    by (simp only: leb_max_pos [symmetric])
qed

section \<open>The signed encoder\<close>

lemma leb_signed_Cons:
  "bs \<noteq> [] \<Longrightarrow> leb_signed (b # bs) = int (low7 b) + 128 * leb_signed bs"
  by (simp add: leb_signed_def power_add algebra_simps)

lemma signed_stop_iff:
  "(v div 128 = 0 \<and> v mod 128 < 64) \<or> (v div 128 = -1 \<and> 64 \<le> v mod 128)
     \<longleftrightarrow> -64 \<le> v \<and> v < (64 :: int)"
  by presburger

lemma encode_signed_unfold:
  "encode_signed v =
     (if -64 \<le> v \<and> v < 64 then [of_nat (nat (v mod 128))]
      else (of_nat (nat (v mod 128)) OR 0x80) # encode_signed (v div 128))"
proof -
  have sign: "(of_nat (nat (v mod 128)) :: u8) AND 0x40 \<noteq> 0 \<longleftrightarrow> 64 \<le> v mod 128"
    by (subst sign_byte) (simp_all add: nat_less_iff le_nat_iff)
  have shift: "drop_bit 7 v = v div 128" by (simp add: drop_bit_eq_div)
  have "encode_signed v =
     (if (v div 128 = 0 \<and> v mod 128 < 64) \<or> (v div 128 = -1 \<and> 64 \<le> v mod 128)
      then [of_nat (nat (v mod 128))]
      else (of_nat (nat (v mod 128)) OR 0x80) # encode_signed (v div 128))"
    using sign by (subst encode_signed.simps) (simp only: Let_def signed_byte shift, auto)
  then show ?thesis by (simp only: signed_stop_iff)
qed

lemma leb_signed_single:
  "n < 128 \<Longrightarrow> leb_signed [of_nat n] = int n - (if 64 \<le> n then 128 else 0)"
  using sign_byte [of n] by (auto simp: leb_signed_def)

lemma encode_signed_spec: "leb_group (encode_signed v) \<and> leb_signed (encode_signed v) = v"
proof (induction v rule: encode_signed.induct)
  case (1 v)
  let ?b = "of_nat (nat (v mod 128)) :: u8"
  have n: "nat (v mod 128) < 128" by (simp add: nat_less_iff)
  have b: "low7 ?b = nat (v mod 128)" "\<not> has_more ?b"
    using n by (rule low7_byte has_more_byte)+
  have sign: "?b AND 0x40 \<noteq> 0 \<longleftrightarrow> 64 \<le> v mod 128"
    by (rule trans [OF sign_byte [OF n]]) (simp add: le_nat_iff)
  then have sign': "(?b AND 0x40 = 0) = (v mod 128 < 64)" by linarith
  show ?case
  proof (cases "-64 \<le> v \<and> v < 64")
    case True
    then have "encode_signed v = [?b]" by (simp only: encode_signed_unfold [of v]) simp
    moreover have "leb_signed [?b] = v"
      unfolding leb_signed_single [OF n] using True by (auto simp: le_nat_iff) presburger+
    ultimately show ?thesis using b by (simp add: leb_group_single)
  next
    case False
    then have go: "\<not> ((drop_bit 7 v = 0 \<and> word_of_int (v AND 0x7F) AND (0x40 :: u8) = 0)
        \<or> (drop_bit 7 v = -1 \<and> word_of_int (v AND 0x7F) AND (0x40 :: u8) \<noteq> 0))"
      using signed_stop_iff [of v] sign'
      by (simp only: signed_byte drop_bit_eq_div sign') auto
    have "leb_group (encode_signed (v div 128)) \<and> leb_signed (encode_signed (v div 128)) = v div 128"
      using "1" [OF refl refl go] by (simp add: drop_bit_eq_div)
    moreover from False have "encode_signed v = (?b OR 0x80) # encode_signed (v div 128)"
      by (simp only: encode_signed_unfold [of v]) simp
    ultimately show ?thesis
      using leb_group_not_Nil [of "encode_signed (v div 128)"] b(1)
      by (simp add: leb_group_Cons leb_signed_Cons)
  qed
qed

lemma encode_signed_length:
  "- (64 * 128 ^ n) \<le> v \<Longrightarrow> v < 64 * 128 ^ n \<Longrightarrow> length (encode_signed v) \<le> Suc n"
proof (induction n arbitrary: v)
  case 0
  then show ?case by (simp only: encode_signed_unfold [of v]) simp
next
  case (Suc n)
  have "- (64 * 128 ^ n) \<le> v div 128" and "v div 128 < 64 * 128 ^ n"
    using Suc.prems by simp_all
  then have "length (encode_signed (v div 128)) \<le> Suc n" by (rule Suc.IH)
  then show ?case by (simp only: encode_signed_unfold [of v]) simp
qed

lemma encode_signed_max:
  "length (encode_signed (sint (v :: 'a::len word))) \<le> leb_max LENGTH('a)"
proof -
  let ?n = "leb_max LENGTH('a) - 1"
  have "LENGTH('a) - 1 \<le> 7 * ?n + 6"
    using leb_max_covers [of "LENGTH('a)"] by linarith
  then have "(2 :: int) ^ (LENGTH('a) - 1) \<le> 2 ^ (7 * ?n + 6)"
    by (rule power_increasing) simp
  also have "\<dots> = 64 * 128 ^ ?n" by (simp add: power_add power_mult)
  finally have "- (64 * 128 ^ ?n) \<le> sint v" and "sint v < 64 * 128 ^ ?n"
    using sint_ge [of v] sint_lt [of v] by linarith+
  then show ?thesis
    using encode_signed_length [of ?n "sint v"] by (simp only: leb_max_pos [symmetric])
qed

section \<open>Decoding on a ByteStream\<close>

lemma encode_unsigned_scan:
  "leb_scan (leb_max LENGTH('a)) (encode_unsigned (v :: 'a::len word) @ ts)
     = Inr (encode_unsigned v)"
  using encode_unsigned_spec [of v] encode_unsigned_max [of v] by (simp add: leb_scan_group)

lemma encode_signed_scan:
  "leb_scan (leb_max LENGTH('a)) (encode_signed (sint (v :: 'a::len word)) @ ts)
     = Inr (encode_signed (sint v))"
  using encode_signed_spec [of "sint v"] encode_signed_max [of v] by (simp add: leb_scan_group)

lemma parses_decode_unsigned [parses_rules]:
  "parses (decode_unsigned read_byte) (encode_unsigned v) v"
  by (rule parsesI)
    (simp add: byte_stream.decode_unsigned_run encode_unsigned_scan encode_unsigned_spec)

lemma forward_decode_loop: "forward (decode_loop read_byte shift result byte)"
proof (induction "read_byte" shift result byte rule: decode_loop.induct)
  case (1 shift result byte)
  then show ?case
    by (subst decode_loop.simps) auto
qed

lemma forward_decode_unsigned [intro, simp]: "forward (decode_unsigned read_byte)"
  unfolding decode_unsigned_def by (auto intro!: forward_decode_loop moves.keeps_seq)

lemma progress_decode_unsigned [intro, simp]: "progress (decode_unsigned read_byte)"
  by (auto simp: progress_def byte_stream.decode_unsigned_run split: sum.splits)

text \<open>C28: decoding what \<open>Encode\<close> wrote for an unsigned integer gives the integer back, and
  consumes exactly the bytes written, whatever follows them on the stream.\<close>

theorem unsigned_round_trip:
  assumes "remaining s = encode_unsigned v @ ts"
  shows "decode_unsigned read_byte s = (Inr v, advance (length (encode_unsigned v)) s)"
  using assms
  by (simp add: byte_stream.decode_unsigned_run encode_unsigned_scan encode_unsigned_spec)

theorem unsigned_round_trip_witness:
  "decode_unsigned read_byte (new_byte_stream [0xe5, 0x8e, 0x26, 0x0b])
     = (Inr (624485 :: u32), advance 3 (new_byte_stream [0xe5, 0x8e, 0x26, 0x0b]))"
proof -
  have e: "encode_unsigned (624485 :: u32) = [0xe5, 0x8e, 0x26]" by code_simp
  show ?thesis
    using unsigned_round_trip [of "new_byte_stream [0xe5, 0x8e, 0x26, 0x0b]" "624485 :: u32" "[0x0b]"]
    by (simp add: e)
qed

text \<open>Decoding what \<open>Encode\<close> wrote for a signed integer gives the integer back, sign
  included, and consumes exactly the bytes written.\<close>

theorem signed_round_trip:
  assumes "remaining s = encode_signed (sint v) @ ts"
  shows "decode_signed read_byte s = (Inr v, advance (length (encode_signed (sint v))) s)"
  using assms
  by (simp add: byte_stream.decode_signed_run encode_signed_scan encode_signed_spec)

theorem signed_round_trip_witness:
  "decode_signed read_byte (new_byte_stream [0x9b, 0xf1, 0x59, 0x0b])
     = (Inr (-624485 :: u32), advance 3 (new_byte_stream [0x9b, 0xf1, 0x59, 0x0b]))"
proof -
  have e: "encode_signed (-624485) = [0x9b, 0xf1, 0x59]" by code_simp
  have v: "sint (-624485 :: u32) = -624485" by simp
  show ?thesis
    using signed_round_trip [of "new_byte_stream [0x9b, 0xf1, 0x59, 0x0b]" "-624485 :: u32" "[0x0b]"]
    unfolding v e by simp
qed

text \<open>C29: \<open>Decode<uint32_t>\<close> on every stream: it agrees with the reference decoder, which
  takes the bytes up to the first one without a continuation bit and adds up their low seven
  bits. It throws \<open>DecodeException\<close> exactly after five bytes that all continue, and
  \<open>EndOfStreamException\<close> when the stream ends inside the group; the stream is left after the
  bytes that were read.\<close>

theorem decode_u32_reference:
  "decode_unsigned read_byte s =
     (case leb_scan 5 (remaining s) of
        Inl e \<Rightarrow> (Inl e, advance (min 5 (length (remaining s))) s)
      | Inr bs \<Rightarrow> (Inr (of_nat (leb_sum bs) :: u32), advance (length bs) s))"
  by (simp add: byte_stream.decode_unsigned_run split: sum.split)

text \<open>\<open>Decode<int64_t>\<close> on every stream: the reference decoder with the sign taken from
  bit 6 of the last byte, at most ten bytes, the same exceptions.\<close>

theorem decode_s64_reference:
  "decode_signed read_byte s =
     (case leb_scan 10 (remaining s) of
        Inl e \<Rightarrow> (Inl e, advance (min 10 (length (remaining s))) s)
      | Inr bs \<Rightarrow> (Inr (of_int (leb_signed bs) :: u64), advance (length bs) s))"
  by (simp add: byte_stream.decode_signed_run split: sum.split)

end
