(* ===== verification/Binary_Types.thy ===== *)
theory Binary_Types
  imports Leb128 Ast
begin

text \<open>
  The parsers of parser/parser.cc that need nothing but the stream: value types, names, indices,
  signatures, limits, the types of tables, memories and globals, and constant expressions. Each
  comes with the encoder of the WebAssembly binary format and is an instance of \<open>codec\<close>.
\<close>

abbreviation decode_u32 :: "(byte_stream, u32) op" where
  "decode_u32 \<equiv> decode_unsigned read_byte"

abbreviation decode_u64 :: "(byte_stream, u64) op" where
  "decode_u64 \<equiv> decode_unsigned read_byte"

section \<open>Limits of the implementation\<close>

definition MAX_FUNCTIONS :: nat where "MAX_FUNCTIONS = 2 ^ 16"
definition MAX_FUNCTION_LOCALS :: nat where "MAX_FUNCTION_LOCALS = 2 ^ 8"
definition kMaxFunctionParameters :: nat where "kMaxFunctionParameters = 6"
definition kMaxFunctionResults :: nat where "kMaxFunctionResults = 1"
definition kMaxFunctionSignatures :: nat where "kMaxFunctionSignatures = 2 ^ 17"
definition kMaxImports :: nat where "kMaxImports = 2 ^ 8"
definition kMaxTables :: nat where "kMaxTables = 2 ^ 4"
definition kMaxMemories :: nat where "kMaxMemories = 1"
definition kMaxGlobals :: nat where "kMaxGlobals = 2 ^ 10"
definition kMaxExports :: nat where "kMaxExports = 2 ^ 8"
definition kMaxNameLength :: nat where "kMaxNameLength = 2 ^ 8"

lemmas max_defs = MAX_FUNCTIONS_def MAX_FUNCTION_LOCALS_def kMaxFunctionParameters_def
  kMaxFunctionResults_def kMaxFunctionSignatures_def kMaxImports_def kMaxTables_def
  kMaxMemories_def kMaxGlobals_def kMaxExports_def kMaxNameLength_def

section \<open>The parsers\<close>

definition parse_val_type :: "(byte_stream, val_type) op" where
  "parse_val_type = seq read_byte (\<lambda>type_id.
     if type_id = val_type_code kI32 then ret kI32
     else if type_id = val_type_code kI64 then ret kI64
     else if type_id = val_type_code kF32 then ret kF32
     else if type_id = val_type_code kF64 then ret kF64
     else if type_id = val_type_code kFuncRef then ret kFuncRef
     else if type_id = val_type_code kExternRef then ret kExternRef
     else throw (ParseException (UnknownValType type_id)))"

definition parse_name :: "(byte_stream, name) op" where
  "parse_name = seq decode_u32 (\<lambda>str_len.
     if kMaxNameLength < unat str_len then throw (ParseException (NameTooLong str_len))
     else read_bytes (unat str_len))"

definition parse_type_idx :: "(byte_stream, type_idx) op" where
  "parse_type_idx = decode_u32"

definition parse_func_idx :: "(byte_stream, func_idx) op" where
  "parse_func_idx = decode_u32"

definition parse_table_idx :: "(byte_stream, table_idx) op" where
  "parse_table_idx = decode_u32"

definition parse_mem_idx :: "(byte_stream, mem_idx) op" where
  "parse_mem_idx = decode_u32"

definition parse_global_idx :: "(byte_stream, global_idx) op" where
  "parse_global_idx = decode_u32"

lemmas parse_idx_defs = parse_type_idx_def parse_func_idx_def parse_table_idx_def
  parse_mem_idx_def parse_global_idx_def

definition parse_signature_types :: "nat \<Rightarrow> (byte_stream, val_type list) op" where
  "parse_signature_types kMax = seq decode_u32 (\<lambda>vector_size.
     if kMax < unat vector_size
     then throw (ModuleTooLargeException (TooManyParameters vector_size))
     else collect_op (unat vector_size) parse_val_type)"

definition parse_signature :: "(byte_stream, block_type) op" where
  "parse_signature = seq read_byte (\<lambda>magic.
     if magic \<noteq> 0x60 then throw (ParseException (FunctionMagicMismatch magic))
     else seq (parse_signature_types kMaxFunctionParameters) (\<lambda>ps.
          seq (parse_signature_types kMaxFunctionResults) (\<lambda>rs.
          ret \<lparr>parameter_types = ps, result_types = rs\<rparr>)))"

definition parse_limits :: "(byte_stream, limits) op" where
  "parse_limits = seq read_byte (\<lambda>flag.
     if flag \<noteq> 0
     then seq decode_u32 (\<lambda>mn. seq decode_u32 (\<lambda>mx. ret \<lparr>lim_min = mn, lim_max = mx\<rparr>))
     else seq decode_u32 (\<lambda>mn. ret \<lparr>lim_min = mn, lim_max = 0xFFFFFFFF\<rparr>))"

definition parse_table_type :: "(byte_stream, table_type) op" where
  "parse_table_type = seq parse_val_type (\<lambda>rt.
     if rt \<noteq> kExternRef \<and> rt \<noteq> kFuncRef
     then throw (ParseException (InvalidTableType (val_type_code rt)))
     else seq parse_limits (\<lambda>l. ret \<lparr>table_limits = l, reftype = rt\<rparr>))"

definition parse_mem_type :: "(byte_stream, mem_type) op" where
  "parse_mem_type = seq parse_limits (\<lambda>l. ret \<lparr>mem_limits = l\<rparr>)"

definition parse_global_type :: "(byte_stream, global_type) op" where
  "parse_global_type = seq parse_val_type (\<lambda>vt. seq read_byte (\<lambda>m.
     ret \<lparr>global_valtype = vt, mut = (m \<noteq> 0)\<rparr>))"

definition parse_table :: "(byte_stream, wasm_table) op" where
  "parse_table = seq parse_table_type (\<lambda>t. ret \<lparr>table_type = t\<rparr>)"

definition parse_memory :: "(byte_stream, wasm_mem) op" where
  "parse_memory = seq parse_mem_type (\<lambda>t. ret \<lparr>mem_type = t\<rparr>)"

text \<open>\<open>std::memcpy\<close> into an integer on a little-endian host, which both targets are.\<close>

fun little_endian :: "u8 list \<Rightarrow> nat" where
  "little_endian [] = 0"
| "little_endian (b # bs) = unat b + 256 * little_endian bs"

definition parse_const_expr :: "(byte_stream, wasm_value) op" where
  "parse_const_expr = seq read_byte (\<lambda>opcode.
     if opcode = 0x41 then seq decode_u32 (\<lambda>v. ret (value_U32 v))
     else if opcode = 0x42 then seq decode_u64 (\<lambda>v. ret (value_U64 v))
     else if opcode = 0x43 then seq (read_bytes 4) (\<lambda>b. ret (value_F32 (of_nat (little_endian b))))
     else if opcode = 0x44 then seq (read_bytes 8) (\<lambda>b. ret (value_F64 (of_nat (little_endian b))))
     else throw (ParseException (UnimplementedGlobalValue opcode)))"

definition parse_global :: "(byte_stream, wasm_global) op" where
  "parse_global = seq parse_global_type (\<lambda>t. seq parse_const_expr (\<lambda>v.
     ret \<lparr>global_type = t, global_value = v\<rparr>))"

section \<open>The stream moves forward\<close>

lemmas forward_intros = moves.keeps_seq moves.keeps_if moves.keeps_ret moves.keeps_throw
  moves.keeps_collect forward_read_byte forward_peek_byte forward_read_bytes forward_skip
  forward_decode_unsigned

lemma forward_types [intro, simp]:
  "forward parse_val_type" "forward parse_name" "forward parse_type_idx" "forward parse_func_idx"
  "forward parse_table_idx" "forward parse_mem_idx" "forward parse_global_idx"
  "forward (parse_signature_types k)" "forward parse_signature" "forward parse_limits"
  "forward parse_table_type" "forward parse_mem_type" "forward parse_global_type"
  "forward parse_table" "forward parse_memory" "forward parse_const_expr" "forward parse_global"
  unfolding parse_val_type_def parse_name_def parse_idx_defs parse_signature_types_def
    parse_signature_def parse_limits_def parse_table_type_def parse_mem_type_def
    parse_global_type_def parse_table_def parse_memory_def parse_const_expr_def parse_global_def
  by (intro forward_intros)+

section \<open>Encoders\<close>

definition enc_val_type :: "val_type \<Rightarrow> u8 list" where
  "enc_val_type t = [val_type_code t]"

definition enc_vec :: "('a \<Rightarrow> u8 list) \<Rightarrow> 'a list \<Rightarrow> u8 list" where
  "enc_vec enc xs = encode_unsigned (of_nat (length xs) :: u32) @ concat (map enc xs)"

definition enc_name :: "name \<Rightarrow> u8 list" where
  "enc_name n = encode_unsigned (of_nat (length n) :: u32) @ n"

definition enc_signature :: "block_type \<Rightarrow> u8 list" where
  "enc_signature ft =
     0x60 # enc_vec enc_val_type (parameter_types ft) @ enc_vec enc_val_type (result_types ft)"

definition enc_limits :: "limits \<Rightarrow> u8 list" where
  "enc_limits l =
     (if lim_max l = 0xFFFFFFFF then 0 # encode_unsigned (lim_min l)
      else 1 # encode_unsigned (lim_min l) @ encode_unsigned (lim_max l))"

definition enc_table_type :: "table_type \<Rightarrow> u8 list" where
  "enc_table_type t = enc_val_type (reftype t) @ enc_limits (table_limits t)"

definition enc_global_type :: "global_type \<Rightarrow> u8 list" where
  "enc_global_type g = enc_val_type (global_valtype g) @ [if mut g then 1 else 0]"

text \<open>The values that the parsers can return.\<close>

definition scalar :: "val_type \<Rightarrow> bool" where
  "scalar t \<longleftrightarrow> t \<noteq> kV128"

definition name_ok :: "name \<Rightarrow> bool" where
  "name_ok n \<longleftrightarrow> length n \<le> kMaxNameLength"

definition signature_ok :: "block_type \<Rightarrow> bool" where
  "signature_ok ft \<longleftrightarrow>
     length (parameter_types ft) \<le> kMaxFunctionParameters \<and>
     length (result_types ft) \<le> kMaxFunctionResults \<and>
     list_all scalar (parameter_types ft) \<and> list_all scalar (result_types ft)"

definition table_type_ok :: "table_type \<Rightarrow> bool" where
  "table_type_ok t \<longleftrightarrow> reftype t = kFuncRef \<or> reftype t = kExternRef"

definition global_type_ok :: "global_type \<Rightarrow> bool" where
  "global_type_ok g \<longleftrightarrow> scalar (global_valtype g)"

section \<open>The parsers invert the encoders\<close>

lemma parses_seq_Cons:
  assumes "parses m [b] x" and "parses (f x) cs y"
  shows "parses (seq m f) (b # cs) y"
  using parses_seq [of m "[b]" x f cs y] assms by simp

lemma parses_seq_last:
  assumes "parses m bs x" and "f x = ret y"
  shows "parses (seq m f) bs y"
  using parses_seq [of m bs x f "[]" y] assms parses_ret [of y] by simp

lemma parses_val_type: "scalar t \<Longrightarrow> parses parse_val_type (enc_val_type t) t"
  unfolding parse_val_type_def enc_val_type_def
  by (rule parses_seq_last [OF parses_read_byte]) (cases t; simp add: scalar_def)

interpretation val_type: codec enc_val_type parse_val_type scalar
  by unfold_locales (rule parses_val_type)

lemma parses_name: "name_ok n \<Longrightarrow> parses parse_name (enc_name n) n"
  unfolding parse_name_def enc_name_def
  by (rule parses_seq [OF parses_decode_unsigned])
    (simp add: name_ok_def max_defs parses_read_bytes)

interpretation name: codec enc_name parse_name name_ok
  by unfold_locales (rule parses_name)

lemma parses_signature_types:
  "length ts \<le> k \<Longrightarrow> k < 2 ^ 32 \<Longrightarrow> list_all scalar ts \<Longrightarrow>
     parses (parse_signature_types k) (enc_vec enc_val_type ts) ts"
  unfolding parse_signature_types_def enc_vec_def
  by (rule parses_seq [OF parses_decode_unsigned]) (simp add: val_type.parse_many)

lemma parses_signature:
  assumes "signature_ok ft"
  shows "parses parse_signature (enc_signature ft) ft"
proof -
  have ft: "\<lparr>parameter_types = parameter_types ft, result_types = result_types ft\<rparr> = ft"
    by (cases ft) simp
  show ?thesis unfolding parse_signature_def enc_signature_def
    by (rule parses_seq_Cons [OF parses_read_byte], simp only: not_True_eq_False simp_thms if_False,
        rule parses_seq [OF parses_signature_types], use assms in \<open>simp_all add: signature_ok_def max_defs\<close>)
      (rule parses_seq_last [OF parses_signature_types], simp_all add: ft)
qed

interpretation signature: codec enc_signature parse_signature signature_ok
  by unfold_locales (rule parses_signature)

lemma parses_limits: "parses parse_limits (enc_limits l) l"
proof (cases "lim_max l = 0xFFFFFFFF")
  case True
  then have l: "l = \<lparr>lim_min = lim_min l, lim_max = 0xFFFFFFFF\<rparr>" by simp
  have "parses parse_limits (0 # encode_unsigned (lim_min l))
      \<lparr>lim_min = lim_min l, lim_max = 0xFFFFFFFF\<rparr>"
    unfolding parse_limits_def
    by (rule parses_seq_Cons [OF parses_read_byte])
      (simp add: parses_seq_last [OF parses_decode_unsigned])
  then show ?thesis using True l by (simp add: enc_limits_def)
next
  case False
  have "parses parse_limits (1 # encode_unsigned (lim_min l) @ encode_unsigned (lim_max l))
      \<lparr>lim_min = lim_min l, lim_max = lim_max l\<rparr>"
    unfolding parse_limits_def
    by (rule parses_seq_Cons [OF parses_read_byte], simp only: one_neq_zero not_False_eq_True if_True,
        rule parses_seq [OF parses_decode_unsigned])
      (rule parses_seq_last [OF parses_decode_unsigned], simp)
  moreover have "\<lparr>lim_min = lim_min l, lim_max = lim_max l\<rparr> = l" by (cases l) simp
  ultimately show ?thesis using False by (simp add: enc_limits_def)
qed

lemma parses_table_type: "table_type_ok t \<Longrightarrow> parses parse_table_type (enc_table_type t) t"
  unfolding parse_table_type_def enc_table_type_def
  by (rule parses_seq [OF parses_val_type])
    (auto simp: table_type_ok_def scalar_def intro!: parses_seq_last [OF parses_limits])

interpretation table_type: codec enc_table_type parse_table_type table_type_ok
  by unfold_locales (rule parses_table_type)

lemma parses_mem_type: "parses parse_mem_type (enc_limits (mem_limits t)) t"
  unfolding parse_mem_type_def by (rule parses_seq_last [OF parses_limits]) (cases t, simp)

lemma parses_table: "table_type_ok t \<Longrightarrow> parses parse_table (enc_table_type t) \<lparr>table_type = t\<rparr>"
  unfolding parse_table_def by (rule parses_seq_last [OF parses_table_type]) simp_all

lemma parses_memory: "parses parse_memory (enc_limits (mem_limits t)) \<lparr>mem_type = t\<rparr>"
  unfolding parse_memory_def by (rule parses_seq_last [OF parses_mem_type]) simp

lemma parses_global_type: "global_type_ok g \<Longrightarrow> parses parse_global_type (enc_global_type g) g"
  unfolding parse_global_type_def enc_global_type_def
  by (rule parses_seq [OF parses_val_type])
    (auto simp: global_type_ok_def intro!: parses_seq_last [OF parses_read_byte])

interpretation global_type: codec enc_global_type parse_global_type global_type_ok
  by unfold_locales (rule parses_global_type)

section \<open>What the parsers return\<close>

text \<open>\<open>yields m P\<close>: a value that \<open>m\<close> returns satisfies \<open>P\<close>.\<close>

definition yields :: "('s, 'a) op \<Rightarrow> ('a \<Rightarrow> bool) \<Rightarrow> bool" where
  "yields m P \<longleftrightarrow> (\<forall>s x s'. m s = (Inr x, s') \<longrightarrow> P x)"

lemma yieldsI: "(\<And>s x s'. m s = (Inr x, s') \<Longrightarrow> P x) \<Longrightarrow> yields m P"
  by (auto simp: yields_def)

lemma yieldsD: "yields m P \<Longrightarrow> m s = (Inr x, s') \<Longrightarrow> P x"
  by (auto simp: yields_def)

lemma yields_ret: "P x \<Longrightarrow> yields (ret x) P"
  by (auto simp: yields_def)

lemma yields_throw: "yields (throw e) P"
  by (auto simp: yields_def)

lemma yields_seq: "yields m Q \<Longrightarrow> (\<And>x. Q x \<Longrightarrow> yields (f x) P) \<Longrightarrow> yields (seq m f) P"
  unfolding yields_def by blast

lemma yields_any: "yields m (\<lambda>_. True)"
  by (auto simp: yields_def)

lemma yields_if: "(b \<Longrightarrow> yields m P) \<Longrightarrow> (\<not> b \<Longrightarrow> yields m' P) \<Longrightarrow> yields (if b then m else m') P"
  by simp

lemma yields_collect:
  assumes "yields m P"
  shows "yields (collect_op n m) (\<lambda>xs. length xs = n \<and> list_all P xs)"
proof (induction n)
  case 0
  show ?case unfolding collect_op.simps by (rule yields_ret) simp
next
  case (Suc n)
  show ?case unfolding collect_op.simps
    by (rule yields_seq [OF assms], rule yields_seq [OF Suc.IH], rule yields_ret) simp
qed

lemma yields_mono: "yields m P \<Longrightarrow> (\<And>x. P x \<Longrightarrow> Q x) \<Longrightarrow> yields m Q"
  by (auto simp: yields_def)

lemmas yields_step = yields_if yields_throw yields_ret yields_seq [OF yields_any]

lemma yields_val_type: "yields parse_val_type scalar"
  unfolding parse_val_type_def by (intro yields_step) (simp_all add: scalar_def)

lemma read_bytes_length:
  "n < 2 ^ 31 \<Longrightarrow> yields (read_bytes n) (\<lambda>bs. length bs = n)"
  by (rule yieldsI)
    (auto simp: read_bytes_def Let_def int32_of_size_def sint_of_nat_i32 split: if_splits)

end
