(* ===== verification/Module_Parser.thy ===== *)
theory Module_Parser
  imports Binary_Types Validator
begin

text \<open>
  \<open>ModuleBuilder\<close>, \<open>OpEmitter\<close> and \<open>ParseModule\<close> of parser/parser.cc. The state of an operation
  is the builder beside the stream; both keep what happened before an exception. The coroutines
  of the code only yield between the elements of a section and share nothing while suspended, so
  they are plain calls here.
\<close>

record module_builder =
  latest_section_read :: nat
  mb_func_signatures :: "block_type list"
  mb_imports :: "module_import list"
  mb_functions :: "wasm_function list"
  mb_tables :: "wasm_table list"
  mb_memories :: "wasm_mem list"
  mb_globals :: "wasm_global list"
  mb_exports :: "module_export list"
  mb_start :: "func_idx option"

definition new_builder :: module_builder where
  "new_builder = \<lparr>latest_section_read = 0, mb_func_signatures = [], mb_imports = [],
     mb_functions = [], mb_tables = [], mb_memories = [], mb_globals = [], mb_exports = [],
     mb_start = None\<rparr>"

type_synonym 'a builder_op = "(module_builder \<times> byte_stream, 'a) op"

definition validate_in_range :: "string \<Rightarrow> u32 \<Rightarrow> 'v list \<Rightarrow> ('s, unit) op" where
  "validate_in_range msg idx v =
     (if length v \<le> unat idx then throw (ParseException (IndexOutOfRange msg idx (length v)))
      else ret ())"

section \<open>Signatures, imports, functions\<close>

definition parse_block_type :: "block_type builder_op" where
  "parse_block_type = seq (on_snd peek_byte) (\<lambda>byte.
     if byte = 0x40
     then seq (on_snd (skip 1)) (\<lambda>_. ret \<lparr>parameter_types = [], result_types = []\<rparr>)
     else if byte \<in> {val_type_code kI32, val_type_code kI64, val_type_code kF32,
                     val_type_code kF64, val_type_code kFuncRef, val_type_code kExternRef}
     then seq (on_snd parse_val_type) (\<lambda>vt. ret \<lparr>parameter_types = [], result_types = [vt]\<rparr>)
     else seq (on_snd parse_func_idx) (\<lambda>funcidx.
          seq (gets (mb_func_signatures \<circ> fst)) (\<lambda>sigs.
          seq (validate_in_range ''unknown function signature'' funcidx sigs) (\<lambda>_.
          ret (sigs ! unat funcidx)))))"

definition parse_signature_section :: "unit builder_op" where
  "parse_signature_section = seq (on_snd decode_u32) (\<lambda>vector_size.
     if kMaxFunctionSignatures < unat vector_size
     then throw (ModuleTooLargeException (TooLargeTypeSection vector_size))
     else repeat_op (unat vector_size)
       (seq (on_snd parse_signature) (\<lambda>ft.
        on_fst (modify (\<lambda>b. b\<lparr>mb_func_signatures := mb_func_signatures b @ [ft]\<rparr>)))))"

definition new_function :: "block_type \<Rightarrow> wasm_function" where
  "new_function ft =
     \<lparr>meta = \<lparr>signature = ft, locals = [], max_stack_size_bytes = 0, max_stack_elements = 0\<rparr>,
      body = []\<rparr>"

definition parse_function_declaration_section :: "unit builder_op" where
  "parse_function_declaration_section = seq (on_snd decode_u32) (\<lambda>vector_size.
     if MAX_FUNCTIONS < unat vector_size
     then throw (ModuleTooLargeException (TooManyFunctions vector_size))
     else repeat_op (unat vector_size)
       (seq (on_snd parse_func_idx) (\<lambda>funcidx.
        seq (gets (mb_func_signatures \<circ> fst)) (\<lambda>sigs.
        seq (validate_in_range ''unknown function signature'' funcidx sigs) (\<lambda>_.
        on_fst (modify (\<lambda>b. b\<lparr>mb_functions :=
          mb_functions b @ [new_function (sigs ! unat funcidx)]\<rparr>)))))))"

definition parse_import_desc :: "u8 \<Rightarrow> import_description builder_op" where
  "parse_import_desc type =
     (if type = 0x00 then
        seq (on_snd parse_type_idx) (\<lambda>funcidx.
        seq (gets (mb_func_signatures \<circ> fst)) (\<lambda>sigs.
        seq (validate_in_range ''unknown import function signature'' funcidx sigs) (\<lambda>_.
        ret (ImportFunc funcidx))))
      else if type = 0x01 then seq (on_snd parse_table_type) (\<lambda>t. ret (ImportTable t))
      else if type = 0x02 then seq (on_snd parse_mem_type) (\<lambda>m. ret (ImportMem m))
      else if type = 0x03 then seq (on_snd parse_global_type) (\<lambda>g. ret (ImportGlobal g))
      else throw (ParseException (UnknownImportType type)))"

definition parse_one_import :: "module_import builder_op" where
  "parse_one_import =
     seq (on_snd parse_name) (\<lambda>module_name.
     seq (on_snd parse_name) (\<lambda>nm.
     seq (on_snd read_byte) (\<lambda>type.
     seq (parse_import_desc type) (\<lambda>desc.
     ret \<lparr>import_module_name = module_name, import_name = nm, import_desc = desc\<rparr>))))"

definition parse_import_section :: "unit builder_op" where
  "parse_import_section = seq (on_snd decode_u32) (\<lambda>vector_size.
     if kMaxImports < unat vector_size
     then throw (ModuleTooLargeException (TooManyImports vector_size))
     else repeat_op (unat vector_size)
       (seq parse_one_import (\<lambda>i.
        on_fst (modify (\<lambda>b. b\<lparr>mb_imports := mb_imports b @ [i]\<rparr>)))))"

section \<open>Tables, memories, globals\<close>

definition parse_table_section :: "unit builder_op" where
  "parse_table_section = seq (on_snd decode_u32) (\<lambda>vector_size.
     if kMaxTables < unat vector_size
     then throw (ModuleTooLargeException (TooManyTables vector_size))
     else repeat_op (unat vector_size)
       (seq (on_snd parse_table) (\<lambda>t.
        on_fst (modify (\<lambda>b. b\<lparr>mb_tables := mb_tables b @ [t]\<rparr>)))))"

definition parse_memories_section :: "unit builder_op" where
  "parse_memories_section = seq (on_snd decode_u32) (\<lambda>vector_size.
     if kMaxMemories < unat vector_size
     then throw (ModuleTooLargeException (TooManyMemories vector_size))
     else repeat_op (unat vector_size)
       (seq (on_snd parse_memory) (\<lambda>m.
        on_fst (modify (\<lambda>b. b\<lparr>mb_memories := mb_memories b @ [m]\<rparr>)))))"

definition parse_globals_section :: "unit builder_op" where
  "parse_globals_section = seq (on_snd decode_u32) (\<lambda>vector_size.
     if kMaxGlobals < unat vector_size
     then throw (ModuleTooLargeException (TooManyGlobals vector_size))
     else repeat_op (unat vector_size)
       (seq (on_snd parse_global) (\<lambda>g.
        on_fst (modify (\<lambda>b. b\<lparr>mb_globals := mb_globals b @ [g]\<rparr>)))))"

section \<open>Exports\<close>

definition parse_export_desc :: "u8 \<Rightarrow> export_description builder_op" where
  "parse_export_desc type =
     (if type = 0x00 then
        seq (on_snd parse_func_idx) (\<lambda>idx. seq (gets (mb_functions \<circ> fst)) (\<lambda>v.
        seq (validate_in_range ''unknown function export'' idx v) (\<lambda>_. ret (ExportFunc idx))))
      else if type = 0x01 then
        seq (on_snd parse_table_idx) (\<lambda>idx. seq (gets (mb_tables \<circ> fst)) (\<lambda>v.
        seq (validate_in_range ''unknown function export'' idx v) (\<lambda>_. ret (ExportTable idx))))
      else if type = 0x02 then
        seq (on_snd parse_mem_idx) (\<lambda>idx. seq (gets (mb_memories \<circ> fst)) (\<lambda>v.
        seq (validate_in_range ''unknown memory export'' idx v) (\<lambda>_. ret (ExportMem idx))))
      else if type = 0x03 then
        seq (on_snd parse_global_idx) (\<lambda>idx. seq (gets (mb_globals \<circ> fst)) (\<lambda>v.
        seq (validate_in_range ''unknown global export'' idx v) (\<lambda>_. ret (ExportGlobal idx))))
      else throw (ParseException (UnknownExportType type)))"

definition parse_one_export :: "module_export builder_op" where
  "parse_one_export =
     seq (on_snd parse_name) (\<lambda>nm.
     seq (on_snd read_byte) (\<lambda>type.
     seq (parse_export_desc type) (\<lambda>desc.
     ret \<lparr>export_name = nm, export_desc = desc\<rparr>)))"

text \<open>
  The loop of the export section. \<open>names\<close> is the local hash set: the code stores views of the
  names' bytes in it, which here are the bytes themselves.
\<close>

primrec parse_exports :: "nat \<Rightarrow> name list \<Rightarrow> unit builder_op" where
  "parse_exports 0 names = ret ()"
| "parse_exports (Suc n) names =
     seq parse_one_export (\<lambda>e.
     seq (on_fst (modify (\<lambda>b. b\<lparr>mb_exports := mb_exports b @ [e]\<rparr>))) (\<lambda>_.
     if export_name e \<in> set names
     then throw (ParseException (DuplicateExportedName (export_name e)))
     else parse_exports n (names @ [export_name e])))"

definition parse_exports_section :: "unit builder_op" where
  "parse_exports_section = seq (on_snd decode_u32) (\<lambda>vector_size.
     if kMaxExports < unat vector_size
     then throw (ModuleTooLargeException (TooManyExports vector_size))
     else parse_exports (unat vector_size) [])"

section \<open>Function bodies\<close>

record op_emitter =
  op_validator :: validator
  op_instructions :: "instruction list"

definition emit :: "instruction \<Rightarrow> (op_emitter, unit) op" where
  "emit i e = (case validate_op i (op_validator e) of
       (Inl x, v) \<Rightarrow> (Inl x, e\<lparr>op_validator := v\<rparr>)
     | (Inr _, v) \<Rightarrow>
         (Inr (), e\<lparr>op_validator := v, op_instructions := op_instructions e @ [i]\<rparr>))"

definition emitter_finalize :: "(op_emitter, instruction list) op" where
  "emitter_finalize e = (case finalize (op_validator e) of
       (Inl x, v) \<Rightarrow> (Inl x, e\<lparr>op_validator := v\<rparr>)
     | (Inr _, v) \<Rightarrow> (Inr (op_instructions e), e\<lparr>op_validator := v, op_instructions := []\<rparr>))"

text \<open>One round of the switch over opcodes; \<open>0x0B\<close> ends the loop before it gets here.\<close>

definition parse_opcode :: "u8 \<Rightarrow> (byte_stream \<times> op_emitter, unit) op" where
  "parse_opcode opcode =
     (if opcode = 0x04 then
        seq (on_snd (emit (BrIf (MakeLabelId ''then'' 0) (MakeLabelId ''else'' 0)))) (\<lambda>_.
        on_snd (emit (Label (MakeLabelId ''then'' 0))))
      else if opcode = 0x05 then
        seq (on_snd (emit (Br (MakeLabelId ''end'' 0)))) (\<lambda>_.
        on_snd (emit (Label (MakeLabelId ''else'' 0))))
      else if opcode = 0x0B then on_snd (emit (Label (MakeLabelId ''end'' 0)))
      else if opcode = 0x0F then on_snd (emit Return)
      else if opcode = 0x20 then
        seq (on_fst decode_u32) (\<lambda>idx. on_snd (emit (GetLocalI32 (unat idx))))
      else if opcode = 0x21 then
        seq (on_fst decode_u32) (\<lambda>idx. on_snd (emit (SetLocalI32 (unat idx))))
      else if opcode = 0x41 then
        seq (on_fst decode_u32) (\<lambda>v. on_snd (emit (ConstI32 (value_U32 v))))
      else if opcode = 0x6A then on_snd (emit AddI32)
      else throw (ParseException (UnsupportedOpcode opcode)))"

lemmas forward_fst_intros =
  moves_fst.keeps_seq moves_fst.keeps_if moves_fst.keeps_ret moves_fst.keeps_throw
  forward_on_fst forward_other_fst

lemma forward_parse_opcode [intro, simp]: "forward_fst (parse_opcode opcode)"
  unfolding parse_opcode_def by (intro forward_fst_intros) auto

function (sequential) parse_opcodes :: "(byte_stream \<times> op_emitter, unit) op" where
  "parse_opcodes st =
     seq (on_fst read_byte) (\<lambda>opcode st1.
       if opcode = 0x0B then ret () st1
       else seq (parse_opcode opcode) (\<lambda>_ st2. parse_opcodes st2) st1) st"
  by pat_completeness auto
termination
proof (relation "measure (\<lambda>(s, e). length (buffer s) - position s)", simp, goal_cases)
  case (1 st opcode st1 u st2)
  obtain s e s1 e1 s2 e2 where st: "st = (s, e)" "st1 = (s1, e1)" "st2 = (s2, e2)"
    by (metis surj_pair)
  with 1 have "has_remaining s" "position s1 = position s + 1" "buffer s1 = buffer s"
    by (auto simp: on_fst_def read_byte_def split: if_splits)
  moreover from keepsD [OF forward_parse_opcode 1(3)]
  have "buffer s2 = buffer s1" "position s1 \<le> position s2"
    by (auto simp: st moves_fst_def moves_def)
  ultimately show ?case by (auto simp: st has_remaining_def)
qed

declare parse_opcodes.simps [simp del]

text \<open>
  \<open>ParseExpression\<close>: the emitter is built on the validator it is given, which the caller keeps.
\<close>

definition parse_expression :: "(byte_stream \<times> validator, instruction list) op" where
  "parse_expression st = (case st of (s, v) \<Rightarrow>
     (case seq parse_opcodes (\<lambda>_. on_snd emitter_finalize)
             (s, \<lparr>op_validator = v, op_instructions = []\<rparr>) of
        (r, (s', e)) \<Rightarrow> (r, (s', op_validator e))))"

type_synonym 'a code_op = "(wasm_function \<times> byte_stream, 'a) op"

definition add_locals :: "nat \<Rightarrow> val_type \<Rightarrow> wasm_function \<Rightarrow> wasm_function" where
  "add_locals n t f = f\<lparr>meta := (meta f)\<lparr>locals := locals (meta f) @ replicate n t\<rparr>\<rparr>"

definition parse_locals_group :: "unit code_op" where
  "parse_locals_group = seq (on_snd decode_u32) (\<lambda>num_locals.
     seq (gets (length \<circ> locals \<circ> meta \<circ> fst)) (\<lambda>n.
     if MAX_FUNCTION_LOCALS < unat num_locals + n
     then throw (ModuleTooLargeException (TooManyLocals (unat num_locals + n)))
     else seq (on_snd parse_val_type) (\<lambda>valtype.
          on_fst (modify (add_locals (unat num_locals) valtype)))))"

text \<open>
  The validator is a local of \<open>ParseOneCode\<close>: the body and the maxima reach the function only
  when the expression was accepted.
\<close>

definition parse_body :: "unit code_op" where
  "parse_body st = (case st of (f, s) \<Rightarrow>
     (case parse_expression (s, new_validator (signature (meta f)) (locals (meta f))) of
        (Inl e, (s', v)) \<Rightarrow> (Inl e, (f, s'))
      | (Inr is, (s', v)) \<Rightarrow>
          (Inr (), (f\<lparr>body := is,
                      meta := (meta f)\<lparr>max_stack_size_bytes := ucast (maximum_stack_size_bytes v),
                                       max_stack_elements := of_nat (maximum_stack_elements v)\<rparr>\<rparr>,
                    s'))))"

definition parse_one_code :: "unit code_op" where
  "parse_one_code =
     seq (on_snd decode_u32) (\<lambda>expected_size.
     seq (on_snd (gets bytes_consumed)) (\<lambda>start_position.
     seq (on_snd decode_u32) (\<lambda>vector_size.
     seq (repeat_op (unat vector_size) parse_locals_group) (\<lambda>_.
     seq parse_body (\<lambda>_.
     seq (on_snd (gets bytes_consumed)) (\<lambda>pos.
     let actual = pos - start_position in
     if actual \<noteq> unat expected_size
     then throw (ParseException (UnexpectedFunctionSize actual expected_size))
     else ret ()))))))"

text \<open>An operation on \<open>_functions[i]\<close> through a reference to it.\<close>

definition on_function :: "nat \<Rightarrow> 'a code_op \<Rightarrow> 'a builder_op" where
  "on_function i m = (\<lambda>(b, s). case m (mb_functions b ! i, s) of
     (r, (f, s')) \<Rightarrow> (r, (b\<lparr>mb_functions := (mb_functions b)[i := f]\<rparr>, s')))"

definition parse_code_section :: "unit builder_op" where
  "parse_code_section = seq (on_snd decode_u32) (\<lambda>vector_size.
     seq (gets (length \<circ> mb_functions \<circ> fst)) (\<lambda>n.
     if unat vector_size \<noteq> n
     then throw (ParseException (UnexpectedNumberOfCode vector_size n))
     else for_each (\<lambda>i. on_function i parse_one_code) [0..<unat vector_size]))"

section \<open>Sections and modules\<close>

definition parse_start_section :: "unit builder_op" where
  "parse_start_section = seq (on_snd parse_func_idx) (\<lambda>start_funcidx.
     seq (gets (mb_functions \<circ> fst)) (\<lambda>v.
     seq (validate_in_range ''start function'' start_funcidx v) (\<lambda>_.
     on_fst (modify (\<lambda>b. b\<lparr>mb_start := Some start_funcidx\<rparr>)))))"

definition parse_section_body :: "u8 \<Rightarrow> u32 \<Rightarrow> unit builder_op" where
  "parse_section_body sid sec_size =
     (if sid = 0x00 then on_snd (skip (unat sec_size))
      else if sid = 0x01 then parse_signature_section
      else if sid = 0x02 then parse_import_section
      else if sid = 0x03 then parse_function_declaration_section
      else if sid = 0x04 then parse_table_section
      else if sid = 0x05 then parse_memories_section
      else if sid = 0x06 then parse_globals_section
      else if sid = 0x07 then parse_exports_section
      else if sid = 0x08 then parse_start_section
      else if sid = 0x09 then throw (ParseException TablesUnimplemented)
      else if sid = 0x0A then parse_code_section
      else if sid = 0x0B \<or> sid = 0x0C then throw (ParseException MemoriesUnimplemented)
      else throw (ParseException (UnknownSectionId sid)))"

definition check_section_order :: "u8 \<Rightarrow> (module_builder, unit) op" where
  "check_section_order sid b =
     (if sid \<noteq> 0 \<and> unat sid \<le> latest_section_read b
      then (Inl (ParseException (InvalidSectionOrder sid (latest_section_read b))), b)
      else if sid \<noteq> 0 then (Inr (), b\<lparr>latest_section_read := unat sid\<rparr>)
      else (Inr (), b))"

definition parse_one_section :: "unit builder_op" where
  "parse_one_section = seq (on_snd read_byte) (\<lambda>sid.
     seq (on_fst (check_section_order sid)) (\<lambda>_.
     seq (on_snd decode_u32) (\<lambda>sec_size.
     parse_section_body sid sec_size)))"

text \<open>Every section moves the stream forward, and reads at least the byte of its id.\<close>

lemmas forward_snd_intros =
  moves_snd.keeps_seq moves_snd.keeps_if moves_snd.keeps_ret moves_snd.keeps_throw
  moves_snd.keeps_gets moves_snd.keeps_repeat moves_snd.keeps_for_each
  forward_on_snd forward_other_snd forward_types forward_intros moves.keeps_gets

lemma forward_validate_in_range [intro, simp]: "forward_snd (validate_in_range msg idx v)"
  unfolding validate_in_range_def by (intro forward_snd_intros)

lemma forward_parse_exports: "forward_snd (parse_exports n names)"
  by (induction n arbitrary: names)
    (simp_all only: parse_exports.simps parse_one_export_def parse_export_desc_def,
      (intro forward_snd_intros forward_validate_in_range | assumption)+)

lemma forward_parse_opcodes: "forward_fst parse_opcodes"
proof (rule keepsI)
  fix st r st' assume "parse_opcodes st = (r, st')"
  then show "moves_fst st st'"
  proof (induction st arbitrary: r st' rule: parse_opcodes.induct)
    case (1 st)
    obtain r1 st1 where 2: "on_fst read_byte st = (r1, st1)" by (metis surj_pair)
    have m1: "moves_fst st st1"
      by (rule keepsD [OF forward_on_fst 2]) simp
    show ?case
    proof (cases r1)
      case (Inl e)
      with 1(2) 2 m1 show ?thesis by (simp add: parse_opcodes.simps [of st] seq_run_Inl)
    next
      case (Inr opcode)
      note 2 = 2 [unfolded Inr]
      show ?thesis
      proof (cases "opcode = 0x0B")
        case True
        with 1(2) 2 m1 show ?thesis by (simp add: parse_opcodes.simps [of st] seq_run_Inr)
      next
        case False
        obtain r2 st2 where 3: "parse_opcode opcode st1 = (r2, st2)" by (metis surj_pair)
        have m2: "moves_fst st st2"
          by (rule moves_fst.R_trans [OF m1 keepsD [OF forward_parse_opcode 3]])
        show ?thesis
        proof (cases r2)
          case (Inl e)
          with 1(2) 2 3 False m2 show ?thesis
            by (simp add: parse_opcodes.simps [of st] seq_run_Inr seq_run_Inl)
        next
          case (Inr u)
          with 1(2) 2 3 False have "parse_opcodes st2 = (r, st')"
            by (simp add: parse_opcodes.simps [of st] seq_run_Inr)
          from 1(1) [OF 2 False _ this] 3 Inr have "moves_fst st2 st'" by simp
          with m2 show ?thesis by (rule moves_fst.R_trans)
        qed
      qed
    qed
  qed
qed

lemma forward_parse_expression: "forward_fst parse_expression"
proof (rule keepsI)
  fix st r st' assume run: "parse_expression st = (r, st')"
  let ?e = "(fst st, \<lparr>op_validator = snd st, op_instructions = []\<rparr>)"
  have f: "forward_fst (seq parse_opcodes (\<lambda>_. on_snd emitter_finalize))"
    by (intro moves_fst.keeps_seq forward_parse_opcodes forward_other_fst)
  from keepsD [OF f, of ?e] run show "moves_fst st st'"
    by (auto simp: parse_expression_def moves_fst_def split: prod.splits)
qed

lemma forward_parse_body: "forward_snd parse_body"
proof (rule keepsI)
  fix st r st' assume "parse_body st = (r, st')"
  then show "moves_snd st st'"
    using keepsD [OF forward_parse_expression]
    by (fastforce simp: parse_body_def moves_fst_def moves_snd_def split: prod.splits sum.splits)
qed

lemma forward_parse_one_code: "forward_snd parse_one_code"
  unfolding parse_one_code_def parse_locals_group_def Let_def
  by (intro forward_snd_intros forward_parse_body)

lemma forward_on_function: "forward_snd m \<Longrightarrow> forward_snd (on_function i m)"
  by (auto simp: keeps_def on_function_def moves_snd_def split: prod.splits)

lemma forward_parse_section_body: "forward_snd (parse_section_body sid sec_size)"
  unfolding parse_section_body_def parse_signature_section_def parse_import_section_def
    parse_function_declaration_section_def parse_table_section_def parse_memories_section_def
    parse_globals_section_def parse_exports_section_def parse_start_section_def
    parse_code_section_def parse_one_import_def parse_import_desc_def
  by (intro forward_snd_intros forward_validate_in_range forward_parse_exports
      forward_on_function forward_parse_one_code)

lemma forward_parse_one_section: "forward_snd parse_one_section"
  unfolding parse_one_section_def
  by (intro forward_snd_intros forward_parse_section_body)

lemma parse_one_section_progress:
  assumes "parse_one_section (b, s) = (Inr u, (b', s'))"
  shows "has_remaining s \<and> buffer s' = buffer s \<and> position s < position s'"
proof -
  let ?rest = "\<lambda>sid. seq (on_fst (check_section_order sid)) (\<lambda>_. seq (on_snd decode_u32) (parse_section_body sid))"
  obtain sid st where 1: "on_snd read_byte (b, s) = (Inr sid, st)" and 2: "?rest sid st = (Inr u, (b', s'))"
    using assms unfolding parse_one_section_def seq_Inr_iff [of "on_snd read_byte"] by metis
  have "forward_snd (?rest sid)"
    by (intro forward_snd_intros forward_parse_section_body)
  from keepsD [OF this 2] 1 show ?thesis
    by (auto simp: on_snd_def read_byte_def moves_snd_def moves_def split: if_splits)
qed

text \<open>The loop over the sections; every round reads a section id, so it ends.\<close>

function (sequential) parse_sections :: "unit builder_op" where
  "parse_sections st =
     (if has_remaining (snd st) then seq parse_one_section (\<lambda>_ st'. parse_sections st') st
      else ret () st)"
  by pat_completeness auto
termination
proof (relation "measure (\<lambda>(b, s). length (buffer s) - position s)", simp, goal_cases)
  case (1 st u st')
  then show ?case
    using parse_one_section_progress [of "fst st" "snd st" u "fst st'" "snd st'"]
    by (auto simp: has_remaining_def split: prod.split)
qed

declare parse_sections.simps [simp del]

lemma forward_parse_sections: "forward_snd parse_sections"
proof (rule keepsI)
  fix st r st' assume "parse_sections st = (r, st')"
  then show "moves_snd st st'"
  proof (induction st arbitrary: r st' rule: parse_sections.induct)
    case (1 st)
    show ?case
    proof (cases "has_remaining (snd st)")
      case True
      obtain r1 st1 where one: "parse_one_section st = (r1, st1)" by (metis surj_pair)
      have m: "moves_snd st st1" by (rule keepsD [OF forward_parse_one_section one])
      show ?thesis
      proof (cases r1)
        case (Inl e)
        with one True 1(2) m show ?thesis
          by (auto simp: parse_sections.simps [of st] seq_run_Inl)
      next
        case (Inr u)
        with one True 1(2) have "parse_sections st1 = (r, st')"
          by (simp add: parse_sections.simps [of st] seq_run_Inr)
        with 1(1) [OF True] one Inr have "moves_snd st1 st'" by blast
        with m show ?thesis by (rule moves_snd.R_trans)
      qed
    qed (use 1 in \<open>auto simp: parse_sections.simps [of st] moves_snd.R_refl\<close>)
  qed
qed

definition kMagicBytes :: "u8 list" where
  "kMagicBytes = [0x00, 0x61, 0x73, 0x6D]"

definition kVersionOne :: "u8 list" where
  "kVersionOne = [0x01, 0x00, 0x00, 0x00]"

definition builder_parse :: "unit builder_op" where
  "builder_parse =
     seq (on_snd (read_bytes 4)) (\<lambda>magic.
     if magic \<noteq> kMagicBytes then throw (ParseException (MagicBytesMismatch magic))
     else seq (on_snd (read_bytes 4)) (\<lambda>version.
     if version \<noteq> kVersionOne then throw (ParseException UnsupportedWasmVersion)
     else parse_sections))"

text \<open>\<open>emplace\<close> keeps the entry that is there.\<close>

definition emplace_export ::
    "module_export \<Rightarrow> (name \<rightharpoonup> func_idx) \<Rightarrow> (name \<rightharpoonup> func_idx)" where
  "emplace_export e m = (case export_desc e of
     ExportFunc i \<Rightarrow> (if m (export_name e) = None then m(export_name e \<mapsto> i) else m)
   | _ \<Rightarrow> m)"

definition build :: "(module_builder, parsed_module) op" where
  "build b = (Inr \<lparr>module_functions = mb_functions b,
                   exported_functions = fold emplace_export (mb_exports b) Map.empty\<rparr>,
              b\<lparr>mb_functions := []\<rparr>)"

definition parse_module :: "(byte_stream, parsed_module) op" where
  "parse_module s = (case seq builder_parse (\<lambda>_. on_fst build) (new_builder, s) of
     (r, (_, s')) \<Rightarrow> (r, s'))"

end
