(* ===== verification/Wasm_Exec.thy ===== *)
theory Wasm_Exec
  imports Wasm_Typing
begin

text \<open>
  Execution of bodies without control transfer, as WebAssembly defines it, and the two promises
  of the validator's documentation (parser/validator.h): the stack is never popped when it is
  empty, and the computed maxima bound what the function uses at run time.
\<close>

section \<open>Execution\<close>

text \<open>A state holds the locals and the operand stack, top first. \<open>None\<close> is a stuck state.\<close>

type_synonym exec_state = "u32 list \<times> u32 list"

fun exec_instr :: "instruction \<Rightarrow> exec_state \<Rightarrow> exec_state option" where
  "exec_instr (ConstI32 v) (ls, st) = Some (ls, as_U32 v # st)"
| "exec_instr AddI32 (ls, b # a # st) = Some (ls, (a + b) # st)"
| "exec_instr (GetLocalI32 i) (ls, st) = (if i < length ls then Some (ls, ls ! i # st) else None)"
| "exec_instr (SetLocalI32 i) (ls, a # st) =
     (if i < length ls then Some (ls[i := a], st) else None)"
| "exec_instr _ _ = None"

fun exec :: "instruction list \<Rightarrow> exec_state \<Rightarrow> exec_state option" where
  "exec [] s = Some s"
| "exec (i # is) s = (if i = Return then Some s else Option.bind (exec_instr i s) (exec is))"

text \<open>The greatest height of the operand stack while a body runs.\<close>

fun peak :: "instruction list \<Rightarrow> exec_state \<Rightarrow> nat" where
  "peak [] s = length (snd s)"
| "peak (i # is) s =
     (if i = Return then length (snd s)
      else max (length (snd s)) (case exec_instr i s of None \<Rightarrow> 0 | Some s' \<Rightarrow> peak is s'))"

section \<open>The maxima never decrease\<close>

definition grows :: "validator \<Rightarrow> validator \<Rightarrow> bool" where
  "grows v v' \<longleftrightarrow>
     v_max_stack_size v \<le> v_max_stack_size v' \<and> v_max_memory_usage v \<le> v_max_memory_usage v'"

interpretation grows: frame grows
  by unfold_locales (auto simp: grows_def)

definition same_max :: "validator \<Rightarrow> validator \<Rightarrow> bool" where
  "same_max v v' \<longleftrightarrow>
     v_max_stack_size v' = v_max_stack_size v \<and> v_max_memory_usage v' = v_max_memory_usage v"

interpretation same_max: frame same_max
  by unfold_locales (auto simp: same_max_def)

lemma grows_pop: "keeps grows (pop t)"
  by (rule keepsI) (auto simp: grows_def pop_def pop_actual_def Let_def split: if_splits)

lemma grows_push: "keeps grows (push t)"
  by (rule keepsI) (auto simp: grows_def push_def Let_def)

lemma grows_assert: "keeps grows assert_empty" "keeps grows (assert_local i t)"
  by (rule keepsI; auto simp: grows_def assert_empty_def assert_local_def split: if_splits)+

lemma grows_pop_returns: "keeps grows pop_returns"
proof (rule keepsI)
  fix v r v' assume "pop_returns v = (r, v')"
  then show "grows v v'"
    unfolding pop_returns_def by (rule keepsD [OF grows.keeps_for_each [OF grows_pop]])
qed

lemma grows_op: "keeps grows (validate_op i)"
  by (cases i; simp only: validate_op.simps;
      intro grows.keeps_seq grows.keeps_ret grows.keeps_modify grows_pop grows_push grows_assert
        grows_pop_returns; simp add: grows_def)

lemma grows_finalize: "keeps grows finalize"
  unfolding finalize_def by (intro grows.keeps_seq grows_pop_returns grows_assert)

lemma grows_validate: "keeps grows (validate is)"
  unfolding validate_def by (intro grows.keeps_seq grows.keeps_for_each grows_op grows_finalize)

section \<open>Validator and execution in step\<close>

text \<open>
  In reachable code the validator's stack has the height of the operand stack and holds
  \<open>i32\<close>s only, its memory account is four bytes for each, and the maximum in bytes is four times
  the maximum height.
\<close>

definition in_step :: "validator \<Rightarrow> exec_state \<Rightarrow> bool" where
  "in_step v s \<longleftrightarrow>
     \<not> v_unreachable v \<and>
     v_underlying v = replicate (length (snd s)) (Known kI32) \<and>
     length (fst s) = length (v_locals v) \<and>
     v_current_memory_usage v = of_nat (4 * length (snd s)) \<and>
     length (snd s) \<le> v_max_stack_size v \<and> v_max_stack_size v < 2 ^ 61 \<and>
     v_max_memory_usage v = of_nat (4 * v_max_stack_size v)"

lemma max_of_nat_u64:
  "a < 2 ^ 64 \<Longrightarrow> b < 2 ^ 64 \<Longrightarrow> max (of_nat a :: u64) (of_nat b) = of_nat (max a b)"
  by (auto simp: max_def word_le_nat_alt)

lemma in_step_push:
  assumes "in_step v (ls, st)" and "length st + 1 < 2 ^ 61"
  shows "\<exists>v'. push (Known kI32) v = (Inr (), v') \<and> in_step v' (ls, a # st) \<and>
    v_returns v' = v_returns v \<and> v_max_stack_size v' = max (v_max_stack_size v) (Suc (length st))"
proof -
  have "max (of_nat (4 * v_max_stack_size v) :: u64) (of_nat (4 * length st + 4))
      = of_nat (max (4 * v_max_stack_size v) (4 * length st + 4))"
    by (rule max_of_nat_u64) (use assms in \<open>auto simp: in_step_def\<close>)
  also have "max (4 * v_max_stack_size v) (4 * length st + 4)
      = 4 * max (v_max_stack_size v) (Suc (length st))" by (simp add: max_def)
  finally show ?thesis
    using assms by (simp add: in_step_def push_def Let_def replicate_append_same add.commute)
qed

lemma Cons_butlast_replicate: "0 < n \<Longrightarrow> x # butlast (replicate n x) = replicate n x"
  by (cases n) (simp_all add: replicate_append_same [symmetric])

lemma in_step_pop:
  "in_step v (ls, st) \<Longrightarrow> pop (Known kI32) v = (Inr (), v1) \<Longrightarrow>
     \<exists>a st'. st = a # st' \<and> in_step v1 (ls, st') \<and> v_returns v1 = v_returns v \<and>
       v_max_stack_size v1 = v_max_stack_size v"
  by (cases st)
    (auto simp: in_step_def pop_def pop_actual_def Let_def Cons_butlast_replicate split: if_splits)

lemma in_step_local:
  "in_step v (ls, st) \<Longrightarrow> assert_local i t v = (Inr (), v1) \<Longrightarrow> v1 = v \<and> i < length ls"
  by (auto simp: in_step_def assert_local_def split: if_splits)

lemma in_step_op:
  assumes "in_step v (ls, st)" and "validate_op i v = (Inr (), v1)" and "straight i"
    and "i \<noteq> Return" and "length st + 1 < 2 ^ 61"
  shows "\<exists>ls' st'. exec_instr i (ls, st) = Some (ls', st') \<and> in_step v1 (ls', st') \<and>
    length ls' = length ls \<and>
    length st' \<le> length st + 1 \<and> v_returns v1 = v_returns v \<and>
    v_max_stack_size v1 = max (v_max_stack_size v) (length st')"
proof (cases i)
  case (ConstI32 x)
  with assms show ?thesis
    using in_step_push [OF assms(1), of "as_U32 x"] by auto
next
  case AddI32
  with assms obtain v2 v3 where 2: "pop (Known kI32) v = (Inr (), v2)"
    and 3: "pop (Known kI32) v2 = (Inr (), v3)" and 4: "push (Known kI32) v3 = (Inr (), v1)"
    by auto
  from in_step_pop [OF assms(1) 2] obtain b st2 where b: "st = b # st2" "in_step v2 (ls, st2)"
    "v_returns v2 = v_returns v" "v_max_stack_size v2 = v_max_stack_size v" by blast
  from in_step_pop [OF b(2) 3] obtain a st3 where a: "st2 = a # st3" "in_step v3 (ls, st3)"
    "v_returns v3 = v_returns v2" "v_max_stack_size v3 = v_max_stack_size v2" by blast
  from in_step_push [OF a(2), of "a + b"] 4 assms(5) a b AddI32 show ?thesis by auto
next
  case (GetLocalI32 n)
  with assms obtain v2 where 2: "assert_local n kI32 v = (Inr (), v2)"
    and 3: "push (Known kI32) v2 = (Inr (), v1)" by auto
  from in_step_local [OF assms(1) 2] have "v2 = v" "n < length ls" by auto
  with in_step_push [OF assms(1), of "ls ! n"] 3 assms(5) GetLocalI32 show ?thesis by auto
next
  case (SetLocalI32 n)
  with assms obtain v2 where 2: "pop (Known kI32) v = (Inr (), v2)"
    and 3: "assert_local n kI32 v2 = (Inr (), v1)" by auto
  from in_step_pop [OF assms(1) 2] obtain a st2 where a: "st = a # st2" "in_step v2 (ls, st2)"
    "v_returns v2 = v_returns v" "v_max_stack_size v2 = v_max_stack_size v" by blast
  from in_step_local [OF a(2) 3] have "v1 = v2" "n < length ls" by auto
  with a assms(1) SetLocalI32 show ?thesis by (auto simp: in_step_def)
qed (use assms in auto)

lemma in_step_returns:
  assumes "in_step v (ls, st)" and "pop_returns v = (Inr (), v1)"
    and "assert_empty v1 = (Inr (), v2)"
  shows "length st = length (v_returns v)"
proof -
  let ?n = "length st"
  have s: "vabs v (False, replicate ?n kI32)"
    using assms(1) by (simp add: vabs_def in_step_def)
  have "refines (v_locals v) (v_returns v) (seq pop_returns (\<lambda>_. assert_empty))
      (\<lambda>s. Option.bind (abs_pops (v_returns v) s) abs_empty)"
    by (rule refines_seq [OF refines_pop_returns refines_assert_empty])
  note refine = refines_NoneD [OF this refl refl s]
  have "Option.bind (abs_pops (v_returns v) (False, replicate ?n kI32)) abs_empty \<noteq> None"
    using refine assms(2,3) by (fastforce simp: seq_run_Inr)
  then have "stands_for (False, replicate ?n kI32) (v_returns v)"
    by (auto simp: abs_pops_exact [symmetric] abs_empty_def bind_eq_Some_conv split: if_splits)
  then show ?thesis by (auto simp: stands_for_def)
qed

lemma pops_max:
  assumes "pop_returns v = (r, v')"
  shows "v_max_stack_size v' = v_max_stack_size v \<and> v_max_memory_usage v' = v_max_memory_usage v"
proof -
  have pop: "keeps same_max (pop t)" for t
    by (rule keepsI) (auto simp: same_max_def pop_def pop_actual_def Let_def split: if_splits)
  have "same_max v v'"
    using assms unfolding pop_returns_def by (rule keepsD [OF same_max.keeps_for_each [OF pop]])
  then show ?thesis by (simp add: same_max_def)
qed

lemma finalize_max:
  "validate [] v = (Inr (), v') \<Longrightarrow>
     v_max_stack_size v' = v_max_stack_size v \<and> v_max_memory_usage v' = v_max_memory_usage v"
  by (auto simp: validate_def finalize_def assert_empty_def dest: pops_max split: if_splits elim!: seq_InrE)

lemma unat_mem: "n < 2 ^ 61 \<Longrightarrow> unat (4 * of_nat n :: u64) = 4 * n"
proof -
  assume "n < 2 ^ 61"
  then have "unat (of_nat (4 * n) :: u64) = 4 * n" by (intro unat_of_nat_u64) simp
  then show ?thesis by simp
qed

lemma peak_ge: "length (snd s) \<le> peak is s"
  by (cases "is") auto

text \<open>What is claimed of a run from a state in step with the validator.\<close>

lemma validate_exec:
  assumes "validate is v = (Inr (), v')" and "list_all straight is" and "in_step v s"
    and "length (snd s) + length is < 2 ^ 61"
  shows "\<exists>ls' st'. exec is s = Some (ls', st') \<and> length ls' = length (fst s) \<and>
    length st' = length (v_returns v) \<and>
    peak is s \<le> v_max_stack_size v' \<and>
    4 * peak is s \<le> unat (v_max_memory_usage v') \<and>
    (Return \<notin> set (butlast is) \<longrightarrow> v_max_stack_size v' = max (v_max_stack_size v) (peak is s) \<and>
       unat (v_max_memory_usage v') = 4 * v_max_stack_size v')"
  using assms
proof (induction "is" arbitrary: v s)
  case Nil
  obtain ls st where s: "s = (ls, st)" by fastforce
  from Nil.prems(1) obtain v1 where 1: "pop_returns v = (Inr (), v1)"
    and 2: "assert_empty v1 = (Inr (), v')"
    by (auto simp: validate_def finalize_def)
  have max: "v_max_stack_size v' = v_max_stack_size v" "v_max_memory_usage v' = v_max_memory_usage v"
    using finalize_max [OF Nil.prems(1)] by simp_all
  have "length st = length (v_returns v)"
    using in_step_returns [of v ls st] Nil.prems(3) 1 2 s by blast
  then show ?case
    using Nil.prems(3) by (auto simp: s max in_step_def unat_mem max_def)
next
  case (Cons i "is")
  obtain ls st where s: "s = (ls, st)" by fastforce
  from Cons.prems(1) obtain v1 where 1: "validate_op i v = (Inr (), v1)"
    and 2: "validate is v1 = (Inr (), v')"
    unfolding validate_Cons by (metis seq_InrE old.unit.exhaust)
  show ?case
  proof (cases "i = Return")
    case True
    with 1 obtain v2 v3 where 3: "pop_returns v = (Inr (), v2)" "assert_empty v2 = (Inr (), v3)"
      by auto
    have "grows v v'"
      using Cons.prems(1) by (rule keepsD [OF grows_validate])
    then have "4 * length st \<le> unat (v_max_memory_usage v')" "length st \<le> v_max_stack_size v'"
      using Cons.prems(3) by (auto simp: s grows_def in_step_def word_le_nat_alt unat_mem)
    moreover have "v_max_stack_size v' = v_max_stack_size v \<and> v_max_memory_usage v' = v_max_memory_usage v"
      if "is = []"
    proof -
      have "v_max_stack_size v1 = v_max_stack_size v \<and> v_max_memory_usage v1 = v_max_memory_usage v"
        using 1 True 3 pops_max [OF 3(1)] by (auto simp: assert_empty_def seq_run_Inr split: if_splits)
      moreover have "v_max_stack_size v' = v_max_stack_size v1 \<and> v_max_memory_usage v' = v_max_memory_usage v1"
        using 2 that by (auto simp: finalize_max)
      ultimately show ?thesis by simp
    qed
    moreover have "length st \<le> v_max_stack_size v" "unat (v_max_memory_usage v) = 4 * v_max_stack_size v"
      using Cons.prems(3) by (simp_all add: in_step_def s unat_mem)
    ultimately show ?thesis
      using in_step_returns [of v ls st] Cons.prems(3) 3 by (auto simp: s True max_def)
  next
    case False
    obtain ls' st' where e: "exec_instr i s = Some (ls', st')" "in_step v1 (ls', st')"
      "length ls' = length ls" "length st' \<le> length st + 1" "v_returns v1 = v_returns v"
      "v_max_stack_size v1 = max (v_max_stack_size v) (length st')"
      using in_step_op [of v ls st i v1] Cons.prems 1 False s by auto
    have "length (snd (ls', st')) + length is < 2 ^ 61"
      using e(4) Cons.prems(4) by (simp add: s)
    from Cons.IH [OF 2 _ e(2) this] Cons.prems(2)
    obtain ls2 st2 where IH: "exec is (ls', st') = Some (ls2, st2)" "length ls2 = length ls'"
      "length st2 = length (v_returns v1)" "peak is (ls', st') \<le> v_max_stack_size v'"
      "4 * peak is (ls', st') \<le> unat (v_max_memory_usage v')"
      "Return \<notin> set (butlast is) \<Longrightarrow> v_max_stack_size v' = max (v_max_stack_size v1) (peak is (ls', st'))"
      "Return \<notin> set (butlast is) \<Longrightarrow> unat (v_max_memory_usage v') = 4 * v_max_stack_size v'"
      by auto
    have "grows v v'"
      using Cons.prems(1) by (rule keepsD [OF grows_validate])
    then have "4 * length st \<le> unat (v_max_memory_usage v')" "length st \<le> v_max_stack_size v'"
      using Cons.prems(3) by (auto simp: s grows_def in_step_def word_le_nat_alt unat_mem)
    moreover have "length st' \<le> peak is (ls', st')" by (rule peak_ge [of "(ls', st')", simplified])
    moreover have "length st \<le> v_max_stack_size v"
      using Cons.prems(3) by (simp add: in_step_def s)
    moreover have "Return \<notin> set (butlast (i # is)) \<Longrightarrow> Return \<notin> set (butlast is)"
      by (cases "is") auto
    ultimately show ?thesis
      using IH e False by (auto simp: s max_def)
  qed
qed

lemma in_step_new:
  "length vs = length (parameter_types ft @ ls) \<Longrightarrow> in_step (new_validator ft ls) (vs, [])"
  by (simp add: in_step_def new_validator_def)

lemmas validate_exec_new =
  validate_exec [where v = "new_validator ft ls" and s = "(vs, [])" for ft ls vs,
    OF _ _ in_step_new, unfolded new_validator_context fst_conv snd_conv]

section \<open>What validation promises\<close>







end
