(* ===== verification/Parser_Safety.thy ===== *)
theory Parser_Safety
  imports Module_Parser Wasm_Exec
begin

text \<open>
  What a module that \<open>ParseModule\<close> returns is known to satisfy: the limits of the implementation,
  indices in range, distinct exported names, and bodies that the validator accepted together with
  their maxima. The proofs go through an invariant of \<open>ModuleBuilder\<close>.
\<close>

section \<open>Bodies\<close>

text \<open>What the emitter did between two states: it appended instructions, each after the
  validator had accepted it.\<close>

definition emitted :: "'t \<times> op_emitter \<Rightarrow> 't \<times> op_emitter \<Rightarrow> bool" where
  "emitted st st' \<longleftrightarrow>
     (\<exists>is. op_instructions (snd st') = op_instructions (snd st) @ is \<and>
        for_each validate_op is (op_validator (snd st)) = (Inr (), op_validator (snd st')))"

lemma emitted_refl: "emitted st st"
  by (auto simp: emitted_def intro: exI [of _ "[]"])

lemma emitted_trans: "emitted st st' \<Longrightarrow> emitted st' st'' \<Longrightarrow> emitted st st''"
  unfolding emitted_def by (metis append.assoc for_each_append seq_run_Inr)

interpretation emitted: frame emitted
  by unfold_locales (rule emitted_refl, erule (1) emitted_trans)

lemma leads_emit: "leads emitted (on_snd (emit i))"
  by (rule leadsI)
    (auto simp: emitted_def on_snd_def emit_def seq_run_Inr intro!: exI [of _ "[i]"]
      split: prod.splits sum.splits)

lemma leads_stream: "leads emitted (on_fst m)"
  by (rule leadsI) (auto simp: on_fst_def emitted_def intro!: exI [of _ "[]"] split: prod.splits)

lemma leads_parse_opcode: "leads emitted (parse_opcode opcode)"
  unfolding parse_opcode_def
  by (intro leads_if leads_throw emitted.leads_seq leads_emit leads_stream)

lemma leads_parse_opcodes: "leads emitted parse_opcodes"
proof (rule leadsI)
  fix st u st' assume "parse_opcodes st = (Inr u, st')"
  then show "emitted st st'"
  proof (induction st arbitrary: st' rule: parse_opcodes.induct)
    case (1 st)
    then obtain opcode st1 where 2: "on_fst read_byte st = (Inr opcode, st1)"
      and 3: "(if opcode = 0x0B then ret () st1
        else seq (parse_opcode opcode) (\<lambda>_ st2. parse_opcodes st2) st1) = (Inr u, st')"
      unfolding parse_opcodes.simps [of st] by blast
    have e1: "emitted st st1" by (rule leadsD [OF leads_stream 2])
    show ?case
    proof (cases "opcode = 0x0B")
      case True
      with 3 e1 show ?thesis by simp
    next
      case False
      with 3 obtain x st2 where 4: "parse_opcode opcode st1 = (Inr x, st2)"
        and 5: "parse_opcodes st2 = (Inr u, st')" by auto
      from leadsD [OF leads_parse_opcode 4] 1(1) [OF 2 False 4 5] e1
      show ?thesis by (blast intro: emitted_trans)
    qed
  qed
qed

lemma parse_expression_validates:
  assumes "parse_expression (s, v) = (Inr is, (s', v'))"
  shows "validate is v = (Inr (), v')"
proof -
  let ?e = "\<lparr>op_validator = v, op_instructions = []\<rparr>"
  obtain u s1 e1 e2 where 1: "parse_opcodes (s, ?e) = (Inr u, (s1, e1))"
    and 2: "on_snd emitter_finalize (s1, e1) = (Inr is, (s', e2))" and v': "v' = op_validator e2"
    using assms unfolding parse_expression_def by (auto split: prod.splits)
  from leadsD [OF leads_parse_opcodes 1]
  have "for_each validate_op (op_instructions e1) v = (Inr (), op_validator e1)"
    by (simp add: emitted_def)
  moreover from 2 have "is = op_instructions e1" "finalize (op_validator e1) = (Inr (), v')"
    by (auto simp: v' on_snd_def emitter_finalize_def split: prod.splits sum.splits)
  ultimately show ?thesis by (simp add: validate_def seq_run_Inr)
qed

section \<open>Well-formed functions\<close>

text \<open>A function that the function section has declared.\<close>

definition declared :: "wasm_function \<Rightarrow> bool" where
  "declared f \<longleftrightarrow> (\<exists>ft. f = new_function ft \<and> signature_ok ft)"

text \<open>A function that the code section has completed.\<close>

definition completed :: "wasm_function \<Rightarrow> bool" where
  "completed f \<longleftrightarrow> signature_ok (signature (meta f)) \<and>
     length (locals (meta f)) \<le> MAX_FUNCTION_LOCALS \<and> list_all scalar (locals (meta f)) \<and>
     (\<exists>v. validate (body f) (new_validator (signature (meta f)) (locals (meta f))) = (Inr (), v) \<and>
        max_stack_size_bytes (meta f) = ucast (maximum_stack_size_bytes v) \<and>
        max_stack_elements (meta f) = of_nat (maximum_stack_elements v))"

text \<open>In between: the locals have been read, the body not yet.\<close>

definition with_locals :: "wasm_function \<Rightarrow> bool" where
  "with_locals f \<longleftrightarrow> signature_ok (signature (meta f)) \<and>
     length (locals (meta f)) \<le> MAX_FUNCTION_LOCALS \<and> list_all scalar (locals (meta f))"

lemma declared_with_locals: "declared f \<Longrightarrow> with_locals f"
  by (auto simp: declared_def with_locals_def new_function_def)

text \<open>
  \<open>builds P m Q\<close>: a Hoare triple over the part of the state beside the stream. An exception
  promises nothing.
\<close>

definition builds :: "('t \<Rightarrow> bool) \<Rightarrow> ('t \<times> byte_stream, 'a) op \<Rightarrow> ('a \<Rightarrow> 't \<Rightarrow> bool) \<Rightarrow> bool" where
  "builds P m Q \<longleftrightarrow> triple (\<lambda>st. P (fst st)) m (\<lambda>x st. Q x (fst st)) (\<lambda>_ _. True)"

lemma buildsI: "(\<And>b s x b' s'. P b \<Longrightarrow> m (b, s) = (Inr x, (b', s')) \<Longrightarrow> Q x b') \<Longrightarrow> builds P m Q"
  by (auto simp: builds_def triple_def)

lemma buildsD: "builds P m Q \<Longrightarrow> P b \<Longrightarrow> m (b, s) = (Inr x, (b', s')) \<Longrightarrow> Q x b'"
  by (force simp: builds_def triple_def)

lemma builds_seq: "builds P m R \<Longrightarrow> (\<And>x. builds (R x) (f x) Q) \<Longrightarrow> builds P (seq m f) Q"
  unfolding builds_def by (rule triple_seq)

lemma builds_ret: "(\<And>b. P b \<Longrightarrow> Q x b) \<Longrightarrow> builds P (ret x) Q"
  unfolding builds_def by (rule triple_ret)

lemma builds_throw: "builds P (throw e) Q"
  unfolding builds_def by (rule triple_throw) simp

lemma builds_if:
  "(c \<Longrightarrow> builds P m Q) \<Longrightarrow> (\<not> c \<Longrightarrow> builds P m' Q) \<Longrightarrow> builds P (if c then m else m') Q"
  by simp

lemma builds_weaken:
  "builds P m Q \<Longrightarrow> (\<And>b. P' b \<Longrightarrow> P b) \<Longrightarrow> (\<And>x b. Q x b \<Longrightarrow> Q' x b) \<Longrightarrow> builds P' m Q'"
  unfolding builds_def by (rule triple_weaken)

lemma builds_stream: "yields m Y \<Longrightarrow> builds P (on_snd m) (\<lambda>x b. P b \<and> Y x)"
  by (rule buildsI) (auto simp: on_snd_def dest: yieldsD split: prod.splits)

lemma builds_stream_any: "builds P (on_snd m) (\<lambda>x. P)"
  using builds_stream [OF yields_any, of P m] by simp

lemma builds_gets: "builds P (gets (f \<circ> fst)) (\<lambda>x b. P b \<and> x = f b)"
  by (rule buildsI) auto

lemmas builds_gets_size = builds_gets [where f = "length \<circ> locals \<circ> meta", unfolded o_assoc]

lemma builds_modify: "(\<And>b. P b \<Longrightarrow> Q () (f b)) \<Longrightarrow> builds P (on_fst (modify f)) Q"
  by (rule buildsI) (auto simp: on_fst_def)

lemma builds_in_range:
  "builds P (validate_in_range msg idx v) (\<lambda>_ b. P b \<and> unat idx < length v)"
  unfolding validate_in_range_def by (intro builds_if builds_throw builds_ret) auto

lemma builds_count:
  assumes "\<And>i. i < n \<Longrightarrow> builds (P i) m (\<lambda>_. P (Suc i))"
  shows "builds (P 0) (repeat_op n m) (\<lambda>_. P n)"
  using assms unfolding builds_def by (rule triple_repeat_count)

lemma builds_repeat: "builds P m (\<lambda>_. P) \<Longrightarrow> builds P (repeat_op n m) (\<lambda>_. P)"
  unfolding builds_def by (rule triple_repeat)

text \<open>A section that is a vector: its length is checked, and each element is appended.\<close>

lemma builds_vector:
  assumes "\<And>i. i < k \<Longrightarrow> builds (\<lambda>b. P b \<and> length (xs b) = i) m (\<lambda>_ b. P b \<and> length (xs b) = Suc i)"
  shows "builds (\<lambda>b. P b \<and> xs b = [])
     (seq (on_snd decode_u32) (\<lambda>n. if k < unat n then throw (e n) else repeat_op (unat n) m))
     (\<lambda>_ b. P b \<and> length (xs b) \<le> k)"
proof (rule builds_seq [OF builds_stream_any], rule builds_if [OF builds_throw])
  fix n :: u32 assume n: "\<not> k < unat n"
  have "builds (\<lambda>b. P b \<and> length (xs b) = 0) (repeat_op (unat n) m)
      (\<lambda>_ b. P b \<and> length (xs b) = unat n)"
    by (rule builds_count) (use assms n in auto)
  then show "builds (\<lambda>b. P b \<and> xs b = []) (repeat_op (unat n) m)
      (\<lambda>_ b. P b \<and> length (xs b) \<le> k)"
    by (rule builds_weaken) (use n in auto)
qed

section \<open>One function body\<close>

lemma builds_parse_locals_group: "builds with_locals parse_locals_group (\<lambda>_. with_locals)"
  unfolding parse_locals_group_def
  by (rule builds_seq [OF builds_stream_any], rule builds_seq [OF builds_gets_size],
      rule builds_if [OF builds_throw], rule builds_seq [OF builds_stream [OF yields_val_type]],
      rule builds_modify) (auto simp: with_locals_def add_locals_def list_all_iff)

lemma builds_parse_body: "builds with_locals parse_body (\<lambda>_. completed)"
proof (rule buildsI)
  fix f s x f' s' assume f: "with_locals f" and "parse_body (f, s) = (Inr x, (f', s'))"
  then obtain "is" v where
    1: "parse_expression (s, new_validator (signature (meta f)) (locals (meta f))) = (Inr is, (s', v))"
    and f': "f' = f\<lparr>body := is,
        meta := (meta f)\<lparr>max_stack_size_bytes := ucast (maximum_stack_size_bytes v),
                         max_stack_elements := of_nat (maximum_stack_elements v)\<rparr>\<rparr>"
    by (auto simp: parse_body_def split: prod.splits sum.splits)
  from parse_expression_validates [OF 1] f show "completed f'"
    unfolding completed_def with_locals_def by (auto simp: f')
qed

lemma builds_parse_one_code: "builds declared parse_one_code (\<lambda>_. completed)"
proof (rule builds_weaken [OF _ declared_with_locals])
  show "builds with_locals parse_one_code (\<lambda>_. completed)"
    unfolding parse_one_code_def Let_def
    by (rule builds_seq [OF builds_stream_any] builds_seq [OF builds_repeat]
        builds_seq [OF builds_parse_body] builds_parse_locals_group
        builds_if builds_throw builds_ret | assumption)+
qed

lemma completed_signature: "completed f \<Longrightarrow> signature_ok (signature (meta f))"
  by (simp add: completed_def)

lemma declared_signature: "declared f \<Longrightarrow> signature_ok (signature (meta f))"
  by (auto simp: declared_def new_function_def)

section \<open>What the parsers of elements return\<close>

lemma yields_name: "yields parse_name name_ok"
  unfolding parse_name_def
  by (rule yields_seq [OF yields_any], rule yields_if [OF yields_throw],
      rule yields_mono [OF read_bytes_length]) (simp_all add: max_defs name_ok_def)

lemma yields_signature_types:
  "k < 2 ^ 32 \<Longrightarrow> yields (parse_signature_types k) (\<lambda>ts. length ts \<le> k \<and> list_all scalar ts)"
  unfolding parse_signature_types_def
  by (rule yields_seq [OF yields_any], rule yields_if [OF yields_throw],
      rule yields_mono [OF yields_collect [OF yields_val_type]]) auto

lemma yields_signature: "yields parse_signature signature_ok"
  unfolding parse_signature_def
  by (rule yields_seq [OF yields_any], rule yields_if [OF yields_throw],
      rule yields_seq [OF yields_signature_types], simp add: max_defs,
      rule yields_seq [OF yields_signature_types], simp add: max_defs,
      rule yields_ret) (simp add: signature_ok_def)

lemma yields_table_type: "yields parse_table_type table_type_ok"
  unfolding parse_table_type_def
  by (intro yields_step) (auto simp: table_type_ok_def)

lemma yields_table: "yields parse_table (table_type_ok \<circ> table_type)"
  unfolding parse_table_def
  by (rule yields_seq [OF yields_table_type], rule yields_ret) simp

lemma yields_global_type: "yields parse_global_type global_type_ok"
  unfolding parse_global_type_def
  by (rule yields_seq [OF yields_val_type], intro yields_step) (simp add: global_type_ok_def)

lemma yields_global: "yields parse_global (global_type_ok \<circ> global_type)"
  unfolding parse_global_def
  by (rule yields_seq [OF yields_global_type], intro yields_step) simp

section \<open>The invariant of the builder\<close>

definition import_ok :: "block_type list \<Rightarrow> module_import \<Rightarrow> bool" where
  "import_ok sigs i \<longleftrightarrow> name_ok (import_module_name i) \<and> name_ok (import_name i) \<and>
     (case import_desc i of
        ImportFunc t \<Rightarrow> unat t < length sigs
      | ImportTable t \<Rightarrow> table_type_ok t
      | ImportMem m \<Rightarrow> True
      | ImportGlobal g \<Rightarrow> global_type_ok g)"

definition export_ok :: "module_builder \<Rightarrow> module_export \<Rightarrow> bool" where
  "export_ok b e \<longleftrightarrow> name_ok (export_name e) \<and>
     (case export_desc e of
        ExportFunc i \<Rightarrow> unat i < length (mb_functions b)
      | ExportTable i \<Rightarrow> unat i < length (mb_tables b)
      | ExportMem i \<Rightarrow> unat i < length (mb_memories b)
      | ExportGlobal i \<Rightarrow> unat i < length (mb_globals b))"

text \<open>Limits and ranges; the content of the functions is in \<open>progress_ok\<close>.\<close>

definition shape :: "module_builder \<Rightarrow> bool" where
  "shape b \<longleftrightarrow>
     length (mb_func_signatures b) \<le> kMaxFunctionSignatures \<and>
     list_all signature_ok (mb_func_signatures b) \<and>
     length (mb_imports b) \<le> kMaxImports \<and>
     list_all (import_ok (mb_func_signatures b)) (mb_imports b) \<and>
     length (mb_functions b) \<le> MAX_FUNCTIONS \<and>
     length (mb_tables b) \<le> kMaxTables \<and>
     list_all (table_type_ok \<circ> table_type) (mb_tables b) \<and>
     length (mb_memories b) \<le> kMaxMemories \<and>
     length (mb_globals b) \<le> kMaxGlobals \<and>
     list_all (global_type_ok \<circ> global_type) (mb_globals b) \<and>
     length (mb_exports b) \<le> kMaxExports \<and>
     list_all (export_ok b) (mb_exports b) \<and>
     distinct (map export_name (mb_exports b)) \<and>
     (\<forall>i. mb_start b = Some i \<longrightarrow> unat i < length (mb_functions b))"

text \<open>What sections after the \<open>k\<close>-th have not touched yet.\<close>

definition untouched :: "nat \<Rightarrow> module_builder \<Rightarrow> bool" where
  "untouched k b \<longleftrightarrow>
     (k < 1 \<longrightarrow> mb_func_signatures b = []) \<and> (k < 2 \<longrightarrow> mb_imports b = []) \<and>
     (k < 3 \<longrightarrow> mb_functions b = []) \<and> (k < 4 \<longrightarrow> mb_tables b = []) \<and>
     (k < 5 \<longrightarrow> mb_memories b = []) \<and> (k < 6 \<longrightarrow> mb_globals b = []) \<and>
     (k < 7 \<longrightarrow> mb_exports b = []) \<and> (k < 8 \<longrightarrow> mb_start b = None)"

definition progress_ok :: "module_builder \<Rightarrow> bool" where
  "progress_ok b \<longleftrightarrow>
     (if latest_section_read b < 10 then list_all declared (mb_functions b)
      else list_all completed (mb_functions b))"

definition builder_ok :: "module_builder \<Rightarrow> bool" where
  "builder_ok b \<longleftrightarrow> shape b \<and> untouched (latest_section_read b) b \<and> progress_ok b \<and>
     latest_section_read b \<le> 10"

text \<open>The builder at the start of the section \<open>k\<close>, its order already checked.\<close>

definition at_section :: "nat \<Rightarrow> module_builder \<Rightarrow> bool" where
  "at_section k b \<longleftrightarrow> shape b \<and> untouched (k - 1) b \<and> list_all declared (mb_functions b) \<and>
     latest_section_read b = k"

text \<open>Inside the section \<open>k\<close>, which may change what it owns.\<close>

definition in_section :: "nat \<Rightarrow> module_builder \<Rightarrow> bool" where
  "in_section k b \<longleftrightarrow> shape b \<and> untouched k b \<and> list_all declared (mb_functions b) \<and>
     latest_section_read b = k"

lemmas builder_defs = in_section_def shape_def untouched_def

lemma export_ok_update [simp]:
  "export_ok (b\<lparr>mb_exports := es\<rparr>) = export_ok b"
  "export_ok (b\<lparr>mb_start := i\<rparr>) = export_ok b"
  "export_ok (b\<lparr>mb_functions := (mb_functions b)[j := f]\<rparr>) = export_ok b"
  by (simp_all add: export_ok_def fun_eq_iff split: export_description.split)

lemma untouched_mono: "untouched k b \<Longrightarrow> k \<le> k' \<Longrightarrow> untouched k' b"
  by (auto simp: untouched_def)

lemma at_section_in: "at_section k b \<Longrightarrow> in_section k b"
  by (auto simp: at_section_def in_section_def elim: untouched_mono)

lemma in_section_ok: "in_section k b \<Longrightarrow> k < 10 \<Longrightarrow> builder_ok b"
  by (auto simp: in_section_def builder_ok_def progress_ok_def)

lemma new_builder_ok: "builder_ok new_builder"
  by (simp add: builder_ok_def new_builder_def shape_def untouched_def progress_ok_def max_defs)

section \<open>Every section keeps the invariant\<close>

lemma section_signatures:
  "builds (\<lambda>b. in_section 1 b \<and> mb_func_signatures b = []) parse_signature_section
     (\<lambda>_. in_section 1)"
  unfolding parse_signature_section_def
  by (rule builds_weaken [OF builds_vector [where P = "in_section 1" and xs = mb_func_signatures]],
      rule builds_seq [OF builds_stream [OF yields_signature]], rule builds_modify)
    (auto simp: builder_defs max_defs)

lemma section_functions:
  "builds (\<lambda>b. in_section 3 b \<and> mb_functions b = []) parse_function_declaration_section
     (\<lambda>_. in_section 3)"
  unfolding parse_function_declaration_section_def
  by (rule builds_weaken [OF builds_vector [where P = "in_section 3" and xs = mb_functions]],
      rule builds_seq [OF builds_stream_any], rule builds_seq [OF builds_gets],
      rule builds_seq [OF builds_in_range], rule builds_modify)
    (auto simp: builder_defs max_defs declared_def list_all_iff)

lemma builds_import_desc:
  "builds P (parse_import_desc type)
     (\<lambda>desc b. P b \<and> (case desc of
        ImportFunc t \<Rightarrow> unat t < length (mb_func_signatures b)
      | ImportTable t \<Rightarrow> table_type_ok t
      | ImportMem m \<Rightarrow> True
      | ImportGlobal g \<Rightarrow> global_type_ok g))"
  unfolding parse_import_desc_def
  apply (intro builds_if builds_throw)
     apply (rule builds_seq [OF builds_stream_any], rule builds_seq [OF builds_gets],
      rule builds_seq [OF builds_in_range], rule builds_ret, simp)
    apply (rule builds_seq [OF builds_stream [OF yields_table_type]], rule builds_ret, simp)
   apply (rule builds_seq [OF builds_stream_any], rule builds_ret, simp)
  apply (rule builds_seq [OF builds_stream [OF yields_global_type]], rule builds_ret, simp)
  done

lemma builds_one_import:
  "builds P parse_one_import (\<lambda>i b. P b \<and> import_ok (mb_func_signatures b) i)"
  unfolding parse_one_import_def
  by (rule builds_seq [OF builds_stream [OF yields_name]],
      rule builds_seq [OF builds_stream [OF yields_name]],
      rule builds_seq [OF builds_stream_any], rule builds_seq [OF builds_import_desc],
      rule builds_ret) (auto simp: import_ok_def)

lemma section_imports:
  "builds (\<lambda>b. in_section 2 b \<and> mb_imports b = []) parse_import_section (\<lambda>_. in_section 2)"
  unfolding parse_import_section_def
  by (rule builds_weaken [OF builds_vector [where P = "in_section 2" and xs = mb_imports]],
      rule builds_seq [OF builds_one_import], rule builds_modify)
    (auto simp: builder_defs max_defs)

lemma section_tables:
  "builds (\<lambda>b. in_section 4 b \<and> mb_tables b = []) parse_table_section (\<lambda>_. in_section 4)"
  unfolding parse_table_section_def
  by (rule builds_weaken [OF builds_vector [where P = "in_section 4" and xs = mb_tables]],
      rule builds_seq [OF builds_stream [OF yields_table]], rule builds_modify)
    (auto simp: builder_defs max_defs)

lemma section_memories:
  "builds (\<lambda>b. in_section 5 b \<and> mb_memories b = []) parse_memories_section (\<lambda>_. in_section 5)"
  unfolding parse_memories_section_def
  by (rule builds_weaken [OF builds_vector [where P = "in_section 5" and xs = mb_memories]],
      rule builds_seq [OF builds_stream_any], rule builds_modify)
    (auto simp: builder_defs max_defs)

lemma section_globals:
  "builds (\<lambda>b. in_section 6 b \<and> mb_globals b = []) parse_globals_section (\<lambda>_. in_section 6)"
  unfolding parse_globals_section_def
  by (rule builds_weaken [OF builds_vector [where P = "in_section 6" and xs = mb_globals]],
      rule builds_seq [OF builds_stream [OF yields_global]], rule builds_modify)
    (auto simp: builder_defs max_defs)

lemma builds_export_desc:
  "builds P (parse_export_desc type)
     (\<lambda>desc b. P b \<and> (case desc of
        ExportFunc i \<Rightarrow> unat i < length (mb_functions b)
      | ExportTable i \<Rightarrow> unat i < length (mb_tables b)
      | ExportMem i \<Rightarrow> unat i < length (mb_memories b)
      | ExportGlobal i \<Rightarrow> unat i < length (mb_globals b)))"
  unfolding parse_export_desc_def
  by (intro builds_if builds_throw;
      rule builds_seq [OF builds_stream_any], rule builds_seq [OF builds_gets],
      rule builds_seq [OF builds_in_range], rule builds_ret, simp)

lemma builds_one_export: "builds P parse_one_export (\<lambda>e b. P b \<and> export_ok b e)"
  unfolding parse_one_export_def
  by (rule builds_seq [OF builds_stream [OF yields_name]],
      rule builds_seq [OF builds_stream_any], rule builds_seq [OF builds_export_desc],
      rule builds_ret) (auto simp: export_ok_def)

text \<open>Adding an export changes nothing that the exports refer to.\<close>

lemma in_section_export:
  assumes "in_section 7 b" and "export_ok b e" and "length (mb_exports b) < kMaxExports"
    and "export_name e \<notin> set (map export_name (mb_exports b))"
  shows "in_section 7 (b\<lparr>mb_exports := mb_exports b @ [e]\<rparr>)"
  using assms by (auto simp: builder_defs)

lemma builds_exports:
  "builds (\<lambda>b. in_section 7 b \<and> names = map export_name (mb_exports b) \<and>
       length (mb_exports b) + n \<le> kMaxExports)
     (parse_exports n names) (\<lambda>_. in_section 7)"
proof (induction n arbitrary: names)
  case 0
  show ?case unfolding parse_exports.simps by (rule builds_ret) simp
next
  case (Suc n)
  have "builds (\<lambda>b. (in_section 7 b \<and> names = map export_name (mb_exports b) \<and>
        length (mb_exports b) + Suc n \<le> kMaxExports) \<and> export_ok b e)
      (seq (on_fst (modify (\<lambda>b. b\<lparr>mb_exports := mb_exports b @ [e]\<rparr>))) (\<lambda>_.
         if export_name e \<in> set names
         then throw (ParseException (DuplicateExportedName (export_name e)))
         else parse_exports n (names @ [export_name e]))) (\<lambda>_. in_section 7)" for e
  proof (rule builds_seq [where R = "\<lambda>_ b'. \<exists>b. b' = b\<lparr>mb_exports := mb_exports b @ [e]\<rparr> \<and>
        in_section 7 b \<and> export_ok b e \<and> names = map export_name (mb_exports b) \<and>
        length (mb_exports b) + Suc n \<le> kMaxExports"])
  qed (rule builds_modify, blast,
      rule builds_if [OF builds_throw], rule builds_weaken [OF Suc.IH], auto intro: in_section_export)
  then show ?case unfolding parse_exports.simps by (rule builds_seq [OF builds_one_export])
qed

lemma section_exports:
  "builds (\<lambda>b. in_section 7 b \<and> mb_exports b = []) parse_exports_section (\<lambda>_. in_section 7)"
  unfolding parse_exports_section_def
  by (rule builds_seq [OF builds_stream_any], rule builds_if [OF builds_throw],
      rule builds_weaken [OF builds_exports]) auto

lemma section_start: "builds (in_section 8) parse_start_section (\<lambda>_. in_section 8)"
  unfolding parse_start_section_def
  by (rule builds_seq [OF builds_stream_any], rule builds_seq [OF builds_gets],
      rule builds_seq [OF builds_in_range], rule builds_modify) (auto simp: builder_defs)

subsection \<open>The code section\<close>

definition code_until :: "nat \<Rightarrow> nat \<Rightarrow> module_builder \<Rightarrow> bool" where
  "code_until n i b \<longleftrightarrow> shape b \<and> latest_section_read b = 10 \<and> length (mb_functions b) = n \<and>
     (\<forall>j < n. if j < i then completed (mb_functions b ! j) else declared (mb_functions b ! j))"

lemma shape_update_function: "shape b \<Longrightarrow> shape (b\<lparr>mb_functions := (mb_functions b)[i := f]\<rparr>)"
  by (simp add: shape_def)

lemma builds_on_function:
  assumes "i < n"
  shows "builds (code_until n i) (on_function i parse_one_code) (\<lambda>_. code_until n (Suc i))"
proof (rule buildsI)
  fix b s x b' s' assume b: "code_until n i b" and "on_function i parse_one_code (b, s) = (Inr x, (b', s'))"
  then obtain f where f: "parse_one_code (mb_functions b ! i, s) = (Inr x, (f, s'))"
    and b': "b' = b\<lparr>mb_functions := (mb_functions b)[i := f]\<rparr>"
    by (auto simp: on_function_def split: prod.splits)
  have "declared (mb_functions b ! i)" using b assms by (simp add: code_until_def)
  with f have "completed f" by (blast intro: buildsD [OF builds_parse_one_code])
  with b assms show "code_until n (Suc i) b'"
    by (auto simp: code_until_def b' shape_update_function nth_list_update less_Suc_eq)
qed

lemma builds_code_loop:
  "i \<le> n \<Longrightarrow> builds (code_until n 0) (for_each (\<lambda>i. on_function i parse_one_code) [0..<i])
     (\<lambda>_. code_until n i)"
proof (induction i)
  case 0
  show ?case unfolding upt_0 for_each.simps by (rule builds_ret) simp
next
  case (Suc i)
  have "builds (code_until n i) (for_each (\<lambda>i. on_function i parse_one_code) [i])
      (\<lambda>_. code_until n (Suc i))"
    unfolding for_each.simps
    by (rule builds_seq [OF builds_on_function]) (use Suc.prems in \<open>auto intro: builds_ret\<close>)
  with Suc show ?case
    unfolding upt_Suc_append [OF le0] for_each_append by (blast intro: builds_seq Suc_leD)
qed

lemma section_code: "builds (in_section 10) parse_code_section (\<lambda>_. builder_ok)"
  unfolding parse_code_section_def o_assoc
proof (rule builds_seq [OF builds_stream_any], rule builds_seq [OF builds_gets],
    rule builds_if [OF builds_throw])
  fix k :: u32 and n assume n: "\<not> unat k \<noteq> n"
  show "builds (\<lambda>b. in_section 10 b \<and> n = (length \<circ> mb_functions) b)
      (for_each (\<lambda>i. on_function i parse_one_code) [0..<unat k]) (\<lambda>_. builder_ok)"
    unfolding n [simplified] by (rule builds_weaken [OF builds_code_loop [of n n]])
      (auto simp: code_until_def in_section_def builder_ok_def progress_ok_def untouched_def
        list_all_length)
qed

section \<open>Whole modules\<close>

lemma builds_check_order:
  "builds builder_ok (on_fst (check_section_order sid))
     (\<lambda>_ b. if sid = 0 then builder_ok b else at_section (unat sid) b \<or> 10 < unat sid)"
proof (rule buildsI)
  fix b s x b' s' assume b: "builder_ok b"
    and run: "on_fst (check_section_order sid) (b, s) = (Inr x, (b', s'))"
  show "if sid = 0 then builder_ok b' else at_section (unat sid) b' \<or> 10 < unat sid"
  proof (cases "sid = 0")
    case True
    with b run show ?thesis by (auto simp: on_fst_def check_section_order_def)
  next
    case False
    with run have less: "latest_section_read b < unat sid"
      and b': "b' = b\<lparr>latest_section_read := unat sid\<rparr>"
      by (auto simp: on_fst_def check_section_order_def split: if_splits)
    have e: "export_ok b' = export_ok b"
      by (simp add: b' export_ok_def fun_eq_iff split: export_description.split)
    from b less have "untouched (unat sid - 1) b"
      by (auto simp: builder_ok_def elim: untouched_mono)
    with b less e show ?thesis
      by (auto simp: False b' builder_ok_def at_section_def shape_def untouched_def progress_ok_def
          split: if_splits)
  qed
qed

lemma unat_section_id:
  "unat (1 :: u8) = 1" "unat (2 :: u8) = 2" "unat (3 :: u8) = 3" "unat (4 :: u8) = 4"
  "unat (5 :: u8) = 5" "unat (6 :: u8) = 6" "unat (7 :: u8) = 7" "unat (8 :: u8) = 8"
  "unat (9 :: u8) = 9" "unat (10 :: u8) = 10"
  by simp_all

lemma builds_section:
  "builds (\<lambda>b. if sid = 0 then builder_ok b else at_section (unat sid) b \<or> 10 < unat sid)
     (parse_section_body sid n) (\<lambda>_. builder_ok)"
  unfolding parse_section_body_def
proof (intro builds_if builds_throw; simp only: unat_section_id)
  show "builds (\<lambda>b. if (0 :: u8) = 0 then builder_ok b else at_section (unat (0 :: u8)) b \<or> 10 < unat (0 :: u8))
     (on_snd (skip (unat n))) (\<lambda>_. builder_ok)"
    by (rule builds_weaken [OF builds_stream_any]) simp_all
qed (rule builds_weaken [OF section_signatures] builds_weaken [OF section_imports]
     builds_weaken [OF section_functions] builds_weaken [OF section_tables]
     builds_weaken [OF section_memories] builds_weaken [OF section_globals]
     builds_weaken [OF section_exports] builds_weaken [OF section_start]
     builds_weaken [OF section_code];
    (auto dest: at_section_in simp: in_section_ok; simp add: at_section_def untouched_def))+

lemma builds_one_section: "builds builder_ok parse_one_section (\<lambda>_. builder_ok)"
  unfolding parse_one_section_def
  by (rule builds_seq [OF builds_stream_any], rule builds_seq [OF builds_check_order],
      rule builds_seq [OF builds_stream_any], rule builds_section)

lemma parse_sections_ok:
  "parse_sections st = (Inr u, st') \<Longrightarrow> builder_ok (fst st) \<Longrightarrow>
     builder_ok (fst st') \<and> \<not> has_remaining (snd st')"
proof (induction st arbitrary: st' rule: parse_sections.induct)
  case (1 st)
  show ?case
  proof (cases "has_remaining (snd st)")
    case True
    with 1(2) obtain x st1 where 2: "parse_one_section st = (Inr x, st1)"
      and 3: "parse_sections st1 = (Inr u, st')"
      by (auto simp: parse_sections.simps [of st])
    have "builder_ok (fst st1)"
      using buildsD [OF builds_one_section 1(3)] 2 by (metis prod.collapse)
    with 1(1) [OF True 2 3] show ?thesis by blast
  next
    case False
    with 1 show ?thesis by (auto simp: parse_sections.simps [of st])
  qed
qed

lemma parse_module_builder:
  assumes "parse_module s = (Inr m, s')"
  obtains b where "builder_ok b" and "\<not> has_remaining s'"
    and "module_functions m = mb_functions b"
    and "exported_functions m = fold emplace_export (mb_exports b) Map.empty"
proof -
  from assms obtain b2 where "seq builder_parse (\<lambda>_. on_fst build) (new_builder, s) = (Inr m, (b2, s'))"
    by (auto simp: parse_module_def split: prod.splits)
  then obtain u st1 where 1: "builder_parse (new_builder, s) = (Inr u, st1)"
    and 2: "on_fst build st1 = (Inr m, (b2, s'))" by blast
  from 1 obtain bs1 bs2 t1 t2 where "on_snd (read_bytes 4) (new_builder, s) = (Inr bs1, t1)"
    and "on_snd (read_bytes 4) t1 = (Inr bs2, t2)" and 3: "parse_sections t2 = (Inr u, st1)"
    unfolding builder_parse_def by (auto split: if_splits)
  then have "fst t2 = new_builder" by (auto simp: on_snd_def split: prod.splits)
  with parse_sections_ok [OF 3] new_builder_ok
  have "builder_ok (fst st1)" "\<not> has_remaining (snd st1)" by simp_all
  with 2 that [of "fst st1"] show ?thesis
    by (cases st1) (auto simp: on_fst_def build_def)
qed

lemma fold_emplace:
  "fold emplace_export es m n = Some i \<Longrightarrow>
     m n = Some i \<or> (\<exists>e \<in> set es. export_name e = n \<and> export_desc e = ExportFunc i)"
proof (induction es arbitrary: m)
  case (Cons e es)
  then have "emplace_export e m n = Some i \<or>
      (\<exists>e \<in> set es. export_name e = n \<and> export_desc e = ExportFunc i)" by simp
  then show ?case
    by (auto simp: emplace_export_def split: export_description.splits if_splits)
qed simp

lemma builder_ok_functions:
  "builder_ok b \<Longrightarrow> f \<in> set (mb_functions b) \<Longrightarrow> declared f \<or> completed f"
  by (auto simp: builder_ok_def progress_ok_def list_all_iff split: if_splits)

lemma dom_fold_emplace: "dom (fold emplace_export es m) \<subseteq> dom m \<union> export_name ` set es"
proof (induction es arbitrary: m)
  case (Cons e es)
  have "dom (emplace_export e m) \<subseteq> insert (export_name e) (dom m)"
    by (auto simp: emplace_export_def split: export_description.splits if_splits)
  with Cons [of "emplace_export e m"] show ?case by auto
qed simp

end
