(* ===== verification/Body_Encoding.thy ===== *)
theory Body_Encoding
  imports Parser_Safety
begin

text \<open>
  The encoder side of the parser, first part: operations on a builder that accept an encoding, and
  the binary format of function bodies and code entries, which \<open>ParseExpression\<close> and
  \<open>ParseOneCode\<close> invert.
\<close>

section \<open>Operations on a builder that accept an encoding\<close>

definition bparses ::
    "('t \<times> byte_stream, 'a) op \<Rightarrow> u8 list \<Rightarrow> 'a \<Rightarrow> 't \<Rightarrow> 't \<Rightarrow> bool" where
  "bparses m bs x b b' \<longleftrightarrow>
     (\<forall>s ts. stream_ok s \<and> remaining s = bs @ ts \<longrightarrow>
        m (b, s) = (Inr x, (b', advance (length bs) s)))"

lemma bparsesI:
  "(\<And>s ts. stream_ok s \<Longrightarrow> remaining s = bs @ ts \<Longrightarrow> m (b, s) = (Inr x, (b', advance (length bs) s)))
     \<Longrightarrow> bparses m bs x b b'"
  by (auto simp: bparses_def)

lemma bparsesD:
  "bparses m bs x b b' \<Longrightarrow> stream_ok s \<Longrightarrow> remaining s = bs @ ts \<Longrightarrow>
     m (b, s) = (Inr x, (b', advance (length bs) s))"
  by (auto simp: bparses_def)

lemma bparses_stream: "parses m bs x \<Longrightarrow> bparses (on_snd m) bs x b b"
  by (rule bparsesI) (auto simp: on_snd_run dest: parsesD)

lemma bparses_modify: "bparses (on_fst (modify f)) [] () b (f b)"
  by (rule bparsesI) (simp add: on_fst_run)

lemma bparses_gets: "bparses (gets (f \<circ> fst)) [] (f b) b b"
  by (rule bparsesI) simp

lemma bparses_ret: "bparses (ret x) [] x b b"
  by (rule bparsesI) simp

lemma bparses_seq:
  assumes m: "bparses m bs x b b1" and f: "bparses (f x) cs y b1 b2"
  shows "bparses (seq m f) (bs @ cs) y b b2"
proof (rule bparsesI)
  fix s ts assume s: "stream_ok s" "remaining s = (bs @ cs) @ ts"
  then have 1: "m (b, s) = (Inr x, (b1, advance (length bs) s))"
    by (auto intro: bparsesD [OF m])
  have "f x (b1, advance (length bs) s) = (Inr y, (b2, advance (length cs) (advance (length bs) s)))"
    by (rule bparsesD [OF f, where ts = ts]) (use s in auto)
  with 1 show "seq m f (b, s) = (Inr y, (b2, advance (length (bs @ cs)) s))"
    by (simp add: seq_run_Inr)
qed

lemma bparses_seq_state: "bparses m [] x b b1 \<Longrightarrow> bparses (f x) cs y b1 b2 \<Longrightarrow> bparses (seq m f) cs y b b2"
  using bparses_seq [of m "[]" x b b1 f cs y b2] by simp

lemma bparses_seq_byte:
  "bparses m [c] x b b1 \<Longrightarrow> bparses (f x) cs y b1 b2 \<Longrightarrow> bparses (seq m f) (c # cs) y b b2"
  using bparses_seq [of m "[c]" x b b1 f cs y b2] by simp

lemma bparses_seq_last:
  "bparses m bs x b b1 \<Longrightarrow> bparses (f x) [] y b1 b2 \<Longrightarrow> bparses (seq m f) bs y b b2"
  using bparses_seq [of m bs x b b1 f "[]" y b2] by simp

lemma bparses_in_range:
  "unat idx < length v \<Longrightarrow> bparses (validate_in_range msg idx v) [] () b b"
  by (rule bparsesI) (simp add: validate_in_range_def)

lemma bparses_repeat:
  assumes "\<And>b x. x \<in> set xs \<Longrightarrow> P b \<Longrightarrow> bparses m (enc x) () b (upd x b) \<and> P (upd x b)" and "P b"
  shows "bparses (repeat_op (length xs) m) (concat (map enc xs)) () b (fold upd xs b)"
  using assms
proof (induction xs arbitrary: b)
  case Nil
  show ?case unfolding list.size repeat_op.simps list.map concat.simps fold_Nil id_apply
    by (rule bparses_ret)
next
  case (Cons x xs)
  from Cons.prems have 1: "bparses m (enc x) () b (upd x b)" and "P (upd x b)" by simp_all
  with Cons show ?case
    unfolding list.size add_0_right repeat_op.simps list.map concat.simps fold_Cons comp_apply add_Suc_right
    by (intro bparses_seq [OF 1]) simp
qed

text \<open>The sections that are vectors: length, check, loop.\<close>

lemma bparses_vector:
  assumes "\<And>b x. x \<in> set xs \<Longrightarrow> P b \<Longrightarrow> bparses m (enc x) () b (upd x b) \<and> P (upd x b)" and "P b"
    and "length xs \<le> k" and "k < 2 ^ 32"
  shows "bparses
     (seq (on_snd decode_u32) (\<lambda>n. if k < unat n then throw (e n) else repeat_op (unat n) m))
     (enc_vec enc xs) () b (fold upd xs b)"
proof -
  have n: "unat (of_nat (length xs) :: u32) = length xs" using assms(3,4) by simp
  show ?thesis unfolding enc_vec_def
    by (rule bparses_seq [OF bparses_stream [OF parses_decode_unsigned]])
      (simp add: n assms(3) leD bparses_repeat [OF assms(1,2)])
qed

section \<open>Function bodies\<close>

fun enc_instr :: "instruction \<Rightarrow> u8 list" where
  "enc_instr (ConstI32 v) = 0x41 # encode_unsigned (as_U32 v)"
| "enc_instr AddI32 = [0x6A]"
| "enc_instr (GetLocalI32 i) = 0x20 # encode_unsigned (of_nat i :: u32)"
| "enc_instr (SetLocalI32 i) = 0x21 # encode_unsigned (of_nat i :: u32)"
| "enc_instr Return = [0x0F]"
| "enc_instr _ = []"

fun encodable :: "instruction \<Rightarrow> bool" where
  "encodable (ConstI32 v) = (v = value_U32 (as_U32 v))"
| "encodable AddI32 = True"
| "encodable (GetLocalI32 i) = (i < 2 ^ 32)"
| "encodable (SetLocalI32 i) = (i < 2 ^ 32)"
| "encodable Return = True"
| "encodable _ = False"

definition enc_expr :: "instruction list \<Rightarrow> u8 list" where
  "enc_expr is = concat (map enc_instr is) @ [0x0B]"

lemma encodable_straight: "encodable i \<Longrightarrow> straight i"
  by (cases i) simp_all

text \<open>The first byte selects the branch, the rest is its operand.\<close>

lemma parse_opcode_enc:
  assumes "encodable i" and "stream_ok s" and "remaining s = enc_instr i @ ts"
  shows "\<exists>opcode. on_fst read_byte (s, e) = (Inr opcode, (advance 1 s, e)) \<and> opcode \<noteq> 0x0B \<and>
    parse_opcode opcode (advance 1 s, e) =
      (case emit i e of (r, e') \<Rightarrow> (r, (advance (length (enc_instr i)) s, e')))"
proof -
  have read: "on_fst read_byte (s, e) = (Inr c, (advance 1 s, e))" if "enc_instr i = c # cs" for c cs
    using assms(3) that by (simp add: on_fst_run read_byte_run)
  have imm: "seq (on_fst decode_u32) (\<lambda>v. on_snd (emit (f v))) (advance 1 s, e) =
      (case emit (f v) e of (r, e') \<Rightarrow> (r, (advance (length (enc_instr i)) s, e')))"
    if "enc_instr i = c # encode_unsigned v" for c f and v :: u32
  proof -
    have "decode_u32 (advance 1 s) = (Inr v, advance (length (encode_unsigned v)) (advance 1 s))"
      by (rule parsesD [OF parses_decode_unsigned]) (use assms that in auto)
    with that show ?thesis by (simp add: seq_run_Inr on_fst_run on_snd_run)
  qed
  show ?thesis
  proof (cases i)
    case (ConstI32 v)
    with assms(1) have v: "value_U32 (as_U32 v) = v" by simp
    show ?thesis
      by (rule exI [of _ "0x41"])
        (use read imm [of "0x41" "as_U32 v" "\<lambda>v. ConstI32 (value_U32 v)"] v ConstI32
          in \<open>simp add: parse_opcode_def\<close>)
  next
    case (GetLocalI32 n)
    show ?thesis
      by (rule exI [of _ "0x20"])
        (use read imm [of "0x20" "of_nat n" "\<lambda>v. GetLocalI32 (unat v)"] GetLocalI32 assms(1)
          in \<open>simp add: parse_opcode_def\<close>)
  next
    case (SetLocalI32 n)
    show ?thesis
      by (rule exI [of _ "0x21"])
        (use read imm [of "0x21" "of_nat n" "\<lambda>v. SetLocalI32 (unat v)"] SetLocalI32 assms(1)
          in \<open>simp add: parse_opcode_def\<close>)
  next
    case AddI32
    show ?thesis
      by (rule exI [of _ "0x6A"]) (use read AddI32 in \<open>simp add: parse_opcode_def on_snd_run\<close>)
  next
    case Return
    show ?thesis
      by (rule exI [of _ "0x0F"]) (use read Return in \<open>simp add: parse_opcode_def on_snd_run\<close>)
  qed (use assms(1) in auto)
qed

lemma parse_opcodes_enc:
  assumes "list_all encodable is" and "stream_ok s" and "remaining s = enc_expr is @ ts"
  shows "parse_opcodes (s, e) =
    (case for_each emit is e of
       (Inl x, e') \<Rightarrow> (Inl x, snd (parse_opcodes (s, e)))
     | (Inr _, e') \<Rightarrow> (Inr (), (advance (length (enc_expr is)) s, e')))"
  using assms
proof (induction "is" arbitrary: s e)
  case Nil
  then have "read_byte s = (Inr 0x0B, advance (Suc 0) s)"
    by (simp add: enc_expr_def read_byte_run)
  then show ?case
    by (simp add: parse_opcodes.simps [of "(s, e)"] on_fst_run seq_run_Inr enc_expr_def)
next
  case (Cons i "is")
  let ?n = "length (enc_instr i)"
  have rem: "remaining s = enc_instr i @ (enc_expr is @ ts)"
    using Cons.prems(3) by (simp add: enc_expr_def)
  obtain opcode where 1: "on_fst read_byte (s, e) = (Inr opcode, (advance 1 s, e))" "opcode \<noteq> 0x0B"
    "parse_opcode opcode (advance 1 s, e) =
      (case emit i e of (r, e') \<Rightarrow> (r, (advance ?n s, e')))"
    using parse_opcode_enc [OF _ Cons.prems(2) rem] Cons.prems(1) by auto
  obtain r e1 where e1: "emit i e = (r, e1)" by fastforce
  show ?case
  proof (cases r)
    case (Inl x)
    with 1 e1 show ?thesis
      by (simp add: parse_opcodes.simps [of "(s, e)"] seq_run_Inr seq_run_Inl)
  next
    case (Inr u)
    have IH: "parse_opcodes (advance ?n s, e1) =
      (case for_each emit is e1 of
         (Inl x, e') \<Rightarrow> (Inl x, snd (parse_opcodes (advance ?n s, e1)))
       | (Inr _, e') \<Rightarrow> (Inr (), (advance (length (enc_expr is)) (advance ?n s), e')))"
      by (rule Cons.IH) (use Cons.prems rem in auto)
    have "parse_opcodes (s, e) = parse_opcodes (advance ?n s, e1)"
      using 1 e1 Inr by (simp add: parse_opcodes.simps [of "(s, e)"] seq_run_Inr)
    with IH e1 Inr show ?thesis
      by (simp add: seq_run_Inr enc_expr_def split: prod.splits sum.splits)
  qed
qed

lemma for_each_emit:
  "for_each validate_op is (op_validator e) = (Inr (), v) \<Longrightarrow>
     for_each emit is e =
       (Inr (), e\<lparr>op_validator := v, op_instructions := op_instructions e @ is\<rparr>)"
proof (induction "is" arbitrary: e)
  case (Cons i "is")
  then obtain v1 where 1: "validate_op i (op_validator e) = (Inr (), v1)"
    and 2: "for_each validate_op is v1 = (Inr (), v)" by auto
  then have "emit i e = (Inr (), e\<lparr>op_validator := v1, op_instructions := op_instructions e @ [i]\<rparr>)"
    by (simp add: emit_def)
  with Cons.IH [of "e\<lparr>op_validator := v1, op_instructions := op_instructions e @ [i]\<rparr>"] 2
  show ?case by (simp add: seq_run_Inr)
qed simp

lemma parse_expression_enc:
  assumes "validate is v = (Inr (), v')" and "list_all encodable is" and "stream_ok s"
    and "remaining s = enc_expr is @ ts"
  shows "parse_expression (s, v) = (Inr is, (advance (length (enc_expr is)) s, v'))"
proof -
  from assms(1) obtain v1 where 1: "for_each validate_op is v = (Inr (), v1)"
    and 2: "finalize v1 = (Inr (), v')" by (auto simp: validate_def)
  from for_each_emit [of "is" "\<lparr>op_validator = v, op_instructions = []\<rparr>" v1] 1 2
  show ?thesis
    using parse_opcodes_enc [OF assms(2-4), of "\<lparr>op_validator = v, op_instructions = []\<rparr>"]
    by (simp add: parse_expression_def seq_run_Inr on_snd_run emitter_finalize_def)
qed

section \<open>Code entries\<close>

record code_source =
  code_locals :: "(u32 \<times> val_type) list"
  code_body :: "instruction list"

definition enc_locals :: "u32 \<times> val_type \<Rightarrow> u8 list" where
  "enc_locals g = encode_unsigned (fst g) @ enc_val_type (snd g)"

definition enc_code_content :: "code_source \<Rightarrow> u8 list" where
  "enc_code_content c = enc_vec enc_locals (code_locals c) @ enc_expr (code_body c)"

definition enc_code :: "code_source \<Rightarrow> u8 list" where
  "enc_code c = encode_unsigned (of_nat (length (enc_code_content c)) :: u32) @ enc_code_content c"

definition local_types :: "(u32 \<times> val_type) list \<Rightarrow> val_type list" where
  "local_types gs = concat (map (\<lambda>(n, t). replicate (unat n) t) gs)"

text \<open>The outcome of validation of a code entry of a function with the signature \<open>ft\<close>.\<close>

definition code_validated :: "block_type \<Rightarrow> code_source \<Rightarrow> (exn + unit) \<times> validator" where
  "code_validated ft c = validate (code_body c) (new_validator ft (local_types (code_locals c)))"

definition code_ok :: "block_type \<Rightarrow> code_source \<Rightarrow> bool" where
  "code_ok ft c \<longleftrightarrow> length (code_locals c) < 2 ^ 32 \<and> list_all (scalar \<circ> snd) (code_locals c) \<and>
     length (local_types (code_locals c)) \<le> MAX_FUNCTION_LOCALS \<and>
     list_all encodable (code_body c) \<and> fst (code_validated ft c) = Inr () \<and>
     length (enc_code_content c) < 2 ^ 32"

definition finished :: "block_type \<Rightarrow> code_source \<Rightarrow> wasm_function" where
  "finished ft c = (let v = snd (code_validated ft c) in
     \<lparr>meta = \<lparr>signature = ft, locals = local_types (code_locals c),
              max_stack_size_bytes = ucast (maximum_stack_size_bytes v),
              max_stack_elements = of_nat (maximum_stack_elements v)\<rparr>,
      body = code_body c\<rparr>)"

lemma bparses_locals_group:
  assumes "length (locals (meta f)) + unat n \<le> MAX_FUNCTION_LOCALS" and "scalar t"
  shows "bparses parse_locals_group (enc_locals (n, t)) () f (add_locals (unat n) t f)"
  unfolding parse_locals_group_def enc_locals_def fst_conv snd_conv
proof (rule bparses_seq [OF bparses_stream [OF parses_decode_unsigned]],
    rule bparses_seq_state [OF bparses_gets [where f = "length \<circ> locals \<circ> meta", unfolded o_assoc]])
  have "\<not> MAX_FUNCTION_LOCALS < unat n + (length \<circ> locals \<circ> meta) f" using assms(1) by simp
  then show "bparses (if MAX_FUNCTION_LOCALS < unat n + (length \<circ> locals \<circ> meta) f
      then throw (ModuleTooLargeException (TooManyLocals (unat n + (length \<circ> locals \<circ> meta) f)))
      else seq (on_snd parse_val_type) (\<lambda>valtype. on_fst (modify (add_locals (unat n) valtype))))
      (enc_val_type t) () f (add_locals (unat n) t f)"
    by (simp only: if_False)
      (rule bparses_seq_last [OF bparses_stream [OF parses_val_type [OF assms(2)]] bparses_modify])
qed

lemma bparses_locals:
  assumes "length (locals (meta f)) + length (local_types gs) \<le> MAX_FUNCTION_LOCALS"
    and "list_all (scalar \<circ> snd) gs"
  shows "bparses (repeat_op (length gs) parse_locals_group) (concat (map enc_locals gs)) () f
     (f\<lparr>meta := (meta f)\<lparr>locals := locals (meta f) @ local_types gs\<rparr>\<rparr>)"
  using assms
proof (induction gs arbitrary: f)
  case Nil
  show ?case unfolding list.size repeat_op.simps list.map concat.simps
    by (rule bparsesI) (simp add: local_types_def)
next
  case (Cons g gs)
  obtain n t where g: "g = (n, t)" by fastforce
  let ?f = "add_locals (unat n) t f"
  have 1: "bparses parse_locals_group (enc_locals g) () f ?f"
    unfolding g by (rule bparses_locals_group) (use Cons.prems g in \<open>auto simp: local_types_def\<close>)
  have "bparses (repeat_op (length gs) parse_locals_group) (concat (map enc_locals gs)) () ?f
     (?f\<lparr>meta := (meta ?f)\<lparr>locals := locals (meta ?f) @ local_types gs\<rparr>\<rparr>)"
    by (rule Cons.IH) (use Cons.prems g in \<open>auto simp: local_types_def add_locals_def\<close>)
  from bparses_seq [OF 1 this] show ?case
    by (simp add: g local_types_def add_locals_def)
qed

lemma bparses_body:
  assumes "code_ok ft c"
  shows "bparses parse_body (enc_expr (code_body c)) ()
     ((new_function ft)\<lparr>meta := (meta (new_function ft))\<lparr>locals := local_types (code_locals c)\<rparr>\<rparr>)
     (finished ft c)"
proof (rule bparsesI)
  fix s ts assume s: "stream_ok s" "remaining s = enc_expr (code_body c) @ ts"
  let ?f = "(new_function ft)\<lparr>meta := (meta (new_function ft))\<lparr>locals := local_types (code_locals c)\<rparr>\<rparr>"
  obtain v where v: "code_validated ft c = (Inr (), v)"
    using assms by (cases "code_validated ft c") (simp add: code_ok_def)
  have "parse_expression (s, new_validator ft (local_types (code_locals c))) =
      (Inr (code_body c), (advance (length (enc_expr (code_body c))) s, v))"
    by (rule parse_expression_enc)
      (use v s assms in \<open>auto simp: code_validated_def code_ok_def\<close>)
  with v show "parse_body (?f, s) = (Inr (), (finished ft c, advance (length (enc_expr (code_body c))) s))"
    by (simp add: parse_body_def finished_def new_function_def)
qed

lemma bparses_code:
  assumes "code_ok ft c"
  shows "bparses parse_one_code (enc_code c) () (new_function ft) (finished ft c)"
proof (rule bparsesI)
  fix s ts assume s: "stream_ok s" "remaining s = enc_code c @ ts"
  let ?n = "of_nat (length (enc_code_content c)) :: u32"
  let ?s = "advance (length (encode_unsigned ?n)) s"
  let ?f = "(new_function ft)\<lparr>meta := (meta (new_function ft))\<lparr>locals := local_types (code_locals c)\<rparr>\<rparr>"
  have n: "unat ?n = length (enc_code_content c)"
    using assms by (simp add: code_ok_def)
  have k: "unat (of_nat (length (code_locals c)) :: u32) = length (code_locals c)"
    using assms by (simp add: code_ok_def)
  have size: "decode_u32 s = (Inr ?n, ?s)"
    by (rule parsesD [OF parses_decode_unsigned]) (use s in \<open>auto simp: enc_code_def\<close>)
  have "bparses (repeat_op (length (code_locals c)) parse_locals_group)
      (concat (map enc_locals (code_locals c))) () (new_function ft) ?f"
    using bparses_locals [of "new_function ft" "code_locals c"] assms
    by (simp add: new_function_def code_ok_def)
  from bparses_seq [OF this bparses_body [OF assms]]
  have "bparses (seq (on_snd decode_u32) (\<lambda>k. seq (repeat_op (unat k) parse_locals_group)
        (\<lambda>_. parse_body))) (enc_code_content c) () (new_function ft) (finished ft c)"
    unfolding enc_code_content_def enc_vec_def append_assoc
    by (intro bparses_seq [OF bparses_stream [OF parses_decode_unsigned]]) (simp add: k)
  from bparsesD [OF this, of ?s ts] s
  have "seq (on_snd decode_u32) (\<lambda>k. seq (repeat_op (unat k) parse_locals_group) (\<lambda>_. parse_body))
      (new_function ft, ?s) = (Inr (), (finished ft c, advance (length (enc_code_content c)) ?s))"
    by (simp add: enc_code_def)
  then obtain k f1 s1 f2 s2 where
    "on_snd decode_u32 (new_function ft, ?s) = (Inr k, (f1, s1))"
    "repeat_op (unat k) parse_locals_group (f1, s1) = (Inr (), (f2, s2))"
    "parse_body (f2, s2) = (Inr (), (finished ft c, advance (length (enc_code_content c)) ?s))"
    by auto
  then show "parse_one_code (new_function ft, s) = (Inr (), (finished ft c, advance (length (enc_code c)) s))"
    using size n
    by (simp add: parse_one_code_def seq_run_Inr on_snd_run bytes_consumed_def Let_def enc_code_def)
qed

end
