(* ===== verification/Module_Encoding.thy ===== *)
theory Module_Encoding
  imports Body_Encoding
begin

text \<open>
  The encoder side of the parser, second part: the WebAssembly binary format of modules, as the
  specification defines it, and the proof that \<open>ParseModule\<close> inverts it. Modules have types,
  imports, functions with their code, tables, memories, exports and a start function, and custom
  sections anywhere; a section without elements may be left out or written. Globals, elements and
  data are not among them: the parser does not read their initialisers correctly, or at all.
\<close>

section \<open>Modules\<close>

record module_source =
  src_customs :: "u8 list list list"
  src_keep_empty :: bool
  src_types :: "block_type list"
  src_imports :: "module_import list"
  src_functions :: "type_idx list"
  src_tables :: "table_type list"
  src_memories :: "mem_type list"
  src_exports :: "module_export list"
  src_start :: "func_idx option"
  src_codes :: "code_source list"

definition src_signatures :: "module_source \<Rightarrow> block_type list" where
  "src_signatures m = map (\<lambda>i. src_types m ! unat i) (src_functions m)"

fun enc_import_desc :: "import_description \<Rightarrow> u8 list" where
  "enc_import_desc (ImportFunc t) = 0x00 # encode_unsigned t"
| "enc_import_desc (ImportTable t) = 0x01 # enc_table_type t"
| "enc_import_desc (ImportMem t) = 0x02 # enc_limits (mem_limits t)"
| "enc_import_desc (ImportGlobal g) = 0x03 # enc_global_type g"

definition enc_import :: "module_import \<Rightarrow> u8 list" where
  "enc_import i = enc_name (import_module_name i) @ enc_name (import_name i) @
     enc_import_desc (import_desc i)"

fun enc_export_desc :: "export_description \<Rightarrow> u8 list" where
  "enc_export_desc (ExportFunc i) = 0x00 # encode_unsigned i"
| "enc_export_desc (ExportTable i) = 0x01 # encode_unsigned i"
| "enc_export_desc (ExportMem i) = 0x02 # encode_unsigned i"
| "enc_export_desc (ExportGlobal i) = 0x03 # encode_unsigned i"

definition enc_export :: "module_export \<Rightarrow> u8 list" where
  "enc_export e = enc_name (export_name e) @ enc_export_desc (export_desc e)"

definition enc_section :: "u8 \<Rightarrow> u8 list \<Rightarrow> u8 list" where
  "enc_section k content = k # encode_unsigned (of_nat (length content) :: u32) @ content"

text \<open>The sections that are not custom, in their order: id, content, and whether it has no elements.\<close>

definition src_sections :: "module_source \<Rightarrow> (u8 \<times> u8 list \<times> bool) list" where
  "src_sections m =
     [(1, enc_vec enc_signature (src_types m), src_types m = []),
      (2, enc_vec enc_import (src_imports m), src_imports m = []),
      (3, enc_vec encode_unsigned (src_functions m), src_functions m = []),
      (4, enc_vec enc_table_type (src_tables m), src_tables m = []),
      (5, enc_vec (enc_limits \<circ> mem_limits) (src_memories m), src_memories m = []),
      (7, enc_vec enc_export (src_exports m), src_exports m = []),
      (8, case src_start m of None \<Rightarrow> [] | Some i \<Rightarrow> encode_unsigned i, src_start m = None),
      (10, enc_vec enc_code (src_codes m), src_codes m = [])]"

text \<open>The section of the start function has no empty form.\<close>

definition left_out :: "module_source \<Rightarrow> nat \<Rightarrow> bool" where
  "left_out m n = (case src_sections m ! n of (k, c, none) \<Rightarrow> none \<and> (k = 8 \<or> \<not> src_keep_empty m))"

definition enc_part :: "module_source \<Rightarrow> nat \<Rightarrow> u8 list" where
  "enc_part m n = (if left_out m n then []
     else enc_section (fst (src_sections m ! n)) (fst (snd (src_sections m ! n))))"

text \<open>The custom sections before the \<open>n\<close>th of these, or at the end.\<close>

definition enc_customs :: "module_source \<Rightarrow> nat \<Rightarrow> u8 list" where
  "enc_customs m n =
     concat (map (enc_section 0) (if n < length (src_customs m) then src_customs m ! n else []))"

definition enc_module :: "module_source \<Rightarrow> u8 list" where
  "enc_module m = kMagicBytes @ kVersionOne @
     concat (map (\<lambda>n. enc_customs m n @ enc_part m n) [0..<8]) @ enc_customs m 8"

text \<open>The modules that the implementation accepts, and what they mean. Function indices do not count
  imported functions, as in the implementation.\<close>

definition import_source_ok :: "block_type list \<Rightarrow> module_import \<Rightarrow> bool" where
  "import_source_ok ts i \<longleftrightarrow> name_ok (import_module_name i) \<and> name_ok (import_name i) \<and>
     (case import_desc i of
        ImportFunc t \<Rightarrow> unat t < length ts
      | ImportTable t \<Rightarrow> table_type_ok t
      | ImportMem t \<Rightarrow> True
      | ImportGlobal g \<Rightarrow> global_type_ok g)"

definition export_source_ok :: "module_source \<Rightarrow> module_export \<Rightarrow> bool" where
  "export_source_ok m e \<longleftrightarrow> name_ok (export_name e) \<and>
     (case export_desc e of
        ExportFunc i \<Rightarrow> unat i < length (src_functions m)
      | ExportTable i \<Rightarrow> unat i < length (src_tables m)
      | ExportMem i \<Rightarrow> unat i < length (src_memories m)
      | ExportGlobal i \<Rightarrow> False)"

definition source_ok :: "module_source \<Rightarrow> bool" where
  "source_ok m \<longleftrightarrow>
     list_all (list_all (\<lambda>c. length c < 2 ^ 31)) (src_customs m) \<and>
     length (src_types m) \<le> kMaxFunctionSignatures \<and> list_all signature_ok (src_types m) \<and>
     length (src_imports m) \<le> kMaxImports \<and> list_all (import_source_ok (src_types m)) (src_imports m) \<and>
     length (src_functions m) \<le> MAX_FUNCTIONS \<and>
     list_all (\<lambda>i. unat i < length (src_types m)) (src_functions m) \<and>
     length (src_tables m) \<le> kMaxTables \<and> list_all table_type_ok (src_tables m) \<and>
     length (src_memories m) \<le> kMaxMemories \<and>
     length (src_exports m) \<le> kMaxExports \<and> distinct (map export_name (src_exports m)) \<and>
     list_all (export_source_ok m) (src_exports m) \<and>
     (\<forall>i \<in> set_option (src_start m). unat i < length (src_functions m)) \<and>
     length (src_codes m) = length (src_functions m) \<and>
     list_all2 code_ok (src_signatures m) (src_codes m) \<and>
     length (enc_module m) < 2 ^ 31"

text \<open>The parser keeps the exported functions only.\<close>

fun function_exports :: "module_export list \<Rightarrow> (name \<times> func_idx) list" where
  "function_exports [] = []"
| "function_exports (e # es) = (case export_desc e of
       ExportFunc i \<Rightarrow> (export_name e, i) # function_exports es
     | _ \<Rightarrow> function_exports es)"

definition source_module :: "module_source \<Rightarrow> parsed_module" where
  "source_module m =
     \<lparr>module_functions = map2 finished (src_signatures m) (src_codes m),
      exported_functions = map_of (function_exports (src_exports m))\<rparr>"

section \<open>The contents of sections\<close>

lemma bparses_ret_eq: "x = y \<Longrightarrow> bparses (ret x) [] y b b"
  by (simp add: bparses_ret)

lemma bparses_on_function:
  "bparses m bs x (mb_functions b ! i) f \<Longrightarrow>
     bparses (on_function i m) bs x b (b\<lparr>mb_functions := (mb_functions b)[i := f]\<rparr>)"
  by (auto simp: bparses_def on_function_def)

lemma bparses_code_loop:
  assumes "list_all2 code_ok fts cs" and "i \<le> length cs" and "mb_functions b = map new_function fts"
  shows "bparses (for_each (\<lambda>i. on_function i parse_one_code) [0..<i]) (concat (map enc_code (take i cs)))
     () b (b\<lparr>mb_functions := map2 finished (take i fts) (take i cs) @ map new_function (drop i fts)\<rparr>)"
  using assms(2)
proof (induction i)
  case 0
  show ?case unfolding upt_0 for_each.simps by (rule bparsesI) (simp add: assms(3) [symmetric])
next
  case (Suc i)
  let ?b = "\<lambda>i. b\<lparr>mb_functions := map2 finished (take i fts) (take i cs) @ map new_function (drop i fts)\<rparr>"
  have len: "length fts = length cs" using assms(1) by (rule list_all2_lengthD)
  with Suc.prems have i: "i < length fts" "i < length cs" by simp_all
  have nth: "mb_functions (?b i) ! i = new_function (fts ! i)"
    using i by (simp add: nth_append)
  have upd: "(?b i)\<lparr>mb_functions := (mb_functions (?b i))[i := finished (fts ! i) (cs ! i)]\<rparr> = ?b (Suc i)"
    using i by (simp add: list_update_append take_Suc_conv_app_nth Cons_nth_drop_Suc [symmetric])
  have "code_ok (fts ! i) (cs ! i)" using assms(1) i by (simp add: list_all2_conv_all_nth)
  then have "bparses (on_function i parse_one_code) (enc_code (cs ! i)) () (?b i) (?b (Suc i))"
    unfolding upd [symmetric] by (intro bparses_on_function) (simp only: nth bparses_code)
  then have "bparses (for_each (\<lambda>i. on_function i parse_one_code) [i]) (enc_code (cs ! i)) () (?b i) (?b (Suc i))"
    unfolding for_each.simps by (rule bparses_seq_last) (rule bparses_ret)
  with Suc show ?case
    unfolding upt_Suc_append [OF le0] for_each_append take_Suc_conv_app_nth [OF i(2)]
    by (simp only: map_append concat_append list.map concat.simps append_Nil2)
      (blast intro: bparses_seq Suc_leD)
qed

lemma bparses_code_section:
  assumes "list_all2 code_ok fts cs" and "mb_functions b = map new_function fts"
    and "length cs < 2 ^ 32"
  shows "bparses parse_code_section (enc_vec enc_code cs) () b
     (b\<lparr>mb_functions := map2 finished fts cs\<rparr>)"
  unfolding parse_code_section_def enc_vec_def
proof (rule bparses_seq [OF bparses_stream [OF parses_decode_unsigned]],
    rule bparses_seq_state [OF bparses_gets [where f = "length \<circ> mb_functions", unfolded o_assoc]])
  have len: "length fts = length cs" using assms(1) by (rule list_all2_lengthD)
  then have k: "unat (of_nat (length cs) :: u32) = length cs" "(length \<circ> mb_functions) b = length cs"
    using assms(2,3) by simp_all
  show "bparses (if unat (of_nat (length cs) :: u32) \<noteq> (length \<circ> mb_functions) b
      then throw (ParseException (UnexpectedNumberOfCode (of_nat (length cs)) ((length \<circ> mb_functions) b)))
      else for_each (\<lambda>i. on_function i parse_one_code) [0..<unat (of_nat (length cs) :: u32)])
      (concat (map enc_code cs)) () b (b\<lparr>mb_functions := map2 finished fts cs\<rparr>)"
    using bparses_code_loop [OF assms(1) order.refl assms(2)] len unfolding k by simp
qed

text \<open>Sections whose elements are appended to a vector of the builder.\<close>

lemma bparses_signature_section:
  assumes "length ts \<le> kMaxFunctionSignatures" and "list_all signature_ok ts"
  shows "bparses parse_signature_section (enc_vec enc_signature ts) () b
     (fold (\<lambda>t b. b\<lparr>mb_func_signatures := mb_func_signatures b @ [t]\<rparr>) ts b)"
  unfolding parse_signature_section_def
  by (rule bparses_vector [where P = "\<lambda>_. True"])
    (use assms in \<open>auto simp: max_defs list_all_iff
      intro!: bparses_seq_last [OF bparses_stream [OF parses_signature] bparses_modify]\<close>)

lemma bparses_function_section:
  fixes "is" :: "type_idx list"
  assumes "length is \<le> MAX_FUNCTIONS" and "list_all (\<lambda>i. unat i < length ts) is"
    and "mb_func_signatures b = ts"
  shows "bparses parse_function_declaration_section (enc_vec encode_unsigned is) () b
     (fold (\<lambda>i b. b\<lparr>mb_functions := mb_functions b @ [new_function (ts ! unat i)]\<rparr>) is b)"
  unfolding parse_function_declaration_section_def
proof (rule bparses_vector [where P = "\<lambda>b. mb_func_signatures b = ts"], intro conjI)
  fix b i assume i: "i \<in> set is" and b: "mb_func_signatures b = ts"
  show "bparses (seq (on_snd parse_func_idx) (\<lambda>funcidx.
      seq (gets (mb_func_signatures \<circ> fst)) (\<lambda>sigs.
      seq (validate_in_range ''unknown function signature'' funcidx sigs) (\<lambda>_.
      on_fst (modify (\<lambda>b. b\<lparr>mb_functions := mb_functions b @ [new_function (sigs ! unat funcidx)]\<rparr>))))))
      (encode_unsigned i) () b (b\<lparr>mb_functions := mb_functions b @ [new_function (ts ! unat i)]\<rparr>)"
    unfolding parse_func_idx_def
    by (rule bparses_seq_last [OF bparses_stream [OF parses_decode_unsigned]],
        rule bparses_seq_state [OF bparses_gets], rule bparses_seq_state [OF bparses_in_range])
      (use assms(2) i b in \<open>simp_all add: list_all_iff bparses_modify
        [where f = "\<lambda>b. b\<lparr>mb_functions := mb_functions b @ [new_function (ts ! unat i)]\<rparr>"]\<close>)
qed (use assms in \<open>simp_all add: max_defs\<close>)

lemma bparses_import_desc:
  assumes "import_source_ok (mb_func_signatures b) i"
  shows "\<exists>c cs. enc_import_desc (import_desc i) = c # cs \<and>
    bparses (parse_import_desc c) cs (import_desc i) b b"
proof (cases "import_desc i")
  case (ImportFunc t)
  with assms have t: "unat t < length (mb_func_signatures b)" by (simp add: import_source_ok_def)
  have "bparses (parse_import_desc 0) (encode_unsigned t) (ImportFunc t) b b"
    unfolding parse_import_desc_def parse_type_idx_def simp_thms if_True
    by (rule bparses_seq_last [OF bparses_stream [OF parses_decode_unsigned]],
        rule bparses_seq_state [OF bparses_gets],
        rule bparses_seq_state [OF bparses_in_range [OF t]], rule bparses_ret)
  with ImportFunc show ?thesis by simp
next
  case (ImportTable t)
  with assms have t: "table_type_ok t" by (simp add: import_source_ok_def)
  have "bparses (seq (on_snd parse_table_type) (\<lambda>t. ret (ImportTable t))) (enc_table_type t) (ImportTable t) b b"
    by (rule bparses_seq_last [OF bparses_stream [OF parses_table_type [OF t]] bparses_ret])
  with ImportTable show ?thesis by (simp add: parse_import_desc_def)
next
  case (ImportMem t)
  have "bparses (seq (on_snd parse_mem_type) (\<lambda>t. ret (ImportMem t))) (enc_limits (mem_limits t)) (ImportMem t) b b"
    by (rule bparses_seq_last [OF bparses_stream [OF parses_mem_type] bparses_ret])
  with ImportMem show ?thesis by (simp add: parse_import_desc_def)
next
  case (ImportGlobal g)
  with assms have g: "global_type_ok g" by (simp add: import_source_ok_def)
  have "bparses (seq (on_snd parse_global_type) (\<lambda>g. ret (ImportGlobal g))) (enc_global_type g) (ImportGlobal g) b b"
    by (rule bparses_seq_last [OF bparses_stream [OF parses_global_type [OF g]] bparses_ret])
  with ImportGlobal show ?thesis by (simp add: parse_import_desc_def)
qed

lemma bparses_import_section:
  assumes "length is \<le> kMaxImports" and "list_all (import_source_ok ts) is" and "mb_func_signatures b = ts"
  shows "bparses parse_import_section (enc_vec enc_import is) () b
     (fold (\<lambda>i b. b\<lparr>mb_imports := mb_imports b @ [i]\<rparr>) is b)"
  unfolding parse_import_section_def
proof (rule bparses_vector [where P = "\<lambda>b. mb_func_signatures b = ts"], intro conjI)
  fix b :: module_builder and i assume i: "i \<in> set is" and b: "mb_func_signatures b = ts"
  then have ok: "import_source_ok (mb_func_signatures b) i" using assms(2) by (simp add: list_all_iff)
  obtain c cs where d: "enc_import_desc (import_desc i) = c # cs" "bparses (parse_import_desc c) cs (import_desc i) b b"
    using bparses_import_desc [OF ok] by blast
  have "bparses parse_one_import (enc_import i) i b b"
    unfolding parse_one_import_def enc_import_def d(1)
    by (rule bparses_seq [OF bparses_stream [OF parses_name]],
        use ok in \<open>simp add: import_source_ok_def\<close>,
        rule bparses_seq [OF bparses_stream [OF parses_name]],
        use ok in \<open>simp add: import_source_ok_def\<close>,
        rule bparses_seq_byte [OF bparses_stream [OF parses_read_byte]],
        rule bparses_seq_last [OF d(2)], rule bparses_ret_eq) simp
  then show "bparses (seq parse_one_import (\<lambda>i. on_fst (modify (\<lambda>b. b\<lparr>mb_imports := mb_imports b @ [i]\<rparr>))))
      (enc_import i) () b (b\<lparr>mb_imports := mb_imports b @ [i]\<rparr>)"
    by (rule bparses_seq_last)
      (rule bparses_modify [where f = "\<lambda>b. b\<lparr>mb_imports := mb_imports b @ [i]\<rparr>"])
qed (use assms in \<open>simp_all add: max_defs\<close>)

lemma bparses_table_section:
  assumes "length ts \<le> kMaxTables" and "list_all table_type_ok ts"
  shows "bparses parse_table_section (enc_vec enc_table_type ts) () b
     (fold (\<lambda>t b. b\<lparr>mb_tables := mb_tables b @ [\<lparr>table_type = t\<rparr>]\<rparr>) ts b)"
  unfolding parse_table_section_def
  by (rule bparses_vector [where P = "\<lambda>_. True"])
    (use assms in \<open>auto simp: max_defs list_all_iff
      intro!: bparses_seq_last [OF bparses_stream [OF parses_table] bparses_modify]\<close>)

lemma bparses_memory_section:
  assumes "length ts \<le> kMaxMemories"
  shows "bparses parse_memories_section (enc_vec (enc_limits \<circ> mem_limits) ts) () b
     (fold (\<lambda>t b. b\<lparr>mb_memories := mb_memories b @ [\<lparr>mem_type = t\<rparr>]\<rparr>) ts b)"
  unfolding parse_memories_section_def
  by (rule bparses_vector [where P = "\<lambda>_. True"])
    (use assms in \<open>auto simp: max_defs
      intro!: bparses_seq_last [OF bparses_stream [OF parses_memory] bparses_modify]\<close>)

definition in_builder :: "module_builder \<Rightarrow> export_description \<Rightarrow> bool" where
  "in_builder b d \<longleftrightarrow> (case d of
     ExportFunc i \<Rightarrow> unat i < length (mb_functions b)
   | ExportTable i \<Rightarrow> unat i < length (mb_tables b)
   | ExportMem i \<Rightarrow> unat i < length (mb_memories b)
   | ExportGlobal i \<Rightarrow> unat i < length (mb_globals b))"

lemma bparses_checked_index:
  assumes "unat i < length (v b)"
  shows "bparses (seq (on_snd decode_u32) (\<lambda>idx. seq (gets (v \<circ> fst)) (\<lambda>xs.
    seq (validate_in_range msg idx xs) (\<lambda>_. ret (d idx))))) (encode_unsigned i) (d i) b b"
  by (rule bparses_seq_last [OF bparses_stream [OF parses_decode_unsigned]],
      rule bparses_seq_state [OF bparses_gets],
      rule bparses_seq_state [OF bparses_in_range [OF assms]], rule bparses_ret)

lemma bparses_export_desc:
  assumes "in_builder b d"
  shows "\<exists>c cs. enc_export_desc d = c # cs \<and> bparses (parse_export_desc c) cs d b b"
  using assms
  by (cases d)
    (simp_all add: in_builder_def parse_export_desc_def parse_func_idx_def parse_table_idx_def
      parse_mem_idx_def parse_global_idx_def bparses_checked_index)

lemma bparses_one_export:
  assumes "name_ok (export_name e)" and "in_builder b (export_desc e)"
  shows "bparses parse_one_export (enc_export e) e b b"
proof -
  obtain c cs where d: "enc_export_desc (export_desc e) = c # cs"
    "bparses (parse_export_desc c) cs (export_desc e) b b"
    using bparses_export_desc [OF assms(2)] by blast
  show ?thesis
    unfolding parse_one_export_def enc_export_def d(1)
    by (rule bparses_seq [OF bparses_stream [OF parses_name [OF assms(1)]]],
        rule bparses_seq_byte [OF bparses_stream [OF parses_read_byte]],
        rule bparses_seq_last [OF d(2)], rule bparses_ret_eq) simp
qed

abbreviation add_export :: "module_export \<Rightarrow> module_builder \<Rightarrow> module_builder" where
  "add_export e b \<equiv> b\<lparr>mb_exports := mb_exports b @ [e]\<rparr>"

lemma in_builder_add_export [simp]: "in_builder (add_export e b) d = in_builder b d"
  by (simp add: in_builder_def split: export_description.split)

lemma bparses_exports:
  assumes "list_all (\<lambda>e. name_ok (export_name e) \<and> in_builder b (export_desc e)) es"
    and "distinct (names @ map export_name es)"
  shows "bparses (parse_exports (length es) names) (concat (map enc_export es)) () b (fold add_export es b)"
  using assms
proof (induction es arbitrary: b names)
  case Nil
  show ?case unfolding list.size parse_exports.simps by (rule bparsesI) simp
next
  case (Cons e es)
  from Cons.prems have n: "export_name e \<notin> set names" by simp
  have "bparses (parse_exports (length es) (names @ [export_name e])) (concat (map enc_export es)) ()
      (add_export e b) (fold add_export es (add_export e b))"
    by (rule Cons.IH) (use Cons.prems in auto)
  then have rest: "bparses (seq (on_fst (modify (\<lambda>b. add_export e b))) (\<lambda>_.
        if export_name e \<in> set names then throw (ParseException (DuplicateExportedName (export_name e)))
        else parse_exports (length es) (names @ [export_name e])))
      (concat (map enc_export es)) () b (fold add_export es (add_export e b))"
    by (intro bparses_seq_state [OF bparses_modify]) (simp add: n)
  have one: "bparses parse_one_export (enc_export e) e b b"
    using Cons.prems by (simp add: bparses_one_export)
  show ?case
    unfolding list.size add_0_right add_Suc_right parse_exports.simps list.map concat.simps fold_Cons comp_apply
    by (rule bparses_seq, rule one, rule rest)
qed

lemma bparses_export_section:
  assumes "length es \<le> kMaxExports" and "distinct (map export_name es)"
    and "list_all (\<lambda>e. name_ok (export_name e) \<and> in_builder b (export_desc e)) es"
  shows "bparses parse_exports_section (enc_vec enc_export es) () b (fold add_export es b)"
proof -
  have "unat (of_nat (length es) :: u32) = length es" using assms(1) by (simp add: max_defs)
  then show ?thesis
    unfolding parse_exports_section_def enc_vec_def
    by (intro bparses_seq [OF bparses_stream [OF parses_decode_unsigned]])
      (use assms bparses_exports [of b es "[]"] in simp)
qed

lemma bparses_start_section:
  assumes "unat i < length (mb_functions b)"
  shows "bparses parse_start_section (encode_unsigned i) () b (b\<lparr>mb_start := Some i\<rparr>)"
  unfolding parse_start_section_def parse_func_idx_def
  by (rule bparses_seq_last [OF bparses_stream [OF parses_decode_unsigned]],
      rule bparses_seq_state [OF bparses_gets], rule bparses_seq_state [OF bparses_in_range [OF assms]],
      rule bparses_modify)

lemma fold_add_signatures:
  "fold (\<lambda>t b. b\<lparr>mb_func_signatures := mb_func_signatures b @ [t]\<rparr>) ts b
     = b\<lparr>mb_func_signatures := mb_func_signatures b @ ts\<rparr>"
  by (induction ts arbitrary: b) simp_all

lemma fold_add_functions:
  "fold (\<lambda>i b. b\<lparr>mb_functions := mb_functions b @ [g i]\<rparr>) is b
     = b\<lparr>mb_functions := mb_functions b @ map g is\<rparr>"
  by (induction "is" arbitrary: b) simp_all

lemma fold_add_others:
  "fold (\<lambda>i b. b\<lparr>mb_imports := mb_imports b @ [i]\<rparr>) is b = b\<lparr>mb_imports := mb_imports b @ is\<rparr>"
  "fold (\<lambda>t b. b\<lparr>mb_tables := mb_tables b @ [\<lparr>table_type = t\<rparr>]\<rparr>) ts b
     = b\<lparr>mb_tables := mb_tables b @ map (\<lambda>t. \<lparr>table_type = t\<rparr>) ts\<rparr>"
  "fold (\<lambda>t b. b\<lparr>mb_memories := mb_memories b @ [\<lparr>mem_type = t\<rparr>]\<rparr>) ms b
     = b\<lparr>mb_memories := mb_memories b @ map (\<lambda>t. \<lparr>mem_type = t\<rparr>) ms\<rparr>"
  "fold add_export es b = b\<lparr>mb_exports := mb_exports b @ es\<rparr>"
  by (induction "is" arbitrary: b, simp_all) (induction ts arbitrary: b, simp_all,
    induction ms arbitrary: b, simp_all, induction es arbitrary: b, simp_all)

lemma parses_section:
  assumes "sid \<noteq> 0" and "latest_section_read b < unat sid"
    and "bparses (parse_section_body sid (of_nat (length content))) content ()
      (b\<lparr>latest_section_read := unat sid\<rparr>) b'"
  shows "bparses parse_one_section (enc_section sid content) () b b'"
proof -
  have "bparses (on_fst (check_section_order sid)) [] () b (b\<lparr>latest_section_read := unat sid\<rparr>)"
    by (rule bparsesI) (use assms(1,2) in \<open>simp add: on_fst_run check_section_order_def\<close>)
  then show ?thesis
    unfolding parse_one_section_def enc_section_def
    by (intro bparses_seq_byte [OF bparses_stream [OF parses_read_byte]])
      (rule bparses_seq_state, assumption,
        rule bparses_seq [OF bparses_stream [OF parses_decode_unsigned]], rule assms(3))
qed

lemma parses_custom_section:
  assumes "length content < 2 ^ 31"
  shows "bparses parse_one_section (enc_section 0 content) () b b"
proof -
  have "unat (of_nat (length content) :: u32) = length content" using assms by simp
  then have skip: "parses (skip (unat (of_nat (length content) :: u32))) content ()"
    by (intro parses_skip)
  have "bparses (on_fst (check_section_order 0)) [] () b b"
    by (rule bparsesI) (simp add: on_fst_run check_section_order_def)
  then show ?thesis
    unfolding parse_one_section_def enc_section_def
    by (intro bparses_seq_byte [OF bparses_stream [OF parses_read_byte]])
      (rule bparses_seq_state, assumption,
        rule bparses_seq [OF bparses_stream [OF parses_decode_unsigned]],
        use bparses_stream [OF skip] in \<open>simp add: parse_section_body_def\<close>)
qed

section \<open>Runs of sections\<close>

text \<open>The loop over the sections reads these bytes, and goes on from another builder.\<close>

definition reads_sections :: "u8 list \<Rightarrow> module_builder \<Rightarrow> module_builder \<Rightarrow> bool" where
  "reads_sections bs b b' \<longleftrightarrow> (\<forall>s ts. stream_ok s \<and> remaining s = bs @ ts \<longrightarrow>
     parse_sections (b, s) = parse_sections (b', advance (length bs) s))"

lemma reads_nothing: "reads_sections [] b b"
  by (simp add: reads_sections_def)

lemma reads_sections_append:
  assumes "reads_sections bs b b1" and "reads_sections cs b1 b2"
  shows "reads_sections (bs @ cs) b b2"
  unfolding reads_sections_def
proof (intro allI impI, elim conjE)
  fix s ts assume s: "stream_ok s" "remaining s = (bs @ cs) @ ts"
  then have "parse_sections (b, s) = parse_sections (b1, advance (length bs) s)"
    using assms(1) unfolding reads_sections_def by (metis append_assoc)
  also have "\<dots> = parse_sections (b2, advance (length cs) (advance (length bs) s))"
    using assms(2) s unfolding reads_sections_def by simp
  finally show "parse_sections (b, s) = parse_sections (b2, advance (length (bs @ cs)) s)" by simp
qed

lemma reads_one_section:
  assumes "bparses parse_one_section (enc_section k content) () b b'"
  shows "reads_sections (enc_section k content) b b'"
  unfolding reads_sections_def
proof (intro allI impI, elim conjE)
  fix s ts assume s: "stream_ok s" "remaining s = enc_section k content @ ts"
  then have "has_remaining s" by (simp add: has_remaining_iff enc_section_def)
  with bparsesD [OF assms s]
  show "parse_sections (b, s) = parse_sections (b', advance (length (enc_section k content)) s)"
    by (simp add: parse_sections.simps [of "(b, s)"] seq_run_Inr)
qed

lemma reads_customs:
  "list_all (\<lambda>c. length c < 2 ^ 31) cs \<Longrightarrow> reads_sections (concat (map (enc_section 0) cs)) b b"
  by (induction cs)
    (auto simp: reads_nothing intro!: reads_sections_append reads_one_section parses_custom_section)

text \<open>The builder after the first \<open>n\<close> parts of a module, when \<open>l\<close> is the last section it has seen.\<close>

definition built :: "module_source \<Rightarrow> nat \<Rightarrow> nat \<Rightarrow> module_builder" where
  "built m n l =
     \<lparr>latest_section_read = l,
      mb_func_signatures = (if 1 \<le> n then src_types m else []),
      mb_imports = (if 2 \<le> n then src_imports m else []),
      mb_functions = (if 8 \<le> n then map2 finished (src_signatures m) (src_codes m)
        else if 3 \<le> n then map new_function (src_signatures m) else []),
      mb_tables = (if 4 \<le> n then map (\<lambda>t. \<lparr>table_type = t\<rparr>) (src_tables m) else []),
      mb_memories = (if 5 \<le> n then map (\<lambda>t. \<lparr>mem_type = t\<rparr>) (src_memories m) else []),
      mb_globals = [],
      mb_exports = (if 6 \<le> n then src_exports m else []),
      mb_start = (if 7 \<le> n then src_start m else None)\<rparr>"

abbreviation part_id :: "module_source \<Rightarrow> nat \<Rightarrow> u8" where
  "part_id m n \<equiv> fst (src_sections m ! n)"

abbreviation part_content :: "module_source \<Rightarrow> nat \<Rightarrow> u8 list" where
  "part_content m n \<equiv> fst (snd (src_sections m ! n))"

lemma part_numbers: "n < 8 \<Longrightarrow> n \<in> {0, 1, 2, 3, 4, 5, 6, 7::nat}"
  by auto

lemma part_ids:
  assumes "n < 8"
  shows "part_id m n \<noteq> 0" "0 < unat (part_id m n)" "Suc n < 8 \<Longrightarrow> unat (part_id m n) < unat (part_id m (Suc n))"
  using part_numbers [OF assms] by (auto simp: src_sections_def)

lemma built_left_out:
  assumes "source_ok m" and "n < 8" and "left_out m n"
  shows "built m (Suc n) l = built m n l"
  using part_numbers [OF assms(2)] assms(1,3)
  by (auto simp: left_out_def src_sections_def built_def source_ok_def src_signatures_def)

text \<open>Each part takes the builder one step further.\<close>

lemma exports_in_builder:
  assumes "source_ok m"
  shows "list_all (\<lambda>e. name_ok (export_name e) \<and> in_builder (built m 5 l) (export_desc e)) (src_exports m)"
  unfolding list_all_iff
proof
  fix e assume "e \<in> set (src_exports m)"
  with assms have "export_source_ok m e" "length (src_codes m) = length (src_functions m)"
    by (simp_all add: source_ok_def list_all_iff)
  then show "name_ok (export_name e) \<and> in_builder (built m 5 l) (export_desc e)"
    by (auto simp: export_source_ok_def in_builder_def built_def src_signatures_def
        split: export_description.splits)
qed

lemma built_content:
  assumes m: "source_ok m" and n: "n < 8" and out: "\<not> left_out m n"
  shows "bparses (parse_section_body (part_id m n) sz) (part_content m n) ()
    (built m n (unat (part_id m n))) (built m (Suc n) (unat (part_id m n)))"
proof -
  note ok = m [unfolded source_ok_def]
  from part_numbers [OF n] consider "n = 0" | "n = 1" | "n = 2" | "n = 3" | "n = 4" | "n = 5" | "n = 6" | "n = 7"
    by auto
  then show ?thesis
  proof cases
    case 1
    then show ?thesis using bparses_signature_section [of "src_types m" "built m 0 1"] ok
      by (simp add: src_sections_def parse_section_body_def fold_add_signatures built_def)
  next
    case 2
    then show ?thesis using bparses_import_section [of "src_imports m" "src_types m" "built m 1 2"] ok
      by (simp add: src_sections_def parse_section_body_def fold_add_others built_def)
  next
    case 3
    then show ?thesis using bparses_function_section [of "src_functions m" "src_types m" "built m 2 3"] ok
      by (simp add: src_sections_def parse_section_body_def fold_add_functions built_def
          src_signatures_def comp_def)
  next
    case 4
    then show ?thesis using bparses_table_section [of "src_tables m" "built m 3 4"] ok
      by (simp add: src_sections_def parse_section_body_def fold_add_others built_def)
  next
    case 5
    then show ?thesis using bparses_memory_section [of "src_memories m" "built m 4 5"] ok
      by (simp add: src_sections_def parse_section_body_def fold_add_others built_def)
  next
    case 6
    from 6 bparses_export_section [OF _ _ exports_in_builder [OF m]] show ?thesis using ok
      by (simp add: src_sections_def parse_section_body_def fold_add_others built_def)
  next
    case 7
    with out obtain i where i: "src_start m = Some i" by (auto simp: left_out_def src_sections_def)
    then have "unat i < length (mb_functions (built m 6 8))"
      using ok by (simp add: built_def src_signatures_def)
    from 7 i bparses_start_section [OF this] show ?thesis
      by (simp add: src_sections_def parse_section_body_def built_def)
  next
    case 8
    have "length (src_codes m) < 2 ^ 32" using ok by (simp add: max_defs)
    with 8 show ?thesis
      using bparses_code_section [of "src_signatures m" "src_codes m" "built m 7 10"] ok
      by (simp add: src_sections_def parse_section_body_def built_def)
  qed
qed

lemma reads_part:
  assumes m: "source_ok m" and n: "n < 8" and l: "l < unat (part_id m n)"
  shows "reads_sections (enc_part m n) (built m n l)
    (built m (Suc n) (if left_out m n then l else unat (part_id m n)))"
proof (cases "left_out m n")
  case True
  with built_left_out [OF m n] show ?thesis by (simp add: enc_part_def reads_nothing)
next
  case False
  have "(built m n l)\<lparr>latest_section_read := k\<rparr> = built m n k" "latest_section_read (built m n l) = l" for k
    by (simp_all add: built_def)
  with False part_ids(1) [OF n] l built_content [OF m n False] show ?thesis
    by (auto simp: enc_part_def intro!: reads_one_section parses_section)
qed

lemma reads_customs_of: "source_ok m \<Longrightarrow> reads_sections (enc_customs m n) b b"
  by (simp add: enc_customs_def reads_customs reads_nothing source_ok_def list_all_length)

lemma reads_parts:
  assumes m: "source_ok m"
  shows "n \<le> 8 \<Longrightarrow> \<exists>l. (n < 8 \<longrightarrow> l < unat (part_id m n)) \<and>
    reads_sections (concat (map (\<lambda>n. enc_customs m n @ enc_part m n) [0..<n])) (built m 0 0) (built m n l)"
proof (induction n)
  case 0
  show ?case using part_ids(2) [of 0 m] by (auto simp: reads_nothing)
next
  case (Suc n)
  then obtain l where l: "l < unat (part_id m n)"
    and r: "reads_sections (concat (map (\<lambda>n. enc_customs m n @ enc_part m n) [0..<n])) (built m 0 0) (built m n l)"
    by auto
  let ?l = "if left_out m n then l else unat (part_id m n)"
  have n: "n < 8" using Suc.prems by simp
  have "reads_sections (concat (map (\<lambda>n. enc_customs m n @ enc_part m n) [0..<n]) @ enc_customs m n @ enc_part m n)
      (built m 0 0) (built m (Suc n) ?l)"
    by (intro reads_sections_append [OF r] reads_sections_append [OF reads_customs_of [OF m]]
        reads_part [OF m n l])
  moreover have "Suc n < 8 \<longrightarrow> ?l < unat (part_id m (Suc n))"
    using part_ids(3) [OF n, of m] l by (auto intro: less_trans)
  ultimately show ?case by auto
qed

section \<open>Whole modules\<close>

lemma fold_emplace_exports:
  "distinct (map export_name es) \<Longrightarrow> dom m \<inter> set (map export_name es) = {} \<Longrightarrow>
   fold emplace_export es m = m ++ map_of (function_exports es)"
proof (induction es arbitrary: m)
  case (Cons e es)
  have names: "fst ` set (function_exports es) \<subseteq> set (map export_name es)" for es
    by (induction es) (auto split: export_description.splits)
  have IH: "fold emplace_export es (emplace_export e m)
      = emplace_export e m ++ map_of (function_exports es)"
    by (rule Cons.IH) (use Cons.prems in \<open>auto simp: emplace_export_def split: export_description.splits if_splits\<close>)
  from Cons.prems names [of es]
  have "m (export_name e) = None" "map_of (function_exports es) (export_name e) = None"
    by (auto simp: map_of_eq_None_iff)
  then have "emplace_export e m ++ map_of (function_exports es) = m ++ map_of (function_exports (e # es))"
    by (auto simp: emplace_export_def fun_eq_iff map_add_def split: export_description.split option.split)
  with IH show ?case by (simp only: fold_Cons comp_apply)
qed simp

text \<open>A module cut off before its \<open>n\<close>th part.\<close>

definition enc_prefix :: "module_source \<Rightarrow> nat \<Rightarrow> u8 list" where
  "enc_prefix m n = kMagicBytes @ kVersionOne @
     concat (map (\<lambda>n. enc_customs m n @ enc_part m n) [0..<n]) @ enc_customs m n"

lemma enc_prefix_8: "enc_prefix m 8 = enc_module m"
  by (simp add: enc_prefix_def enc_module_def)

lemma length_enc_prefix: "n \<le> 8 \<Longrightarrow> length (enc_prefix m n) \<le> length (enc_module m)"
proof (induction rule: inc_induct)
  case (step n)
  have "length (enc_prefix m n) \<le> length (enc_prefix m (Suc n))" by (simp add: enc_prefix_def)
  with step.IH show ?case by simp
qed (simp add: enc_prefix_8)

lemma parse_enc_prefix:
  assumes m: "source_ok m" and n: "n \<le> 8"
  shows "parse_module (new_byte_stream (enc_prefix m n)) =
    (Inr \<lparr>module_functions = mb_functions (built m n 0),
       exported_functions = map_of (function_exports (mb_exports (built m n 0)))\<rparr>,
     advance (length (enc_prefix m n)) (new_byte_stream (enc_prefix m n)))"
proof -
  let ?s = "new_byte_stream (enc_prefix m n)"
  let ?parts = "concat (map (\<lambda>n. enc_customs m n @ enc_part m n) [0..<n]) @ enc_customs m n"
  have ok: "stream_ok ?s" using m length_enc_prefix [OF n, of m] by (simp add: source_ok_def)
  obtain l where "reads_sections (concat (map (\<lambda>n. enc_customs m n @ enc_part m n) [0..<n]))
      (built m 0 0) (built m n l)"
    using reads_parts [OF m n] by auto
  from reads_sections_append [OF this reads_customs_of [OF m]]
  have "reads_sections ?parts new_builder (built m n l)"
    by (simp add: built_def new_builder_def)
  moreover have "stream_ok (advance 8 ?s)" "remaining (advance 8 ?s) = ?parts @ []"
    using ok by (simp_all add: enc_prefix_def kMagicBytes_def kVersionOne_def)
  ultimately have "parse_sections (new_builder, advance 8 ?s)
      = parse_sections (built m n l, advance (length ?parts) (advance 8 ?s))"
    unfolding reads_sections_def by blast
  also have "\<dots> = (Inr (), (built m n l, advance (length (enc_prefix m n)) ?s))"
    by (subst parse_sections.simps)
      (simp add: has_remaining_iff enc_prefix_def kMagicBytes_def kVersionOne_def add.assoc)
  finally have "parse_sections (new_builder, advance 8 ?s)
      = (Inr (), (built m n l, advance (length (enc_prefix m n)) ?s))" .
  moreover have "read_bytes 4 ?s = (Inr kMagicBytes, advance 4 ?s)"
    "read_bytes 4 (advance 4 ?s) = (Inr kVersionOne, advance 8 ?s)"
    using ok by (simp_all add: read_bytes_run enc_prefix_def kMagicBytes_def kVersionOne_def)
  moreover have "fold emplace_export (mb_exports (built m n l)) Map.empty
      = map_of (function_exports (mb_exports (built m n 0)))"
    using m by (simp add: fold_emplace_exports source_ok_def built_def)
  ultimately show ?thesis
    by (simp add: parse_module_def builder_parse_def seq_run_Inr on_snd_run on_fst_run build_def)
      (simp add: built_def)
qed

lemma parse_enc_module:
  assumes "source_ok m"
  shows "parse_module (new_byte_stream (enc_module m))
    = (Inr (source_module m), advance (length (enc_module m)) (new_byte_stream (enc_module m)))"
  using parse_enc_prefix [OF assms order.refl] by (simp add: enc_prefix_8 built_def source_module_def)

section \<open>A small module\<close>

text \<open>One function \<open>(i32) -> i32\<close>, exported as \<open>f\<close>, which adds seven to its argument.\<close>

definition add_seven_source :: module_source where
  "add_seven_source =
     \<lparr>src_customs = [], src_keep_empty = False,
      src_types = [\<lparr>parameter_types = [kI32], result_types = [kI32]\<rparr>],
      src_imports = [], src_functions = [0], src_tables = [], src_memories = [],
      src_exports = [\<lparr>export_name = [0x66], export_desc = ExportFunc 0\<rparr>], src_start = None,
      src_codes = [\<lparr>code_locals = [], code_body = [GetLocalI32 0, ConstI32 (value_U32 7), AddI32]\<rparr>]\<rparr>"

definition add_seven_bytes :: "u8 list" where
  "add_seven_bytes =
     [0x00, 0x61, 0x73, 0x6D, 0x01, 0x00, 0x00, 0x00,
      0x01, 0x06, 0x01, 0x60, 0x01, 0x7F, 0x01, 0x7F,
      0x03, 0x02, 0x01, 0x00,
      0x07, 0x05, 0x01, 0x01, 0x66, 0x00, 0x00,
      0x0A, 0x09, 0x01, 0x07, 0x00, 0x20, 0x00, 0x41, 0x07, 0x6A, 0x0B]"

definition add_seven :: wasm_function where
  "add_seven =
     \<lparr>meta = \<lparr>signature = \<lparr>parameter_types = [kI32], result_types = [kI32]\<rparr>, locals = [],
              max_stack_size_bytes = 8, max_stack_elements = 2\<rparr>,
      body = [GetLocalI32 0, ConstI32 (value_U32 7), AddI32]\<rparr>"

lemma encode_small: "unat v < 128 \<Longrightarrow> encode_unsigned v = [of_nat (unat v)]"
  by (simp add: encode_unsigned_unfold [of v] drop_bit_7_eq_0_iff [symmetric] del: of_nat_unat)

lemma eight_parts: "[0..<8] = [0, 1, 2, 3, 4, 5, 6, 7::nat]"
  by (simp add: upt_rec)

lemmas enc_defs = enc_module_def eight_parts enc_customs_def enc_part_def left_out_def src_sections_def
  enc_section_def enc_vec_def enc_signature_def enc_val_type_def enc_import_def enc_global_type_def
  enc_table_type_def enc_limits_def enc_export_def enc_name_def enc_code_def enc_code_content_def
  enc_expr_def kMagicBytes_def kVersionOne_def

lemma enc_add_seven: "enc_module add_seven_source = add_seven_bytes"
  by (simp add: enc_defs encode_small value_U32_def as_U32_def add_seven_source_def add_seven_bytes_def)

lemma code_validated_add_seven:
  "code_validated \<lparr>parameter_types = [kI32], result_types = [kI32]\<rparr>
     \<lparr>code_locals = [], code_body = [GetLocalI32 0, ConstI32 (value_U32 7), AddI32]\<rparr>
   = (Inr (), \<lparr>v_locals = [kI32], v_returns = [kI32], v_unreachable = False, v_underlying = [],
        v_current_memory_usage = 0, v_max_stack_size = 2, v_max_memory_usage = 8\<rparr>)"
  by code_simp

lemma as_U32_seven: "as_U32 (value_U32 7) = 7"
  by (simp add: as_U32_def value_U32_def)

lemma add_seven_ok: "source_ok add_seven_source"
  unfolding source_ok_def enc_add_seven
  by (simp add: add_seven_source_def export_source_ok_def src_signatures_def code_ok_def code_validated_add_seven max_defs
      signature_ok_def scalar_def name_ok_def local_types_def add_seven_bytes_def as_U32_seven
      enc_code_content_def enc_vec_def enc_expr_def encode_small)

lemma module_functions_add_seven: "module_functions (source_module add_seven_source) = [add_seven]"
  by (simp add: source_module_def add_seven_source_def src_signatures_def finished_def
      code_validated_add_seven add_seven_def local_types_def maximum_stack_size_bytes_def
      maximum_stack_elements_def)

lemma exports_add_seven: "exported_functions (source_module add_seven_source) = [[0x66] \<mapsto> 0]"
  by (simp add: source_module_def add_seven_source_def)

lemma parse_add_seven:
  "parse_module (new_byte_stream add_seven_bytes)
     = (Inr (source_module add_seven_source), advance 38 (new_byte_stream add_seven_bytes))"
  using parse_enc_module [OF add_seven_ok] by (simp add: enc_add_seven) (simp add: add_seven_bytes_def)

text \<open>A module with a section of every kind that is read, and custom sections before and after them:
  it imports a global, has a table and a memory of its own, exports the function \<open>f\<close> and the memory
  \<open>m\<close>, and starts with a function that does nothing.\<close>

definition sections_source :: module_source where
  "sections_source =
     \<lparr>src_customs = [[[0x01, 0x6E]], [], [], [], [], [], [], [], [[0x01, 0x6F]]], src_keep_empty = False,
      src_types = [\<lparr>parameter_types = [kI32], result_types = [kI32]\<rparr>,
        \<lparr>parameter_types = [], result_types = []\<rparr>],
      src_imports = [\<lparr>import_module_name = [0x65], import_name = [0x67],
        import_desc = ImportGlobal \<lparr>global_valtype = kI32, mut = False\<rparr>\<rparr>],
      src_functions = [0, 1],
      src_tables = [\<lparr>table_limits = \<lparr>lim_min = 1, lim_max = 0xFFFFFFFF\<rparr>, reftype = kFuncRef\<rparr>],
      src_memories = [\<lparr>mem_limits = \<lparr>lim_min = 1, lim_max = 2\<rparr>\<rparr>],
      src_exports = [\<lparr>export_name = [0x66], export_desc = ExportFunc 0\<rparr>,
        \<lparr>export_name = [0x6D], export_desc = ExportMem 0\<rparr>],
      src_start = Some 1,
      src_codes = [\<lparr>code_locals = [], code_body = [GetLocalI32 0, ConstI32 (value_U32 7), AddI32]\<rparr>,
        \<lparr>code_locals = [], code_body = []\<rparr>]\<rparr>"

definition sections_bytes :: "u8 list" where
  "sections_bytes =
     [0x00, 0x61, 0x73, 0x6D, 0x01, 0x00, 0x00, 0x00,
      0x00, 0x02, 0x01, 0x6E,
      0x01, 0x09, 0x02, 0x60, 0x01, 0x7F, 0x01, 0x7F, 0x60, 0x00, 0x00,
      0x02, 0x08, 0x01, 0x01, 0x65, 0x01, 0x67, 0x03, 0x7F, 0x00,
      0x03, 0x03, 0x02, 0x00, 0x01,
      0x04, 0x04, 0x01, 0x70, 0x00, 0x01,
      0x05, 0x04, 0x01, 0x01, 0x01, 0x02,
      0x07, 0x09, 0x02, 0x01, 0x66, 0x00, 0x00, 0x01, 0x6D, 0x02, 0x00,
      0x08, 0x01, 0x01,
      0x0A, 0x0C, 0x02, 0x07, 0x00, 0x20, 0x00, 0x41, 0x07, 0x6A, 0x0B, 0x02, 0x00, 0x0B,
      0x00, 0x02, 0x01, 0x6F]"

lemma enc_sections: "enc_module sections_source = sections_bytes"
  by (simp add: enc_defs encode_small value_U32_def as_U32_def sections_source_def sections_bytes_def)

lemma code_validated_nothing:
  "code_validated \<lparr>parameter_types = [], result_types = []\<rparr> \<lparr>code_locals = [], code_body = []\<rparr>
   = (Inr (), \<lparr>v_locals = [], v_returns = [], v_unreachable = False, v_underlying = [],
        v_current_memory_usage = 0, v_max_stack_size = 0, v_max_memory_usage = 0\<rparr>)"
  by code_simp

lemma sections_ok: "source_ok sections_source"
  unfolding source_ok_def enc_sections
  by (simp add: sections_source_def export_source_ok_def import_source_ok_def src_signatures_def
      code_ok_def code_validated_add_seven code_validated_nothing max_defs signature_ok_def scalar_def
      table_type_ok_def global_type_ok_def name_ok_def local_types_def sections_bytes_def as_U32_seven
      enc_code_content_def enc_vec_def enc_expr_def encode_small)

lemma source_module_sections:
  "source_module sections_source =
     \<lparr>module_functions = [add_seven,
        \<lparr>meta = \<lparr>signature = \<lparr>parameter_types = [], result_types = []\<rparr>, locals = [],
           max_stack_size_bytes = 0, max_stack_elements = 0\<rparr>, body = []\<rparr>],
      exported_functions = [[0x66] \<mapsto> 0]\<rparr>"
  by (simp add: source_module_def sections_source_def src_signatures_def finished_def
      code_validated_add_seven code_validated_nothing add_seven_def local_types_def
      maximum_stack_size_bytes_def maximum_stack_elements_def)



end
