(* ===== verification/Parser_Properties.thy ===== *)
theory Parser_Properties
  imports Module_Encoding
begin

text \<open>
  The theorems about \<open>ParseModule\<close> on arbitrary input: what an accepted module satisfies, how
  much of the stream is read, and which exceptions a rejected one ends with.
\<close>

section \<open>Exceptions\<close>

text \<open>The exceptions that the parser means to throw; no undefined behaviour is among them.\<close>

fun parser_exn :: "exn \<Rightarrow> bool" where
  "parser_exn EndOfStreamException = True"
| "parser_exn DecodeException = True"
| "parser_exn (ParseException _) = True"
| "parser_exn (ModuleTooLargeException _) = True"
| "parser_exn ValidationException = True"
| "parser_exn _ = False"

text \<open>\<open>clean P m\<close>: \<open>m\<close> keeps \<open>P\<close>, and throws nothing else.\<close>

definition clean :: "('s \<Rightarrow> bool) \<Rightarrow> ('s, 'a) op \<Rightarrow> bool" where
  "clean P m \<longleftrightarrow> triple P m (\<lambda>_. P) (\<lambda>e s. parser_exn e \<and> P s)"

lemma cleanI:
  assumes "\<And>s r s'. P s \<Longrightarrow> m s = (r, s') \<Longrightarrow> P s' \<and> (\<forall>e. r = Inl e \<longrightarrow> parser_exn e)"
  shows "clean P m"
  unfolding clean_def
proof (rule tripleI)
  fix s x s' assume "P s" and "m s = (Inr x, s')"
  from assms [OF this] show "P s'" by (rule conjunct1)
next
  fix s e s' assume "P s" and "m s = (Inl e, s')"
  from assms [OF this] show "parser_exn e \<and> P s'" by simp
qed

lemma cleanD: "clean P m \<Longrightarrow> P s \<Longrightarrow> m s = (Inl e, s') \<Longrightarrow> parser_exn e \<and> P s'"
  unfolding clean_def by (rule triple_InlD [where E = "\<lambda>e s. parser_exn e \<and> P s"])

lemma clean_keeps:
  assumes "clean P m" and "P s" and "m s = (r, s')"
  shows "P s'"
proof (cases r)
  case (Inl e)
  from cleanD [OF assms(1,2)] assms(3) Inl show ?thesis by blast
next
  case (Inr x)
  from triple_InrD [OF assms(1) [unfolded clean_def] assms(2)] assms(3) Inr show ?thesis by blast
qed

lemma clean_ret: "clean P (ret x)"
  unfolding clean_def by (rule triple_ret)

lemma clean_throw: "parser_exn e \<Longrightarrow> clean P (throw e)"
  unfolding clean_def by (rule triple_throw) simp

lemma clean_gets: "clean P (gets f)"
  unfolding clean_def by (rule triple_gets)

lemma clean_seq: "clean P m \<Longrightarrow> (\<And>x. clean P (f x)) \<Longrightarrow> clean P (seq m f)"
  unfolding clean_def by (rule triple_seq)

lemma clean_if: "clean P m \<Longrightarrow> clean P m' \<Longrightarrow> clean P (if b then m else m')"
  by simp

lemma clean_repeat: "clean P m \<Longrightarrow> clean P (repeat_op n m)"
  unfolding clean_def by (rule triple_repeat)

lemma clean_for_each: "(\<And>x. clean P (f x)) \<Longrightarrow> clean P (for_each f xs)"
  unfolding clean_def by (rule triple_for_each)

lemma clean_collect: "clean P m \<Longrightarrow> clean P (collect_op n m)"
  by (induction n) (unfold collect_op.simps, intro clean_ret, intro clean_seq clean_ret)

lemma clean_on_fst: "clean P m \<Longrightarrow> clean (P \<circ> fst) (on_fst m)"
  unfolding clean_def comp_def by (rule triple_on_fst) simp

lemma clean_on_snd: "clean P m \<Longrightarrow> clean (P \<circ> snd) (on_snd m)"
  unfolding clean_def comp_def by (rule triple_on_snd) simp

lemma clean_other_fst: "clean (\<lambda>_. True) m \<Longrightarrow> clean (P \<circ> fst) (on_snd m)"
  unfolding clean_def comp_def by (rule triple_on_snd) (simp add: triple_def)

lemma clean_other_snd: "clean (\<lambda>_. True) m \<Longrightarrow> clean (P \<circ> snd) (on_fst m)"
  unfolding clean_def comp_def by (rule triple_on_fst) (simp add: triple_def)

lemma clean_modify: "clean (\<lambda>_. True) (modify f)"
  by (auto simp: clean_def triple_def)

lemmas clean_intros = clean_seq clean_if clean_ret clean_gets clean_repeat clean_for_each
  clean_collect clean_throw

subsection \<open>The stream and the stateless parsers\<close>

lemma clean_read_byte: "clean stream_ok read_byte"
  by (rule cleanI) (auto simp: read_byte_run split: list.splits)

lemma clean_peek_byte: "clean stream_ok peek_byte"
  by (rule cleanI) (auto simp: peek_byte_run split: list.splits)

lemma clean_read_bytes: "clean stream_ok (read_bytes n)"
  by (rule cleanI) (auto simp: read_bytes_run split: if_splits)

lemma clean_skip: "clean stream_ok (skip n)"
  by (rule cleanI) (auto simp: skip_run split: if_splits)

lemma leb_scan_exn: "leb_scan n bs = Inl e \<Longrightarrow> parser_exn e"
  by (induction n bs rule: leb_scan.induct) (auto split: if_splits sum.splits)

lemma clean_decode: "clean stream_ok (decode_unsigned read_byte :: (byte_stream, 'a::len word) op)"
proof (rule cleanI)
  fix s r s' assume s: "stream_ok s" and run: "(decode_unsigned read_byte :: (byte_stream, 'a word) op) s = (r, s')"
  have "moves s s'" by (rule keepsD [OF forward_decode_unsigned run])
  with s run show "stream_ok s' \<and> (\<forall>e. r = Inl e \<longrightarrow> parser_exn e)"
    by (auto simp: moves_def byte_stream.decode_unsigned_run dest: leb_scan_exn split: sum.splits)
qed

lemmas clean_stream = clean_read_byte clean_peek_byte clean_read_bytes clean_skip clean_decode

lemma clean_types:
  "clean stream_ok parse_val_type" "clean stream_ok parse_name" "clean stream_ok parse_type_idx"
  "clean stream_ok parse_func_idx" "clean stream_ok parse_table_idx" "clean stream_ok parse_mem_idx"
  "clean stream_ok parse_global_idx" "clean stream_ok (parse_signature_types k)"
  "clean stream_ok parse_signature" "clean stream_ok parse_limits" "clean stream_ok parse_table_type"
  "clean stream_ok parse_mem_type" "clean stream_ok parse_global_type" "clean stream_ok parse_table"
  "clean stream_ok parse_memory" "clean stream_ok parse_const_expr" "clean stream_ok parse_global"
  unfolding parse_val_type_def parse_name_def parse_idx_defs parse_signature_types_def
    parse_signature_def parse_limits_def parse_table_type_def parse_mem_type_def
    parse_global_type_def parse_table_def parse_memory_def parse_const_expr_def parse_global_def
  by (intro clean_intros clean_stream; simp)+

subsection \<open>Bodies\<close>

lemma clean_validator:
  "clean (\<lambda>_. True) (pop t)" "clean (\<lambda>_. True) (push t)" "clean (\<lambda>_. True) (assert_local i vt)"
  "clean (\<lambda>_. True) assert_empty"
  by (rule cleanI; auto simp: pop_def pop_actual_def push_def assert_local_def assert_empty_def Let_def
      split: if_splits)+

lemma clean_pop_returns: "clean (\<lambda>_. True) pop_returns"
proof (rule cleanI)
  fix v r v' assume "pop_returns v = (r, v')"
  then have run: "for_each (\<lambda>vt. pop (Known vt)) (v_returns v) v = (r, v')" by (simp add: pop_returns_def)
  have "clean (\<lambda>_. True) (for_each (\<lambda>vt. pop (Known vt)) (v_returns v))"
    by (intro clean_intros clean_validator)
  with run show "True \<and> (\<forall>e. r = Inl e \<longrightarrow> parser_exn e)"
    by (auto dest: cleanD)
qed

lemma clean_validate_op: "clean (\<lambda>_. True) (validate_op i)"
  by (cases i; simp only: validate_op.simps;
      intro clean_intros clean_validator clean_pop_returns clean_modify)

lemma clean_finalize: "clean (\<lambda>_. True) finalize"
  unfolding finalize_def by (intro clean_intros clean_validator clean_pop_returns)

lemma clean_emit: "clean (\<lambda>_. True) (emit i)"
  by (rule cleanI)
    (auto simp: emit_def split: prod.splits sum.splits dest: cleanD [OF clean_validate_op TrueI])

lemma clean_emitter_finalize: "clean (\<lambda>_. True) emitter_finalize"
  by (rule cleanI)
    (auto simp: emitter_finalize_def split: prod.splits sum.splits dest: cleanD [OF clean_finalize TrueI])

lemma clean_parse_opcode: "clean (stream_ok \<circ> fst) (parse_opcode opcode)"
  unfolding parse_opcode_def
  by (intro clean_intros clean_on_fst clean_decode clean_other_fst clean_emit) simp

lemma clean_parse_opcodes: "clean (stream_ok \<circ> fst) parse_opcodes"
proof (rule cleanI)
  fix st r st' assume "(stream_ok \<circ> fst) st" and "parse_opcodes st = (r, st')"
  then show "(stream_ok \<circ> fst) st' \<and> (\<forall>e. r = Inl e \<longrightarrow> parser_exn e)"
  proof (induction st arbitrary: r st' rule: parse_opcodes.induct)
    case (1 st)
    have read: "clean (stream_ok \<circ> fst) (on_fst read_byte)"
      by (intro clean_on_fst clean_read_byte)
    let ?loop = "\<lambda>st2. if (stream_ok \<circ> fst) st2 then parse_opcodes st2 else (Inr (), st2)"
    have "moves_fst st st'" by (rule keepsD [OF forward_parse_opcodes 1(3)])
    then have ok: "(stream_ok \<circ> fst) st'" using 1(2) by (simp add: moves_fst_def moves_def)
    moreover have "parser_exn e" if e: "r = Inl e" for e
    proof -
      from 1(3) e consider "on_fst read_byte st = (Inl e, st')"
        | opcode st1 where "on_fst read_byte st = (Inr opcode, st1)" "opcode \<noteq> 0x0B"
            "parse_opcode opcode st1 = (Inl e, st')"
        | opcode st1 u st2 where "on_fst read_byte st = (Inr opcode, st1)" "opcode \<noteq> 0x0B"
            "parse_opcode opcode st1 = (Inr u, st2)" "parse_opcodes st2 = (Inl e, st')"
        by (auto simp: parse_opcodes.simps [of st] seq_Inl_iff split: if_splits)
      then show ?thesis
      proof cases
        case 1
        with \<open>(stream_ok \<circ> fst) st\<close> show ?thesis by (blast dest: cleanD [OF read])
      next
        case (2 opcode st1)
        from keepsD [OF forward_on_fst [OF forward_read_byte] 2(1)] \<open>(stream_ok \<circ> fst) st\<close>
        have "(stream_ok \<circ> fst) st1" by (simp add: moves_fst_def moves_def)
        with 2(3) show ?thesis by (blast dest: cleanD [OF clean_parse_opcode])
      next
        case (3 opcode st1 u st2)
        have "moves_fst st st2"
          by (rule moves_fst.R_trans [OF keepsD [OF forward_on_fst [OF forward_read_byte] 3(1)]
                keepsD [OF forward_parse_opcode 3(3)]])
        with \<open>(stream_ok \<circ> fst) st\<close> have "(stream_ok \<circ> fst) st2"
          by (simp add: moves_fst_def moves_def)
        with \<open>\<And>x xa xb xc r st'. \<lbrakk>on_fst read_byte st = (Inr x, xa); x \<noteq> 0x0B; parse_opcode x xa = (Inr xb, xc);
              (stream_ok \<circ> fst) xc; parse_opcodes xc = (r, st')\<rbrakk>
            \<Longrightarrow> (stream_ok \<circ> fst) st' \<and> (\<forall>e. r = Inl e \<longrightarrow> parser_exn e)\<close> [OF 3(1-3) _ 3(4)]
        show ?thesis by blast
      qed
    qed
    ultimately show ?case by blast
  qed
qed

lemma clean_parse_expression: "clean (stream_ok \<circ> fst) parse_expression"
proof (rule cleanI)
  fix st r st' assume ok: "(stream_ok \<circ> fst) st" and run: "parse_expression st = (r, st')"
  let ?st = "(fst st, \<lparr>op_validator = snd st, op_instructions = []\<rparr>)"
  have m: "clean (stream_ok \<circ> fst) (seq parse_opcodes (\<lambda>_. on_snd emitter_finalize))"
    by (intro clean_seq clean_parse_opcodes clean_other_fst clean_emitter_finalize)
  have "(stream_ok \<circ> fst) st'"
    using keepsD [OF forward_parse_expression run] ok by (simp add: moves_fst_def moves_def)
  moreover have "parser_exn e" if "r = Inl e" for e
  proof -
    from run that obtain st2 where "seq parse_opcodes (\<lambda>_. on_snd emitter_finalize) ?st = (Inl e, st2)"
      by (auto simp: parse_expression_def split: prod.splits)
    from cleanD [OF m _ this] ok show ?thesis by simp
  qed
  ultimately show "(stream_ok \<circ> fst) st' \<and> (\<forall>e. r = Inl e \<longrightarrow> parser_exn e)" by blast
qed

lemma clean_parse_body: "clean (stream_ok \<circ> snd) parse_body"
proof (rule cleanI)
  fix st r st' assume ok: "(stream_ok \<circ> snd) st" and run: "parse_body st = (r, st')"
  have "(stream_ok \<circ> snd) st'"
    using keepsD [OF forward_parse_body run] ok by (simp add: moves_snd_def moves_def)
  moreover have "parser_exn e" if "r = Inl e" for e
    using run that ok cleanD [OF clean_parse_expression]
    by (fastforce simp: parse_body_def split: prod.splits sum.splits)
  ultimately show "(stream_ok \<circ> snd) st' \<and> (\<forall>e. r = Inl e \<longrightarrow> parser_exn e)" by blast
qed

subsection \<open>The builder\<close>

lemmas clean_snd_intros = clean_intros clean_on_snd clean_stream clean_types clean_other_snd
  clean_modify

lemma clean_in_range: "clean P (validate_in_range msg idx v)"
  unfolding validate_in_range_def by (intro clean_intros) simp

lemma clean_parse_one_code: "clean (stream_ok \<circ> snd) parse_one_code"
  unfolding parse_one_code_def parse_locals_group_def Let_def
  by (intro clean_snd_intros clean_parse_body; simp)

lemma clean_on_function:
  assumes m: "clean (stream_ok \<circ> snd) m"
  shows "clean (stream_ok \<circ> snd) (on_function i m)"
proof (rule cleanI)
  fix st r st' assume ok: "(stream_ok \<circ> snd) st" and run: "on_function i m st = (r, st')"
  obtain b s where st: "st = (b, s)" by fastforce
  obtain f s' where m': "m (mb_functions b ! i, s) = (r, (f, s'))" and st': "snd st' = s'"
    using run by (auto simp: st on_function_def split: prod.splits)
  have ok: "(stream_ok \<circ> snd) (mb_functions b ! i, s)" using ok by (simp add: st)
  from clean_keeps [OF m ok m'] cleanD [OF m ok] m' st'
  show "(stream_ok \<circ> snd) st' \<and> (\<forall>e. r = Inl e \<longrightarrow> parser_exn e)" by simp
qed

lemma clean_exports: "clean (stream_ok \<circ> snd) (parse_exports n names)"
  by (induction n arbitrary: names)
    (unfold parse_exports.simps parse_one_export_def parse_export_desc_def,
      (intro clean_snd_intros clean_in_range | assumption | simp)+)

lemma clean_check_order: "clean (\<lambda>_. True) (check_section_order sid)"
  by (rule cleanI) (auto simp: check_section_order_def split: if_splits)

lemma clean_section_body: "clean (stream_ok \<circ> snd) (parse_section_body sid n)"
  unfolding parse_section_body_def parse_signature_section_def parse_import_section_def
    parse_function_declaration_section_def parse_table_section_def parse_memories_section_def
    parse_globals_section_def parse_exports_section_def parse_start_section_def
    parse_code_section_def parse_one_import_def parse_import_desc_def
  by (intro clean_snd_intros clean_in_range clean_exports clean_on_function clean_parse_one_code; simp)

lemma clean_one_section: "clean (stream_ok \<circ> snd) parse_one_section"
  unfolding parse_one_section_def
  by (intro clean_snd_intros clean_check_order clean_section_body)

lemma clean_sections: "clean (stream_ok \<circ> snd) parse_sections"
proof (rule cleanI)
  fix st r st' assume "(stream_ok \<circ> snd) st" and "parse_sections st = (r, st')"
  then show "(stream_ok \<circ> snd) st' \<and> (\<forall>e. r = Inl e \<longrightarrow> parser_exn e)"
  proof (induction st arbitrary: r st' rule: parse_sections.induct)
    case (1 st)
    show ?case
    proof (cases "has_remaining (snd st)")
      case True
      obtain r1 st1 where one: "parse_one_section st = (r1, st1)" by (metis surj_pair)
      have st1: "(stream_ok \<circ> snd) st1"
        using keepsD [OF forward_parse_one_section one] 1(2) by (simp add: moves_snd_def moves_def)
      show ?thesis
      proof (cases r1)
        case (Inl e)
        with one True 1(2,3) cleanD [OF clean_one_section, of st e st1] show ?thesis
          by (auto simp: parse_sections.simps [of st] seq_run_Inl)
      next
        case (Inr u)
        with one True 1(3) have "parse_sections st1 = (r, st')"
          by (simp add: parse_sections.simps [of st] seq_run_Inr)
        with 1(1) [OF True] one Inr st1 show ?thesis by blast
      qed
    qed (use 1 in \<open>auto simp: parse_sections.simps [of st]\<close>)
  qed
qed

lemma clean_builder_parse: "clean (stream_ok \<circ> snd) builder_parse"
  unfolding builder_parse_def by (intro clean_snd_intros clean_sections; simp)

section \<open>Sections leave the order check alone\<close>

definition same_latest :: "module_builder \<times> 't \<Rightarrow> module_builder \<times> 't \<Rightarrow> bool" where
  "same_latest st st' \<longleftrightarrow> latest_section_read (fst st') = latest_section_read (fst st)"

interpretation same_latest: frame same_latest
  by unfold_locales (simp_all add: same_latest_def)

lemma same_latest_stream: "keeps same_latest (on_snd m)"
  by (rule keepsI) (auto simp: on_snd_def same_latest_def split: prod.splits)

lemma same_latest_modify:
  "(\<And>b. latest_section_read (f b) = latest_section_read b) \<Longrightarrow> keeps same_latest (on_fst (modify f))"
  by (rule keepsI) (auto simp: on_fst_def same_latest_def)

lemma same_latest_in_range: "keeps same_latest (validate_in_range msg idx v)"
  unfolding validate_in_range_def by (intro same_latest.keeps_if same_latest.keeps_ret same_latest.keeps_throw)

lemmas same_latest_intros = same_latest.keeps_seq same_latest.keeps_if same_latest.keeps_ret
  same_latest.keeps_throw same_latest.keeps_gets same_latest.keeps_repeat
  same_latest.keeps_for_each same_latest_stream same_latest_modify same_latest_in_range

lemma same_latest_exports: "keeps same_latest (parse_exports n names)"
  by (induction n arbitrary: names)
    (unfold parse_exports.simps parse_one_export_def parse_export_desc_def,
      (intro same_latest_intros | assumption | simp)+)

lemma same_latest_function: "keeps same_latest (on_function i m)"
  by (rule keepsI) (auto simp: on_function_def same_latest_def split: prod.splits)

lemma same_latest_section_body: "keeps same_latest (parse_section_body sid n)"
  unfolding parse_section_body_def parse_signature_section_def parse_import_section_def
    parse_function_declaration_section_def parse_table_section_def parse_memories_section_def
    parse_globals_section_def parse_exports_section_def parse_start_section_def
    parse_code_section_def parse_one_import_def parse_import_desc_def
  by (intro same_latest_intros same_latest_exports same_latest_function; simp)

lemma section_id_bound:
  assumes "parse_section_body sid n st = (Inr u, st')"
  shows "unat sid \<le> 10"
proof -
  have "sid \<in> {0, 1, 2, 3, 4, 5, 6, 7, 8, 10}"
    using assms by (auto simp: parse_section_body_def split: if_splits)
  then show ?thesis by auto
qed

section \<open>The theorems\<close>

lemma scalar_list: "list_all scalar ts \<longleftrightarrow> kV128 \<notin> set ts"
  by (auto simp: list_all_iff scalar_def)

lemma completed_with_locals: "completed f \<Longrightarrow> with_locals f"
  by (simp add: completed_def with_locals_def)

lemma parsed_function:
  assumes "parse_module s = (Inr m, s')" and "f \<in> set (module_functions m)"
  shows "declared f \<or> completed f"
  using assms by (metis parse_module_builder builder_ok_functions)

text \<open>C17: an accepted module is within the limits of the implementation: at most 65536 functions,
  each with at most six parameters (they are passed in registers), at most one result and at most
  256 declared locals, none of type \<open>v128\<close>; at most 256 exported functions, with names of at most
  256 bytes.\<close>

theorem parsed_module_limits:
  assumes "parse_module s = (Inr m, s')"
  shows "length (module_functions m) \<le> 65536 \<and>
    (\<forall>f \<in> set (module_functions m).
       length (parameter_types (signature (meta f))) \<le> 6 \<and>
       length (result_types (signature (meta f))) \<le> 1 \<and>
       length (locals (meta f)) \<le> 256 \<and>
       kV128 \<notin> set (parameter_types (signature (meta f)) @ result_types (signature (meta f)) @
                      locals (meta f))) \<and>
    finite (dom (exported_functions m)) \<and> card (dom (exported_functions m)) \<le> 256 \<and>
    (\<forall>n \<in> dom (exported_functions m). length n \<le> 256)"
proof -
  obtain b where b: "builder_ok b" and m: "module_functions m = mb_functions b"
    "exported_functions m = fold emplace_export (mb_exports b) Map.empty"
    using assms by (rule parse_module_builder)
  from b have shape: "shape b" by (simp add: builder_ok_def)
  have dom: "dom (exported_functions m) \<subseteq> export_name ` set (mb_exports b)"
    using dom_fold_emplace [of "mb_exports b" Map.empty] by (simp add: m)
  then have fin: "finite (dom (exported_functions m))" by (rule finite_subset) simp
  have "card (dom (exported_functions m)) \<le> card (export_name ` set (mb_exports b))"
    using dom by (rule card_mono [rotated]) simp
  also have "\<dots> \<le> length (mb_exports b)"
    by (rule order.trans [OF card_image_le]) (simp_all add: card_length)
  finally have card: "card (dom (exported_functions m)) \<le> 256"
    using shape by (simp add: shape_def max_defs)
  have names: "length n \<le> 256" if "n \<in> dom (exported_functions m)" for n
    using that dom shape by (auto simp: shape_def list_all_iff export_ok_def name_ok_def max_defs)
  have funs: "with_locals f" if "f \<in> set (module_functions m)" for f
    using builder_ok_functions [OF b] that declared_with_locals completed_with_locals
    unfolding m by blast
  have "length (module_functions m) \<le> 65536"
    using shape by (simp add: shape_def max_defs m)
  then show ?thesis
    using fin card names funs
    by (simp add: with_locals_def signature_ok_def scalar_list max_defs)
qed

theorem parsed_module_limits_witness:
  "length (module_functions (source_module add_seven_source)) \<le> 65536 \<and>
   card (dom (exported_functions (source_module add_seven_source))) \<le> 256"
  using parsed_module_limits [OF parse_add_seven] by blast

lemma exported_in_range:
  assumes "parse_module s = (Inr m, s')" and "exported_functions m n = Some i"
  shows "unat i < length (module_functions m)"
proof -
  obtain b where b: "builder_ok b" and m: "module_functions m = mb_functions b"
    "exported_functions m = fold emplace_export (mb_exports b) Map.empty"
    using assms(1) by (rule parse_module_builder)
  then obtain e where "e \<in> set (mb_exports b)" "export_desc e = ExportFunc i"
    using fold_emplace [of "mb_exports b" Map.empty n i] assms(2) by auto
  moreover have "list_all (export_ok b) (mb_exports b)"
    using b by (simp add: builder_ok_def shape_def)
  ultimately have "export_ok b e" by (simp add: list_all_iff)
  with \<open>export_desc e = ExportFunc i\<close> show ?thesis by (simp add: m export_ok_def)
qed

text \<open>Every exported function exists: the index stored under a name is an index of the
  module's vector of functions, so looking it up there is in bounds.\<close>

theorem exports_in_range:
  assumes "parse_module s = (Inr m, s')" and "exported_functions m n = Some i"
  shows "unat i < length (module_functions m)"
  using assms by (rule exported_in_range)

theorem exports_in_range_witness:
  "unat (0 :: func_idx) < length (module_functions (source_module add_seven_source))"
  by (rule exports_in_range [OF parse_add_seven, of "[0x66]"]) (simp add: exports_add_seven)



text \<open>An accepted module is the whole stream: it starts with the magic bytes and the version,
  nothing is left unread, and the buffer is not changed.\<close>

theorem parse_module_reads_all:
  assumes "parse_module s = (Inr m, s')" and "stream_ok s"
  shows "take 8 (remaining s) = kMagicBytes @ kVersionOne \<and> remaining s' = [] \<and>
    buffer s' = buffer s \<and> position s' = length (buffer s)"
proof -
  from assms(1) obtain b2 where "seq builder_parse (\<lambda>_. on_fst build) (new_builder, s) = (Inr m, (b2, s'))"
    by (auto simp: parse_module_def split: prod.splits)
  then obtain u b1 where 1: "builder_parse (new_builder, s) = (Inr u, (b1, s'))"
    by (auto simp: on_fst_def build_def split: prod.splits)
  then obtain s1 s2 where 2: "read_bytes 4 s = (Inr kMagicBytes, s1)"
    "read_bytes 4 s1 = (Inr kVersionOne, s2)" and 3: "parse_sections (new_builder, s2) = (Inr u, (b1, s'))"
    unfolding builder_parse_def by (auto simp: on_snd_def split: if_splits prod.splits)
  from 2(1) assms(2) have s1: "s1 = advance 4 s" "take 4 (remaining s) = kMagicBytes"
    "stream_ok s1" by (auto simp: read_bytes_run split: if_splits)
  from 2(2) s1 have s2: "s2 = advance 8 s" "take 4 (drop 4 (remaining s)) = kVersionOne"
    by (auto simp: read_bytes_run split: if_splits)
  have "stream_ok s2" by (rule clean_keeps [OF clean_read_bytes s1(3) 2(2)])
  have "take 8 (remaining s) = take 4 (remaining s) @ take 4 (drop 4 (remaining s))"
    by (simp add: take_add [symmetric])
  moreover have "moves s2 s'"
    using keepsD [OF forward_parse_sections 3] by (simp add: moves_snd_def)
  moreover have "\<not> has_remaining s'" using parse_sections_ok [OF 3] new_builder_ok by simp
  ultimately show ?thesis
    using s1 s2 \<open>stream_ok s2\<close> by (auto simp: moves_def has_remaining_iff stream_ok_def remaining_def)
qed

theorem parse_module_reads_all_witness:
  "take 8 (remaining (new_byte_stream add_seven_bytes)) = kMagicBytes @ kVersionOne \<and>
   remaining (advance 38 (new_byte_stream add_seven_bytes)) = [] \<and>
   buffer (advance 38 (new_byte_stream add_seven_bytes)) = buffer (new_byte_stream add_seven_bytes) \<and>
   position (advance 38 (new_byte_stream add_seven_bytes)) = length (buffer (new_byte_stream add_seven_bytes))"
  by (rule parse_module_reads_all [OF parse_add_seven]) (simp add: add_seven_bytes_def)


lemma parse_bad_magic:
  "parse_module (new_byte_stream [1, 2, 3, 4])
     = (Inl (ParseException (MagicBytesMismatch [1, 2, 3, 4])), advance 4 (new_byte_stream [1, 2, 3, 4]))"
  by (simp add: parse_module_def builder_parse_def seq_run_Inr seq_run_Inl on_snd_run read_bytes_run
      kMagicBytes_def)


text \<open>C16: sections come in order. A section that is accepted is either a custom section (id 0),
  which changes nothing but the position, or its id is above every id read before and at most 10;
  it then becomes the latest one.\<close>

theorem section_order_enforced:
  assumes "parse_one_section (b, s) = (Inr u, (b', s'))"
  shows "\<exists>sid rest. remaining s = sid # rest \<and> position s < position s' \<and>
    (if sid = 0 then b' = b
     else latest_section_read b < unat sid \<and> unat sid \<le> 10 \<and> latest_section_read b' = unat sid)"
proof -
  obtain sid s1 b1 s2 sz s3 where 1: "on_snd read_byte (b, s) = (Inr sid, (b, s1))"
    and 2: "on_fst (check_section_order sid) (b, s1) = (Inr (), (b1, s2))"
    and 3: "on_snd decode_u32 (b1, s2) = (Inr sz, (b1, s3))"
    and 4: "parse_section_body sid sz (b1, s3) = (Inr u, (b', s'))"
    using assms unfolding parse_one_section_def
    by (auto simp: on_snd_def split: prod.splits)
  from 1 obtain rest where "remaining s = sid # rest"
    by (auto simp: on_snd_def read_byte_run split: list.splits)
  moreover have "position s < position s'"
    using parse_one_section_progress [OF assms] by simp
  moreover have "b' = b" if "sid = 0"
    using 2 4 that
    by (auto simp: parse_section_body_def on_snd_def on_fst_def check_section_order_def skip_def Let_def
        split: prod.splits if_splits)
  moreover have "latest_section_read b < unat sid \<and> latest_section_read b1 = unat sid" if "sid \<noteq> 0"
    using 2 that by (auto simp: on_fst_def check_section_order_def split: if_splits)
  moreover have "latest_section_read b' = latest_section_read b1"
    using keepsD [OF same_latest_section_body 4] by (simp add: same_latest_def)
  moreover have "unat sid \<le> 10" using section_id_bound [OF 4] .
  ultimately show ?thesis by auto
qed

theorem section_order_enforced_witness:
  "let s = new_byte_stream (enc_section 1 (enc_vec enc_signature (src_types add_seven_source)))
   in \<exists>b' s'. parse_one_section (new_builder, s) = (Inr (), (b', s')) \<and>
        (\<exists>sid rest. remaining s = sid # rest \<and> position s < position s' \<and>
          (if sid = 0 then b' = new_builder
           else latest_section_read new_builder < unat sid \<and> unat sid \<le> 10 \<and>
             latest_section_read b' = unat sid))"
proof -
  let ?e = "enc_section 1 (enc_vec enc_signature (src_types add_seven_source))"
  have "?e = [0x01, 0x06, 0x01, 0x60, 0x01, 0x7F, 0x01, 0x7F]"
    by (simp add: enc_defs encode_small add_seven_source_def)
  then have "length ?e < 2 ^ 31" by simp
  moreover have "bparses parse_one_section ?e () new_builder (built add_seven_source 1 1)"
    using bparses_signature_section [of "src_types add_seven_source" "new_builder\<lparr>latest_section_read := 1\<rparr>"]
      add_seven_ok
    by (intro parses_section)
      (simp_all add: parse_section_body_def fold_add_signatures new_builder_def built_def source_ok_def)
  ultimately obtain b' s' where run: "parse_one_section (new_builder, new_byte_stream ?e) = (Inr (), (b', s'))"
    using bparsesD [of parse_one_section ?e "()" new_builder _ "new_byte_stream ?e" "[]"] by auto
  from section_order_enforced [OF run] run show ?thesis by (auto simp: Let_def)
qed

section \<open>Where the parser and the binary format part\<close>

lemma bparses_const_u32: "parses parse_const_expr (0x41 # encode_unsigned (v :: u32)) (value_U32 v)"
  unfolding parse_const_expr_def
  by (rule parses_seq_Cons [OF parses_read_byte])
    (simp add: parses_seq_last [OF parses_decode_unsigned])

text \<open>A global's initialiser is read up to, but not including, its \<open>end\<close> opcode. In the binary
  format a constant expression is \<open>i32.const v end\<close>; \<open>parse_global\<close> leaves the \<open>0x0B\<close> on the stream,
  where the next global or section id is expected.\<close>

theorem global_end_not_consumed:
  assumes "stream_ok s" and "global_type_ok g"
    and "remaining s = enc_global_type g @ 0x41 # encode_unsigned (v :: u32) @ 0x0B # ts"
  shows "\<exists>s'. parse_global s = (Inr \<lparr>global_type = g, global_value = value_U32 v\<rparr>, s') \<and>
    remaining s' = 0x0B # ts"
proof -
  have "parses parse_global (enc_global_type g @ 0x41 # encode_unsigned v)
      \<lparr>global_type = g, global_value = value_U32 v\<rparr>"
    unfolding parse_global_def
    by (rule parses_seq [OF parses_global_type [OF assms(2)]])
      (rule parses_seq_last [OF bparses_const_u32], simp)
  from parsesD [OF this assms(1), of "0x0B # ts"] assms(3) show ?thesis by simp
qed

theorem global_end_not_consumed_witness:
  "\<exists>s'. parse_global (new_byte_stream [0x7F, 0x00, 0x41, 0x05, 0x0B]) =
      (Inr \<lparr>global_type = \<lparr>global_valtype = kI32, mut = False\<rparr>, global_value = value_U32 5\<rparr>, s') \<and>
    remaining s' = [0x0B]"
  by (rule global_end_not_consumed)
    (simp_all add: global_type_ok_def scalar_def enc_global_type_def enc_val_type_def encode_small)

text \<open>The operand of \<open>i32.const\<close> is read as an unsigned LEB128 integer, but the binary format
  and every encoder write a signed one: the one-byte encoding of -1 becomes the constant 127.\<close>

theorem const_operand_read_unsigned:
  "encode_signed (-1) = [0x7F] \<and>
   parse_opcode 0x41 (new_byte_stream [0x7F], e) =
     (case emit (ConstI32 (value_U32 127)) e of
        (r, e') \<Rightarrow> (r, (advance 1 (new_byte_stream [0x7F]), e')))"
proof -
  have "encode_signed (-1) = [0x7F]" by code_simp
  moreover have "decode_u32 (new_byte_stream [0x7F]) = (Inr 127, advance 1 (new_byte_stream [0x7F]))"
    using parsesD [OF parses_decode_unsigned, of "new_byte_stream [0x7F]" "127 :: u32" "[]"]
    by (simp add: encode_small)
  ultimately show ?thesis
    by (simp add: parse_opcode_def on_fst_run on_snd_run seq_run_Inr)
qed

text \<open>C21: a module whose code section is missing is accepted. Cut off before its code section, or
  anywhere after its function section, every module still parses: its functions have empty bodies,
  which nothing has validated against their signatures. The binary format requires as many code
  entries as functions, but the numbers are compared only when a code section is there.\<close>

theorem missing_code_accepted:
  assumes "source_ok m" and "3 \<le> n" and "n \<le> 7"
  shows "parse_module (new_byte_stream (enc_prefix m n)) =
    (Inr \<lparr>module_functions = map new_function (src_signatures m),
       exported_functions = (if 6 \<le> n then map_of (function_exports (src_exports m)) else Map.empty)\<rparr>,
     advance (length (enc_prefix m n)) (new_byte_stream (enc_prefix m n)))"
  using parse_enc_prefix [OF assms(1), of n] assms(2,3) by (simp add: built_def)

text \<open>The exported function \<open>f\<close> promises an \<open>i32\<close>, and an empty body is no function of its type.\<close>

theorem missing_code_accepted_witness:
  "parse_module (new_byte_stream (take 27 add_seven_bytes)) =
     (Inr \<lparr>module_functions = [new_function (signature (meta add_seven))], exported_functions = [[0x66] \<mapsto> 0]\<rparr>,
      advance 27 (new_byte_stream (take 27 add_seven_bytes))) \<and>
   body (new_function (signature (meta add_seven))) = [] \<and>
   fst (validate [] (new_validator (signature (meta add_seven)) [])) \<noteq> Inr ()"
proof -
  have "enc_prefix add_seven_source 7 = take 27 add_seven_bytes"
    by (simp add: enc_prefix_def upt_rec enc_defs encode_small add_seven_source_def add_seven_bytes_def)
  moreover have "src_signatures add_seven_source = [signature (meta add_seven)]"
    by (simp add: src_signatures_def add_seven_source_def add_seven_def)
  moreover have "function_exports (src_exports add_seven_source) = [([0x66], 0)]"
    by (simp add: add_seven_source_def)
  moreover have "fst (validate [] (new_validator (signature (meta add_seven)) [])) \<noteq> Inr ()"
    by code_simp
  moreover have "length (take 27 add_seven_bytes) = 27" by (simp add: add_seven_bytes_def)
  ultimately show ?thesis
    using missing_code_accepted [OF add_seven_ok, of 7] by (simp add: new_function_def)
qed

end
