(* ===== verification/Registers.thy ===== *)
theory Registers
  imports Value
begin

text \<open>
  Registers, register sets and calling conventions (compiler/common/call_convention.h,
  compiler/x64/call_convention.*, compiler/arm64/call_convention.*) and the register tracker
  (compiler/common/register_tracker.h). A register is its hardware number, which is what
  \<open>asmjit::Gp::id()\<close> returns; \<open>gp\<close> adds the width that the code selects with \<open>r32()\<close>/\<open>r64()\<close> on
  x86-64 and \<open>w()\<close>/\<open>x()\<close> on AArch64.
\<close>

section \<open>Register sets\<close>

text \<open>\<open>RegisterMask\<close> is a \<open>std::bitset<32>\<close>.\<close>

type_synonym register_mask = u32

definition mask_set :: "nat \<Rightarrow> register_mask \<Rightarrow> register_mask" where
  "mask_set r m = set_bit r m"

definition mask_reset :: "nat \<Rightarrow> register_mask \<Rightarrow> register_mask" where
  "mask_reset r m = unset_bit r m"

definition mask_test :: "nat \<Rightarrow> register_mask \<Rightarrow> bool" where
  "mask_test r m = bit m r"

definition mask_of :: "nat list \<Rightarrow> register_mask" where
  "mask_of regs = fold mask_set regs 0"

definition kMaxRegGroupNumRegisters :: nat where
  "kMaxRegGroupNumRegisters = 32"

text \<open>
  \<open>SeekNext\<close> increments the index of the iterator until it is at a member or at the end.
  \<open>seek m i\<close> is the loop from the index \<open>i\<close> on.
\<close>

function seek :: "register_mask \<Rightarrow> nat \<Rightarrow> nat" where
  "seek m i = (if i < kMaxRegGroupNumRegisters \<and> \<not> mask_test i m then seek m (Suc i) else i)"
  by pat_completeness auto
termination
  by (relation "measure (\<lambda>(m, i). kMaxRegGroupNumRegisters - i)") auto

declare seek.simps [simp del]

definition mask_begin :: "register_mask \<Rightarrow> nat" where
  "mask_begin m = seek m 0"

definition mask_next :: "register_mask \<Rightarrow> nat \<Rightarrow> nat" where
  "mask_next m i = seek m (Suc i)"

text \<open>The end of the range, and how an iterator, the pair of its mask and its index, is compared and
  read.\<close>

definition mask_clear :: register_mask where
  "mask_clear = 0"

definition mask_end :: "register_mask \<Rightarrow> register_mask \<times> nat" where
  "mask_end m = (m, kMaxRegGroupNumRegisters)"

definition iterator_eq :: "register_mask \<times> nat \<Rightarrow> register_mask \<times> nat \<Rightarrow> bool" where
  "iterator_eq it rhs \<longleftrightarrow> snd it = snd rhs \<and> fst it = fst rhs"

definition iterator_neq :: "register_mask \<times> nat \<Rightarrow> register_mask \<times> nat \<Rightarrow> bool" where
  "iterator_neq it rhs \<longleftrightarrow> \<not> iterator_eq it rhs"

lemma seek_le: "i \<le> kMaxRegGroupNumRegisters \<Longrightarrow> seek m i \<le> kMaxRegGroupNumRegisters"
  by (induction m i rule: seek.induct) (subst seek.simps, auto)

lemma at_end: "i \<le> kMaxRegGroupNumRegisters \<Longrightarrow>
    iterator_neq (m, i) (mask_end m) \<longleftrightarrow> i < kMaxRegGroupNumRegisters"
  by (auto simp: iterator_neq_def iterator_eq_def mask_end_def)

lemma seek_ge: "i \<le> seek m i"
  by (induction m i rule: seek.induct) (subst seek.simps, auto)

text \<open>What a range-based loop over a mask visits, from an iterator on. Its index is at most 32, and
  is less until it is \<open>end()\<close> (\<open>at_end\<close>).\<close>

function mask_from :: "register_mask \<Rightarrow> nat \<Rightarrow> nat list" where
  "mask_from m i =
     (if i < kMaxRegGroupNumRegisters then i # mask_from m (mask_next m i) else [])"
  by pat_completeness auto
termination
proof (relation "measure (\<lambda>(m, i). kMaxRegGroupNumRegisters - i)")
  fix m i assume "i < kMaxRegGroupNumRegisters"
  then show "((m, mask_next m i), (m, i)) \<in> measure (\<lambda>(m, i). kMaxRegGroupNumRegisters - i)"
    using seek_ge [of "Suc i" m] by (auto simp: mask_next_def)
qed simp

declare mask_from.simps [simp del]

definition mask_regs :: "register_mask \<Rightarrow> nat list" where
  "mask_regs m = mask_from m (mask_begin m)"

lemma mask_from_seek:
  "i \<le> 32 \<Longrightarrow> mask_from m (seek m i) = filter (\<lambda>r. mask_test r m) [i..<32]"
proof (induction "32 - i" arbitrary: i rule: less_induct)
  case less
  show ?case
  proof (cases "i < 32")
    case False
    with less.prems have "i = 32" by simp
    then show ?thesis
      by (simp add: seek.simps [of m 32] mask_from.simps [of m 32] kMaxRegGroupNumRegisters_def)
  next
    case True
    have IH: "mask_from m (seek m (Suc i)) = filter (\<lambda>r. mask_test r m) [Suc i..<32]"
      by (rule less.hyps) (use True in auto)
    show ?thesis
      using True IH
      by (simp add: seek.simps [of m i] mask_from.simps [of m i] mask_next_def
          kMaxRegGroupNumRegisters_def upt_conv_Cons)
  qed
qed

lemma mask_regs_filter: "mask_regs m = filter (\<lambda>r. mask_test r m) [0..<32]"
  using mask_from_seek [of 0 m] by (simp add: mask_regs_def mask_begin_def)

lemma mask_regs_distinct [simp]: "distinct (mask_regs m)"
  by (simp add: mask_regs_filter)

lemma mask_test_bound: "mask_test r m \<Longrightarrow> r < 32"
  using bit_imp_le_length [of m r] by (simp add: mask_test_def)

lemma set_mask_regs: "set (mask_regs m) = {r. mask_test r m}"
  by (auto simp: mask_regs_filter dest: mask_test_bound)

lemma mask_test_set: "r < 32 \<Longrightarrow> mask_test r' (mask_set r m) \<longleftrightarrow> r' = r \<or> mask_test r' m"
  by (auto simp: mask_test_def mask_set_def bit_set_bit_iff)

lemma mask_test_reset: "mask_test r' (mask_reset r m) \<longleftrightarrow> r' \<noteq> r \<and> mask_test r' m"
  by (auto simp: mask_test_def mask_reset_def bit_unset_bit_iff)

lemma mask_test_0 [simp]: "\<not> mask_test r 0"
  by (simp add: mask_test_def)

lemma mask_test_fold:
  "list_all (\<lambda>r. r < 32) rs \<Longrightarrow> mask_test r (fold mask_set rs m) \<longleftrightarrow> r \<in> set rs \<or> mask_test r m"
  by (induction rs arbitrary: m) (auto simp: mask_test_set)

lemma mask_test_of: "list_all (\<lambda>r. r < 32) rs \<Longrightarrow> mask_test r (mask_of rs) \<longleftrightarrow> r \<in> set rs"
  by (simp add: mask_of_def mask_test_fold)

text \<open>Iterating over a register set visits its members, each once, in increasing order of
  their numbers.\<close>

theorem register_mask_iteration:
  "mask_regs m = filter (\<lambda>r. bit m r) [0..<32]"
  by (simp add: mask_regs_filter mask_test_def)

section \<open>Widths\<close>

datatype gp = R32 (gp_id: nat) | R64 (gp_id: nat)

definition r32 :: "gp \<Rightarrow> gp" where "r32 r = R32 (gp_id r)"
definition r64 :: "gp \<Rightarrow> gp" where "r64 r = R64 (gp_id r)"

definition cast :: "gp \<Rightarrow> val_type \<Rightarrow> gp" where
  "cast reg vt = (if is_val_type_32bit vt then r32 reg else r64 reg)"

section \<open>Calling conventions\<close>

record call_convention =
  kSp :: nat
  kGpArgs :: "nat list"
  kVecArgs :: "nat list"
  kGpRets :: "nat list"
  kVecRets :: "nat list"
  kGpCalleeSavedRegisters :: register_mask
  kVecCalleeSavedRegisters :: register_mask
  kGpCallerSavedRegisters :: register_mask
  kVecCallerSavedRegisters :: register_mask
  kStackAlignment :: nat

text \<open>x86-64: rax 0, rcx 1, rdx 2, rbx 3, rsp 4, rbp 5, rsi 6, rdi 7, r8 to r15.\<close>

definition x64_gp_args :: "nat list" where
  [simp]: "x64_gp_args = [7, 6, 2, 1, 8, 9]"

definition x64_vec_args :: "nat list" where
  [simp]: "x64_vec_args = [0, 1, 2, 3, 4, 5, 6, 7]"

definition x64_gp_rets :: "nat list" where
  [simp]: "x64_gp_rets = [0, 2]"

definition x64_vec_rets :: "nat list" where
  [simp]: "x64_vec_rets = [0, 1]"

definition x64_cc :: call_convention where
  "x64_cc =
     \<lparr>kSp = 4,
      kGpArgs = x64_gp_args,
      kVecArgs = x64_vec_args,
      kGpRets = x64_gp_rets,
      kVecRets = x64_vec_rets,
      kGpCalleeSavedRegisters = mask_of [3, 5, 12, 13, 14, 15],
      kVecCalleeSavedRegisters = mask_of [],
      kGpCallerSavedRegisters = mask_of [0, 1, 2, 6, 7, 8, 9, 10, 11],
      kVecCallerSavedRegisters = mask_of [0..<32],
      kStackAlignment = 16\<rparr>"

text \<open>AArch64: x0 to x30, and sp with the number 31.\<close>

definition arm64_gp_args :: "nat list" where
  [simp]: "arm64_gp_args = [0, 1, 2, 3, 4, 5, 6, 7]"

definition arm64_vec_args :: "nat list" where
  [simp]: "arm64_vec_args = [0, 1, 2, 3, 4, 5, 6, 7]"

definition arm64_cc :: call_convention where
  "arm64_cc =
     \<lparr>kSp = 31,
      kGpArgs = arm64_gp_args,
      kVecArgs = arm64_vec_args,
      kGpRets = arm64_gp_args,
      kVecRets = arm64_vec_args,
      kGpCalleeSavedRegisters = mask_of [19, 20, 21, 22, 23, 24, 25, 26, 27, 28, 29],
      kVecCalleeSavedRegisters = mask_of [8, 9, 10, 11, 12, 13, 14, 15],
      kGpCallerSavedRegisters = mask_of [0, 1, 2, 3, 4, 5, 6, 7, 9, 10, 11, 12, 13, 14, 15],
      kVecCallerSavedRegisters = mask_of ([0..<8] @ [16..<32]),
      kStackAlignment = 16\<rparr>"

text \<open>What the compilers rely on in a calling convention.\<close>

locale calling_convention =
  fixes cc :: call_convention
  assumes sp_not_saved: "\<not> mask_test (kSp cc) (kGpCallerSavedRegisters cc)"
    and saved_disjoint:
      "mask_test r (kGpCallerSavedRegisters cc) \<Longrightarrow> \<not> mask_test r (kGpCalleeSavedRegisters cc)"
    and sp_not_callee: "\<not> mask_test (kSp cc) (kGpCalleeSavedRegisters cc)"
    and args_saved: "r \<in> set (kGpArgs cc) \<Longrightarrow> mask_test r (kGpCallerSavedRegisters cc)"
    and args_distinct: "distinct (kGpArgs cc)"
    and args_enough: "6 \<le> length (kGpArgs cc)"
    and rets_saved: "r \<in> set (kGpRets cc) \<Longrightarrow> mask_test r (kGpCallerSavedRegisters cc)"
    and rets_nonempty: "kGpRets cc \<noteq> []"
    and alignment: "kStackAlignment cc = 16"
begin

lemma arg_not_sp: "r \<in> set (kGpArgs cc) \<Longrightarrow> r \<noteq> kSp cc"
  using args_saved sp_not_saved by blast

lemma arg_in_bounds: "i < 6 \<Longrightarrow> i < length (kGpArgs cc)"
  using args_enough by simp

end

interpretation x64_cc: calling_convention x64_cc
  by unfold_locales (auto simp: x64_cc_def mask_test_of)

interpretation arm64_cc: calling_convention arm64_cc
  by unfold_locales (auto simp: arm64_cc_def mask_test_of)



section \<open>The register tracker\<close>

text \<open>The contract of a pool of registers: \<open>used\<close> are the ones that are taken.\<close>

locale register_pool =
  fixes all_regs :: "nat list"
    and used :: "'s \<Rightarrow> nat set"
    and take_reg :: "'s \<Rightarrow> nat option \<times> 's"
    and free_reg :: "nat \<Rightarrow> 's \<Rightarrow> 's"
  assumes take_None: "take_reg s = (None, s') \<Longrightarrow> s' = s \<and> set all_regs \<subseteq> used s"
    and take_Some: "take_reg s = (Some r, s') \<Longrightarrow>
      r \<in> set all_regs \<and> r \<notin> used s \<and> used s' = insert r (used s)"
    and free_used: "used (free_reg r s) = used s - {r}"
    and all_distinct: "distinct all_regs"
begin

lemma take_succeeds:
  assumes "finite U" and "card U < length all_regs" and "used s \<inter> set all_regs \<subseteq> U"
  shows "\<exists>r s'. take_reg s = (Some r, s') \<and> r \<in> set all_regs \<and> r \<notin> used s \<and>
    used s' = insert r (used s)"
proof (cases "take_reg s")
  case (Pair ro s')
  show ?thesis
  proof (cases ro)
    case None
    with Pair take_None have "set all_regs \<subseteq> used s" by blast
    with assms(3) have "set all_regs \<subseteq> U" by blast
    then have "length all_regs \<le> card U"
      using assms(1) card_mono distinct_card [OF all_distinct] by metis
    with assms(2) show ?thesis by simp
  next
    case (Some r)
    with Pair take_Some show ?thesis by blast
  qed
qed

end

text \<open>\<open>RegisterTracker\<close>: its state is the mask of the registers in use.\<close>

definition take_unused_register ::
    "call_convention \<Rightarrow> register_mask \<Rightarrow> nat option \<times> register_mask" where
  "take_unused_register cc m =
     (case find (\<lambda>reg. \<not> mask_test reg m) (mask_regs (kGpCallerSavedRegisters cc)) of
        Some reg \<Rightarrow> (Some reg, mask_set reg m)
      | None \<Rightarrow> (None, m))"

definition mark_register_unused :: "nat \<Rightarrow> register_mask \<Rightarrow> register_mask" where
  "mark_register_unused reg m = mask_reset reg m"

abbreviation caller_saved :: "call_convention \<Rightarrow> nat list" where
  "caller_saved cc \<equiv> mask_regs (kGpCallerSavedRegisters cc)"

definition in_use :: "register_mask \<Rightarrow> nat set" where
  "in_use m = {r. mask_test r m}"

lemma caller_saved_bound: "r \<in> set (caller_saved cc) \<Longrightarrow> r < 32"
  by (auto simp: set_mask_regs dest: mask_test_bound)

lemma take_None_iff:
  "take_unused_register cc m = (None, m') \<longleftrightarrow> m' = m \<and> set (caller_saved cc) \<subseteq> in_use m"
proof -
  have "find (\<lambda>reg. \<not> mask_test reg m) (caller_saved cc) = None \<longleftrightarrow>
      set (caller_saved cc) \<subseteq> in_use m"
    by (auto simp: find_None_iff in_use_def)
  then show ?thesis by (auto simp: take_unused_register_def split: option.split)
qed

lemma in_use_free: "in_use (mark_register_unused r m) = in_use m - {r}"
  by (auto simp: in_use_def mark_register_unused_def mask_test_reset)

lemma take_SomeD:
  assumes "take_unused_register cc m = (Some r, m')"
  shows "r \<in> set (caller_saved cc) \<and> r \<notin> in_use m \<and> in_use m' = insert r (in_use m)"
proof -
  have f: "find (\<lambda>reg. \<not> mask_test reg m) (caller_saved cc) = Some r" and m': "m' = mask_set r m"
    using assms by (auto simp: take_unused_register_def split: option.splits)
  then have r: "r \<in> set (caller_saved cc)" "\<not> mask_test r m"
    by (auto simp: find_Some_iff)
  with m' show ?thesis
    by (auto simp: in_use_def mask_test_set [OF caller_saved_bound])
qed

interpretation tracker: register_pool
  "caller_saved cc" in_use "take_unused_register cc" mark_register_unused for cc
  by unfold_locales (simp_all add: take_None_iff take_SomeD in_use_free)

text \<open>The tracker is a pool of the caller-saved registers. \<open>TakeUnusedRegister\<close> returns a
  register of the pool that was not in use and marks it, and fails (changing nothing) exactly
  when all are in use; \<open>MarkRegisterUnused\<close> returns one to the pool.\<close>

theorem tracker_contract:
  "(case take_unused_register cc m of
      (Some r, m') \<Rightarrow> r \<in> set (caller_saved cc) \<and> r \<notin> in_use m \<and> in_use m' = insert r (in_use m)
    | (None, m') \<Rightarrow> m' = m \<and> set (caller_saved cc) \<subseteq> in_use m) \<and>
   in_use (mark_register_unused r m) = in_use m - {r}"
  using tracker.take_Some [of cc m] tracker.take_None [of cc m] tracker.free_used [of r m]
  by (auto split: prod.split option.split)

primrec take_n :: "call_convention \<Rightarrow> nat \<Rightarrow> register_mask \<Rightarrow> nat option list" where
  "take_n cc 0 m = []"
| "take_n cc (Suc n) m =
     (let (r, m') = take_unused_register cc m in r # take_n cc n m')"

lemma find_drop:
  assumes "distinct xs" and "i \<le> length xs"
  shows "find (\<lambda>x. x \<notin> set (take i xs)) xs = (if i < length xs then Some (xs ! i) else None)"
proof (cases "i < length xs")
  case True
  then have "xs ! i \<notin> set (take i xs)"
    using assms by (auto simp: in_set_conv_nth nth_eq_iff_index_eq)
  moreover have "\<forall>j < i. xs ! j \<in> set (take i xs)"
    using True by (auto simp: in_set_conv_nth intro!: exI)
  ultimately show ?thesis
    using True by (auto simp: find_Some_iff)
next
  case False
  with assms show ?thesis by (simp add: find_None_iff)
qed

lemma take_n_from:
  assumes "i \<le> length (caller_saved cc)" and "in_use m = set (take i (caller_saved cc))"
  shows "take_n cc n m = map Some (take n (drop i (caller_saved cc))) @
    replicate (n - (length (caller_saved cc) - i)) None"
  using assms
proof (induction n arbitrary: i m)
  case (Suc n)
  let ?rs = "caller_saved cc"
  have test: "(\<lambda>reg. \<not> mask_test reg m) = (\<lambda>reg. reg \<notin> set (take i ?rs))"
    using Suc.prems(2) by (auto simp: in_use_def)
  show ?case
  proof (cases "i < length ?rs")
    case True
    then have t: "take_unused_register cc m = (Some (?rs ! i), mask_set (?rs ! i) m)"
      using find_drop [of ?rs i] by (simp add: take_unused_register_def test)
    have "in_use (mask_set (?rs ! i) m) = set (take (Suc i) ?rs)"
      using take_SomeD [OF t] Suc.prems(2) True by (simp add: take_Suc_conv_app_nth)
    with Suc.IH [of "Suc i"] True t show ?thesis
      by (simp add: Cons_nth_drop_Suc [symmetric])
  next
    case False
    then have t: "take_unused_register cc m = (None, m)"
      using find_drop [of ?rs i] Suc.prems(1) by (simp add: take_unused_register_def test)
    with Suc.IH [OF Suc.prems] False show ?thesis by simp
  qed
qed simp

text \<open>A fresh tracker hands out every caller-saved register exactly once, in the order of their
  numbers, and then nothing more: nine on x86-64 and fifteen on AArch64.\<close>

theorem tracker_hands_out_all:
  "take_n cc n 0 = map Some (take n (caller_saved cc)) @ replicate (n - length (caller_saved cc)) None \<and>
   distinct (caller_saved cc) \<and> length (caller_saved x64_cc) = 9 \<and> length (caller_saved arm64_cc) = 15"
proof -
  have "length (caller_saved x64_cc) = 9" "length (caller_saved arm64_cc) = 15"
    by (simp_all add: mask_regs_filter x64_cc_def arm64_cc_def mask_test_of upt_rec)
  with take_n_from [of 0 cc 0 n] show ?thesis by (simp add: in_use_def)
qed

end
