(* ===== verification/Runtime_Stack.thy ===== *)
theory Runtime_Stack
  imports Registers
begin

text \<open>
  The compile-time stack of compiler/common/runtime_stack.h: which values are on the operand
  stack at a point of the generated code, in which register each is, and which slot of the frame
  it may spill to. The first \<open>_stack_size\<close> elements of the fixed array are the list \<open>items\<close>,
  bottom first. Leaving the array on either side, or overflowing the \<open>int32_t\<close> offset, is
  undefined behaviour in the code.
\<close>

record runtime_value =
  stack_pointer :: int
  reg :: "gp option"
  rv_type :: val_type

definition new_value :: "val_type \<Rightarrow> runtime_value" where
  "new_value t = \<lparr>stack_pointer = 0, reg = None, rv_type = t\<rparr>"

definition rv_size_bytes :: "runtime_value \<Rightarrow> nat" where
  "rv_size_bytes v = val_type_size_bytes (rv_type v)"

record runtime_stack =
  capacity :: nat
  stack_memory_offset :: int
  items :: "runtime_value list"

definition new_runtime_stack :: "nat \<Rightarrow> runtime_stack" where
  "new_runtime_stack n = \<lparr>capacity = n, stack_memory_offset = 0, items = []\<rparr>"

definition stack_push :: "runtime_value \<Rightarrow> (runtime_stack, unit) op" where
  "stack_push v s =
     (let off = stack_memory_offset s + int (rv_size_bytes v) in
      if 2 ^ 31 \<le> off then (Inl (UndefinedBehaviour ''int32_t overflow''), s)
      else if capacity s \<le> length (items s)
      then (Inl (UndefinedBehaviour ''FixedArray index''), s)
      else (Inr (), s\<lparr>stack_memory_offset := off,
                      items := items s @ [v\<lparr>stack_pointer := off\<rparr>]\<rparr>))"

definition stack_pop :: "(runtime_stack, runtime_value) op" where
  "stack_pop s =
     (if items s = [] then (Inl (UndefinedBehaviour ''FixedArray index''), s)
      else (let top = last (items s) in
        (Inr top, s\<lparr>stack_memory_offset := stack_memory_offset s - int (rv_size_bytes top),
                    items := butlast (items s)\<rparr>)))"

text \<open>\<open>Peek\<close> returns a pointer to the top; what the code does through it is an update of the top.\<close>

definition stack_peek :: "(runtime_stack, runtime_value) op" where
  "stack_peek s =
     (if items s = [] then (Inl (UndefinedBehaviour ''FixedArray index''), s)
      else (Inr (last (items s)), s))"

definition set_top_reg :: "gp option \<Rightarrow> runtime_stack \<Rightarrow> runtime_stack" where
  "set_top_reg r s = s\<lparr>items := butlast (items s) @ [(last (items s))\<lparr>reg := r\<rparr>]\<rparr>"

text \<open>What \<open>ReverseIterator\<close> spans: the values from the bottom of the stack to the top.\<close>

definition reverse_iterator :: "runtime_stack \<Rightarrow> runtime_value list" where
  [simp]: "reverse_iterator s = items s"

definition stack_pointer_of :: "runtime_stack \<Rightarrow> int" where
  "stack_pointer_of s = stack_memory_offset s"

section \<open>The slots\<close>

text \<open>
  Every element has its own slot: the offset of an element is the total size of the elements up to
  and including it, and the offset of the stack is the total size.
\<close>

definition sizes :: "runtime_value list \<Rightarrow> nat" where
  "sizes vs = sum_list (map rv_size_bytes vs)"

definition slots_ok :: "runtime_stack \<Rightarrow> bool" where
  "slots_ok s \<longleftrightarrow> stack_memory_offset s = int (sizes (items s)) \<and>
     length (items s) \<le> capacity s \<and> sizes (items s) < 2 ^ 31 \<and>
     (\<forall>i < length (items s). stack_pointer (items s ! i) = int (sizes (take (Suc i) (items s))))"

lemma sizes_append [simp]: "sizes (xs @ ys) = sizes xs + sizes ys"
  by (simp add: sizes_def)

lemma sizes_simps [simp]: "sizes [] = 0" "sizes (v # vs) = rv_size_bytes v + sizes vs"
  by (simp_all add: sizes_def)

lemma size_bytes_update [simp]:
  "rv_size_bytes (v\<lparr>stack_pointer := p\<rparr>) = rv_size_bytes v"
  "rv_size_bytes (v\<lparr>reg := r\<rparr>) = rv_size_bytes v"
  by (simp_all add: rv_size_bytes_def)

lemma slots_ok_new: "slots_ok (new_runtime_stack n)"
  by (simp add: slots_ok_def new_runtime_stack_def)

lemma slots_ok_push:
  assumes "slots_ok s" and "stack_push v s = (Inr (), s')"
  shows "slots_ok s' \<and> (\<exists>p. items s' = items s @ [v\<lparr>stack_pointer := p\<rparr>])"
proof -
  let ?off = "stack_memory_offset s + int (rv_size_bytes v)"
  have s': "s' = s\<lparr>stack_memory_offset := ?off, items := items s @ [v\<lparr>stack_pointer := ?off\<rparr>]\<rparr>"
    and "?off < 2 ^ 31" "length (items s) < capacity s"
    using assms(2) by (auto simp: stack_push_def Let_def split: if_splits)
  with assms(1) have "slots_ok s'"
    by (auto simp: slots_ok_def nth_append less_Suc_eq)
  with s' show ?thesis by auto
qed

lemma slots_ok_pop:
  assumes "slots_ok s" and "stack_pop s = (Inr v, s')"
  shows "slots_ok s' \<and> items s = items s' @ [v] \<and> stack_pointer v = stack_memory_offset s"
proof -
  obtain xs x where x: "items s = xs @ [x]"
    using assms(2) by (cases "items s" rule: rev_cases) (auto simp: stack_pop_def)
  with assms(2) have v: "v = x"
    and s': "s' = s\<lparr>stack_memory_offset := stack_memory_offset s - int (rv_size_bytes x), items := xs\<rparr>"
    by (auto simp: stack_pop_def Let_def)
  have "slots_ok s'"
    unfolding slots_ok_def
  proof (intro conjI allI impI)
    fix i assume "i < length (items s')"
    then show "stack_pointer (items s' ! i) = int (sizes (take (Suc i) (items s')))"
      using assms(1) unfolding slots_ok_def
      by (auto simp: s' x nth_append dest!: spec [of _ i])
  qed (use assms(1) in \<open>auto simp: slots_ok_def s' x\<close>)
  moreover have "stack_pointer x = stack_memory_offset s"
    using assms(1) by (auto simp: slots_ok_def x nth_append)
  ultimately show ?thesis by (simp add: v s' x)
qed

text \<open>The contract of a stack, as the code generators use it.\<close>

locale operand_stack =
  fixes ok :: "'s \<Rightarrow> bool"
    and elements :: "'s \<Rightarrow> 'v list"
    and push_op :: "'v \<Rightarrow> ('s, unit) op"
    and pop_op :: "('s, 'v) op"
    and same :: "'v \<Rightarrow> 'v \<Rightarrow> bool"
  assumes push_law: "ok s \<Longrightarrow> push_op v s = (Inr (), s') \<Longrightarrow>
      ok s' \<and> (\<exists>v'. same v v' \<and> elements s' = elements s @ [v'])"
    and pop_law: "ok s \<Longrightarrow> pop_op s = (Inr v, s') \<Longrightarrow> ok s' \<and> elements s = elements s' @ [v]"
    and pop_total: "elements s \<noteq> [] \<Longrightarrow> \<exists>v s'. pop_op s = (Inr v, s')"
begin

lemma pop_push:
  assumes "ok s" and "push_op v s = (Inr (), s1)"
  shows "\<exists>v' s2. pop_op s1 = (Inr v', s2) \<and> ok s2 \<and> same v v' \<and> elements s2 = elements s"
proof -
  from push_law [OF assms] obtain v' where 1: "ok s1" "same v v'" "elements s1 = elements s @ [v']"
    by blast
  then obtain w s2 where 2: "pop_op s1 = (Inr w, s2)" using pop_total [of s1] by auto
  from pop_law [OF 1(1) 2] 1 2 show ?thesis by auto
qed

end

interpretation runtime_stack: operand_stack slots_ok items stack_push stack_pop
  "\<lambda>v v'. v' = v\<lparr>stack_pointer := stack_pointer v'\<rparr>"
proof (unfold_locales, goal_cases)
  case (1 s v s')
  from slots_ok_push [OF this] show ?case by force
next
  case (2 s v s')
  from slots_ok_pop [OF this] show ?case by simp
next
  case (3 s)
  then show ?case by (simp add: stack_pop_def Let_def)
qed

text \<open>\<open>Push\<close> and \<open>Pop\<close> are inverse: after a push that is defined, a pop returns the value
  with the slot the push gave it (the total size of the stack so far), and the elements, their
  slots and the offset are what they were.\<close>

theorem push_then_pop:
  assumes "slots_ok s" and "stack_push v s = (Inr (), s1)"
  shows "\<exists>v' s2. stack_pop s1 = (Inr v', s2) \<and> items s2 = items s \<and>
    stack_pointer_of s2 = stack_pointer_of s \<and>
    v' = v\<lparr>stack_pointer := stack_pointer_of s1\<rparr> \<and>
    stack_pointer_of s1 = stack_pointer_of s + int (rv_size_bytes v)"
proof -
  obtain v' s2 where pop: "stack_pop s1 = (Inr v', s2)" "slots_ok s2"
    "v' = v\<lparr>stack_pointer := stack_pointer v'\<rparr>" "items s2 = items s"
    using runtime_stack.pop_push [OF assms] by blast
  have s1: "slots_ok s1" using runtime_stack.push_law [OF assms] by blast
  from slots_ok_pop [OF s1 pop(1)] have "stack_pointer v' = stack_memory_offset s1" by blast
  moreover have "stack_memory_offset s2 = stack_memory_offset s"
    using pop(2,4) assms(1) by (simp add: slots_ok_def)
  moreover have "stack_memory_offset s1 = stack_memory_offset s + int (rv_size_bytes v)"
    using assms(2) by (auto simp: stack_push_def Let_def split: if_splits)
  ultimately show ?thesis using pop by (auto simp: stack_pointer_of_def)
qed

theorem push_then_pop_witness:
  "\<exists>v' s2. stack_pop (snd (stack_push (new_value kI64) (new_runtime_stack 32))) = (Inr v', s2) \<and>
     items s2 = [] \<and> stack_pointer v' = 8"
proof -
  let ?s = "new_runtime_stack 32"
  have run: "stack_push (new_value kI64) ?s = (Inr (), snd (stack_push (new_value kI64) ?s))"
    by (simp add: stack_push_def new_runtime_stack_def new_value_def rv_size_bytes_def Let_def)
  from push_then_pop [OF slots_ok_new run]
  obtain v' s2 where "stack_pop (snd (stack_push (new_value kI64) ?s)) = (Inr v', s2)"
    "items s2 = items ?s"
    "v' = (new_value kI64)\<lparr>stack_pointer := stack_pointer_of (snd (stack_push (new_value kI64) ?s))\<rparr>"
    "stack_pointer_of (snd (stack_push (new_value kI64) ?s)) = stack_pointer_of ?s + int (rv_size_bytes (new_value kI64))"
    by blast
  then show ?thesis
    by (simp add: new_runtime_stack_def new_value_def rv_size_bytes_def stack_pointer_of_def)
qed

end
