(* ===== verification/Function_Frame.thy ===== *)
theory Function_Frame
  imports Registers Ast
begin

text \<open>
  base/align.h and the layout of a function's frame (compiler/common/function_frame.h).
\<close>

section \<open>Alignment\<close>

definition align_down :: "'a::len word \<Rightarrow> 'a word \<Rightarrow> 'a word" where
  "align_down v alignment = v AND NOT (alignment - 1)"

definition align_up :: "'a::len word \<Rightarrow> 'a word \<Rightarrow> 'a word" where
  "align_up v alignment = align_down (v + alignment - 1) alignment"

lemma align_down_unat:
  fixes v :: "'a::len word"
  assumes "k < LENGTH('a)"
  shows "unat (align_down v (2 ^ k)) = unat v div 2 ^ k * 2 ^ k"
proof -
  have "align_down v (2 ^ k) = push_bit k (drop_bit k v)"
    unfolding align_down_def mask_eq_exp_minus_1 [symmetric]
    by (rule bit_word_eqI) (auto simp: bit_simps)
  moreover have "unat (push_bit k (drop_bit k v)) = unat v div 2 ^ k * 2 ^ k"
  proof -
    have "unat v div 2 ^ k * 2 ^ k < 2 ^ LENGTH('a)"
      by (rule le_less_trans [OF div_times_less_eq_dividend unsigned_less])
    then show ?thesis
      unfolding unsigned_push_bit_eq unsigned_drop_bit_eq
      by (simp add: take_bit_nat_eq_self push_bit_eq_mult drop_bit_eq_div del: take_bit_push_bit)
  qed
  ultimately show ?thesis by simp
qed

lemma align_up_unat:
  fixes v :: "'a::len word"
  assumes "k < LENGTH('a)" and "unat v + 2 ^ k - 1 < 2 ^ LENGTH('a)"
  shows "unat (align_up v (2 ^ k)) = (unat v + 2 ^ k - 1) div 2 ^ k * 2 ^ k"
proof -
  have "v + 2 ^ k - 1 = of_nat (unat v + 2 ^ k - 1)"
    by (subst of_nat_diff) (simp_all add: Suc_le_eq)
  then have "unat (v + 2 ^ k - 1) = unat v + 2 ^ k - 1"
    using assms(2) by (simp only: unat_of_nat) simp
  then show ?thesis
    unfolding align_up_def by (simp only: align_down_unat [OF assms(1)])
qed

text \<open>For a power of two \<open>2^k\<close>, \<open>AlignDown\<close> is the greatest multiple that is not above the
  value, and \<open>AlignUp\<close> the least that is not below it, unless the addition wraps around.\<close>

theorem align_correct:
  fixes v :: "'a::len word"
  assumes "k < LENGTH('a)" and "unat v + 2 ^ k - 1 < 2 ^ LENGTH('a)"
  shows "2 ^ k dvd unat (align_down v (2 ^ k)) \<and> unat (align_down v (2 ^ k)) \<le> unat v \<and>
    unat v < unat (align_down v (2 ^ k)) + 2 ^ k \<and>
    2 ^ k dvd unat (align_up v (2 ^ k)) \<and> unat v \<le> unat (align_up v (2 ^ k)) \<and>
    unat (align_up v (2 ^ k)) < unat v + 2 ^ k"
proof -
  have m: "n div 2 ^ k * 2 ^ k \<le> n \<and> n < n div 2 ^ k * 2 ^ k + 2 ^ k" for n :: nat
  proof -
    have "n mod 2 ^ k < 2 ^ k" by simp
    with div_mult_mod_eq [of n "2 ^ k"] show ?thesis by linarith
  qed
  have "(0 :: nat) < 2 ^ k" by simp
  with m [of "unat v"] m [of "unat v + 2 ^ k - 1"] show ?thesis
    unfolding align_down_unat [OF assms(1)] align_up_unat [OF assms]
    by (intro conjI dvd_triv_right) linarith+
qed

theorem align_correct_witness:
  "16 dvd unat (align_up (20 :: u32) (2 ^ 4)) \<and> 20 \<le> unat (align_up (20 :: u32) (2 ^ 4))"
  using align_correct [of 4 "20 :: u32"] by simp

section \<open>The frame\<close>

record function_frame =
  frame_meta :: function_metadata
  locals_size_bytes :: int
  locals_stack_offset :: "int list"

text \<open>
  \<open>int32_t\<close> sums of sizes are exact here: there are at most six parameters and 256 locals of at
  most sixteen bytes. The sum with the \<open>uint32_t\<close> size of the stack is computed in 32 bits, and
  the result converted to \<open>int32_t\<close>.
\<close>

definition stack_size_bytes :: "call_convention \<Rightarrow> function_frame \<Rightarrow> int" where
  "stack_size_bytes cc f =
     sint (align_up (of_int (locals_size_bytes f) + max_stack_size_bytes (frame_meta f))
       (of_nat (kStackAlignment cc)))"

text \<open>The two loops that lay out the parameters and then the declared locals.\<close>

fun lay_out :: "int \<Rightarrow> val_type list \<Rightarrow> int list \<times> int" where
  "lay_out off [] = ([], off)"
| "lay_out off (t # ts) =
     (let (offs, off') = lay_out (off + int (val_type_size_bytes t)) ts in (off # offs, off'))"

definition new_frame :: "call_convention \<Rightarrow> function_metadata \<Rightarrow> function_frame" where
  "new_frame cc m =
     (let (offs1, off1) = lay_out 0 (parameter_types (signature m));
          (offs2, off2) = lay_out off1 (locals m);
          f = \<lparr>frame_meta = m, locals_size_bytes = off2, locals_stack_offset = offs1 @ offs2\<rparr>
      in f\<lparr>locals_stack_offset := map (\<lambda>x. x - stack_size_bytes cc f) (locals_stack_offset f)\<rparr>)"

definition local_stack_offset :: "function_frame \<Rightarrow> nat \<Rightarrow> exn + int" where
  "local_stack_offset f idx =
     (if idx < length (locals_stack_offset f) then Inr (locals_stack_offset f ! idx)
      else Inl (UndefinedBehaviour ''FixedArray index''))"

definition all_locals :: "function_metadata \<Rightarrow> val_type list" where
  "all_locals m = parameter_types (signature m) @ locals m"

definition sizes_of :: "val_type list \<Rightarrow> int" where
  "sizes_of ts = int (sum_list (map val_type_size_bytes ts))"

lemma sizes_of_simps [simp]:
  "sizes_of [] = 0" "sizes_of (t # ts) = int (val_type_size_bytes t) + sizes_of ts"
  "sizes_of (ts @ ts') = sizes_of ts + sizes_of ts'"
  by (simp_all add: sizes_of_def)

lemma lay_out_spec:
  "lay_out off ts = (map (\<lambda>i. off + sizes_of (take i ts)) [0..<length ts], off + sizes_of ts)"
proof (induction ts arbitrary: off)
  case (Cons t ts)
  have "map (\<lambda>i. off + sizes_of (take i (t # ts))) [0..<length (t # ts)] =
      off # map (\<lambda>i. off + int (val_type_size_bytes t) + sizes_of (take i ts)) [0..<length ts]"
    by (simp only: list.size upt_conv_Cons zero_less_Suc add_Suc_right add_0_right)
      (simp add: map_Suc_upt [symmetric] del: upt_Suc)
  with Cons show ?case by (simp del: upt_Suc)
qed simp

lemma lay_out_append:
  "(let (offs1, off1) = lay_out off ts1; (offs2, off2) = lay_out off1 ts2 in (offs1 @ offs2, off2))
     = lay_out off (ts1 @ ts2)"
proof (induction ts1 arbitrary: off)
  case (Cons t ts1)
  show ?case by (simp add: Cons.IH [symmetric] Let_def split: prod.split)
qed (simp split: prod.split)

text \<open>The size of the frame, as a number.\<close>

definition frame_size :: "call_convention \<Rightarrow> function_metadata \<Rightarrow> int" where
  "frame_size cc m = stack_size_bytes cc \<lparr>frame_meta = m, locals_size_bytes = sizes_of (all_locals m),
     locals_stack_offset = []\<rparr>"

lemma new_frame_spec:
  "new_frame cc m = \<lparr>frame_meta = m, locals_size_bytes = sizes_of (all_locals m),
     locals_stack_offset =
       map (\<lambda>i. sizes_of (take i (all_locals m)) - frame_size cc m) [0..<length (all_locals m)]\<rparr>"
proof -
  obtain offs1 off1 where 1: "lay_out 0 (parameter_types (signature m)) = (offs1, off1)" by fastforce
  obtain offs2 off2 where 2: "lay_out off1 (locals m) = (offs2, off2)" by fastforce
  have "(offs1 @ offs2, off2) = lay_out 0 (all_locals m)"
    using lay_out_append [of 0 "parameter_types (signature m)" "locals m"] 1 2
    by (simp add: all_locals_def)
  then have 3: "offs1 @ offs2 = map (\<lambda>i. sizes_of (take i (all_locals m))) [0..<length (all_locals m)]"
    and 4: "off2 = sizes_of (all_locals m)"
    unfolding lay_out_spec add_0 by blast+
  have "new_frame cc m = \<lparr>frame_meta = m, locals_size_bytes = sizes_of (all_locals m),
      locals_stack_offset = map (\<lambda>x. x - frame_size cc m) (offs1 @ offs2)\<rparr>"
    by (simp add: new_frame_def frame_size_def stack_size_bytes_def 1 2 4)
  then show ?thesis unfolding 3 map_map comp_def .
qed

lemma stack_size_new_frame: "stack_size_bytes cc (new_frame cc m) = frame_size cc m"
  by (simp add: new_frame_spec frame_size_def stack_size_bytes_def)

text \<open>Frames of less than two gigabytes, for which no computation wraps.\<close>

definition frame_fits :: "function_metadata \<Rightarrow> bool" where
  "frame_fits m \<longleftrightarrow> sizes_of (all_locals m) + int (unat (max_stack_size_bytes m)) + 16 < 2 ^ 31"

lemma sizes_of_nonneg [simp]: "0 \<le> sizes_of ts"
  by (simp add: sizes_of_def)

lemma round_up_16:
  "int ((n + 15) div 16 * 16) mod 16 = 0 \<and> int n \<le> int ((n + 15) div 16 * 16) \<and>
   int ((n + 15) div 16 * 16) < int n + 16"
proof -
  have "(n + 15) div 16 * 16 + (n + 15) mod 16 = n + 15" and "(n + 15) mod 16 < 16"
    by simp_all
  then have "n \<le> (n + 15) div 16 * 16" and "(n + 15) div 16 * 16 < n + 16" by linarith+
  then show ?thesis by (simp add: zmod_int)
qed

lemma frame_size_bounds:
  assumes "frame_fits m" and "kStackAlignment cc = 16"
  shows "frame_size cc m mod 16 = 0 \<and>
    sizes_of (all_locals m) + int (unat (max_stack_size_bytes m)) \<le> frame_size cc m \<and>
    frame_size cc m < sizes_of (all_locals m) + int (unat (max_stack_size_bytes m)) + 16"
proof -
  obtain l where l: "sizes_of (all_locals m) = int l"
    using nonneg_int_cases [OF sizes_of_nonneg] by blast
  let ?s = "unat (max_stack_size_bytes m)"
  let ?v = "of_int (sizes_of (all_locals m)) + max_stack_size_bytes m :: u32"
  have "?v = of_nat (l + ?s)" by (simp add: l)
  moreover have less: "l + ?s + 16 < 2 ^ 31"
    using assms(1) unfolding frame_fits_def l
    by (simp only: of_nat_less_iff [where 'a = int, symmetric] of_nat_add
        of_nat_power of_nat_numeral)
  ultimately have v: "unat ?v = l + ?s"
    using unat_of_nat_u32 [of "l + ?s"] by simp
  have "(16 :: u32) = 2 ^ 4" by simp
  then have a: "frame_size cc m = sint (align_up ?v (2 ^ 4))"
    by (simp add: frame_size_def stack_size_bytes_def assms(2))
  have k: "4 < LENGTH(32)" "unat ?v + 2 ^ 4 - 1 < 2 ^ LENGTH(32)"
    unfolding v using less by simp_all
  have u: "unat (align_up ?v (2 ^ 4)) = (l + ?s + 15) div 16 * 16"
    using align_up_unat [OF k] unfolding v by simp
  have "(l + ?s + 15) div 16 * 16 < 2 ^ 31"
    using less div_times_less_eq_dividend [of "l + ?s + 15" 16] by linarith
  then have "frame_size cc m = int ((l + ?s + 15) div 16 * 16)"
    unfolding a using sint_of_nat_i32 [of "(l + ?s + 15) div 16 * 16"]
    by (simp add: u [symmetric] del: of_nat_mult)
  then show ?thesis
    unfolding l using round_up_16 [of "l + ?s"] by simp
qed

lemma sizes_of_take_Suc:
  "j < length ts \<Longrightarrow> sizes_of (take (Suc j) ts) = sizes_of (take j ts) + int (val_type_size_bytes (ts ! j))"
  by (simp add: take_Suc_conv_app_nth)

lemma sizes_of_take_mono: "j \<le> k \<Longrightarrow> sizes_of (take j ts) \<le> sizes_of (take k ts)"
proof -
  assume "j \<le> k"
  then have "take k ts = take j ts @ take (k - j) (drop j ts)"
    by (metis le_add_diff_inverse take_add)
  then show ?thesis by simp
qed

lemma sizes_of_take_le: "sizes_of (take k ts) \<le> sizes_of ts"
  using sizes_of_take_mono [of k "max k (length ts)" ts] by simp


definition sample_meta :: function_metadata where
  "sample_meta = \<lparr>signature = \<lparr>parameter_types = [kI32, kI64], result_types = []\<rparr>,
     locals = [kI32], max_stack_size_bytes = 8, max_stack_elements = 2\<rparr>"

lemma sample_locals: "all_locals sample_meta = [kI32, kI64, kI32]"
  by (simp add: all_locals_def sample_meta_def)

lemma sample_fits: "frame_fits sample_meta"
  by (simp add: frame_fits_def sample_locals) (simp add: sample_meta_def)


end
