(* ===== verification/Native_Compiler.thy ===== *)
theory Native_Compiler
  imports Runtime_Stack Function_Frame
begin

text \<open>
  The code generators of compiler/x64/compiler.cc and compiler/arm64/compiler.cc, and the choice
  between them in compiler/compiler.cc. The two classes are the same text up to the machine
  instructions they emit, so they are one set of definitions over a \<open>target\<close>, a record that
  says which instruction each emission of the code is; \<open>x64_target\<close> and \<open>arm64_target\<close> are the
  two classes. What asmjit does with an emitted instruction is not modelled: an instruction is a
  datatype value whose operands are the arguments of the emitting call, and its meaning is in
  the theory Machine. Comments that the code attaches to instructions are left out.
\<close>

section \<open>Targets\<close>

record 'i target =
  t_cc :: call_convention
  t_enter :: "int \<Rightarrow> 'i"
  t_store_param :: "gp \<Rightarrow> int \<Rightarrow> 'i"
  t_bind_exit :: 'i
  t_jump_exit :: 'i
  t_result :: gp
  t_move :: "gp \<Rightarrow> gp \<Rightarrow> 'i"
  t_leave :: "int \<Rightarrow> 'i"
  t_return :: 'i
  t_const :: "gp \<Rightarrow> u32 \<Rightarrow> 'i"
  t_add :: "gp \<Rightarrow> gp \<Rightarrow> 'i"
  t_get_local :: "gp \<Rightarrow> int \<Rightarrow> 'i"
  t_set_local :: "gp \<Rightarrow> int \<Rightarrow> 'i"
  t_spill :: "gp \<Rightarrow> int \<Rightarrow> 'i"
  t_load_stack :: "gp \<Rightarrow> int \<Rightarrow> 'i"

text \<open>The instructions of x86-64 that are used; memory operands are relative to \<open>rsp\<close>.\<close>

datatype x64_instr =
    X_SubRsp int
  | X_AddRsp int
  | X_Store int gp
  | X_Load gp int
  | X_Mov gp gp
  | X_MovImm gp u32
  | X_Adc gp gp
  | X_Jmp
  | X_Bind
  | X_Ret

definition x64_target :: "x64_instr target" where
  "x64_target =
     \<lparr>t_cc = x64_cc,
      t_enter = X_SubRsp,
      t_store_param = (\<lambda>reg offset. X_Store offset reg),
      t_bind_exit = X_Bind,
      t_jump_exit = X_Jmp,
      t_result = R64 0,
      t_move = X_Mov,
      t_leave = X_AddRsp,
      t_return = X_Ret,
      t_const = X_MovImm,
      t_add = X_Adc,
      t_get_local = X_Load,
      t_set_local = (\<lambda>reg offset. X_Store offset reg),
      t_spill = (\<lambda>reg offset. X_Store offset reg),
      t_load_stack = X_Load\<rparr>"

text \<open>The instructions of AArch64 that are used; memory operands are relative to \<open>sp\<close>.\<close>

datatype arm64_instr =
    A_SubSp int
  | A_AddSp int
  | A_Str gp int
  | A_Ldr gp int
  | A_Mov gp gp
  | A_MovImm gp u32
  | A_Add gp gp gp
  | A_B
  | A_Bind
  | A_Ret gp

definition arm64_target :: "arm64_instr target" where
  "arm64_target =
     \<lparr>t_cc = arm64_cc,
      t_enter = A_SubSp,
      t_store_param = A_Str,
      t_bind_exit = A_Bind,
      t_jump_exit = A_B,
      t_result = R64 0,
      t_move = A_Mov,
      t_leave = A_AddSp,
      t_return = A_Ret (R64 30),
      t_const = A_MovImm,
      t_add = (\<lambda>x1 x2. A_Add x1 x1 x2),
      t_get_local = A_Ldr,
      t_set_local = A_Ldr,
      t_spill = A_Str,
      t_load_stack = A_Ldr\<rparr>"

section \<open>The compiler\<close>

record 'i compiler =
  c_tracker :: register_mask
  c_stack :: runtime_stack
  c_code :: "'i list"

definition new_compiler :: "function_metadata \<Rightarrow> 'i compiler" where
  "new_compiler m =
     \<lparr>c_tracker = 0, c_stack = new_runtime_stack (unat (max_stack_elements m)), c_code = []\<rparr>"

type_synonym ('i, 'a) code_gen = "('i compiler, 'a) op"

definition emit_code :: "'i \<Rightarrow> ('i, unit) code_gen" where
  "emit_code i = modify (\<lambda>c. c\<lparr>c_code := c_code c @ [i]\<rparr>)"

definition on_stack :: "(runtime_stack, 'a) op \<Rightarrow> ('i, 'a) code_gen" where
  "on_stack m c = (case m (c_stack c) of (r, s) \<Rightarrow> (r, c\<lparr>c_stack := s\<rparr>))"

text \<open>
  The loop of \<open>AllocateRegister\<close> when no register is free: \<open>std::swap(reg, v.reg)\<close> on every
  value that has a register, and a spill of what came out. The loop has no \<open>break\<close>.
\<close>

fun spill_values ::
    "'i target \<Rightarrow> gp option \<Rightarrow> runtime_value list \<Rightarrow> gp option \<times> runtime_value list \<times> 'i list" where
  "spill_values T r [] = (r, [], [])"
| "spill_values T r (v # vs) =
     (case reg v of
        None \<Rightarrow> (let (r', vs', is) = spill_values T r vs in (r', v # vs', is))
      | Some q \<Rightarrow>
          (let (r', vs', is) = spill_values T (Some q) vs
           in (r', v\<lparr>reg := r\<rparr> # vs', t_spill T (cast q (rv_type v)) (stack_pointer v) # is)))"

definition allocate_register :: "'i target \<Rightarrow> ('i, gp) code_gen" where
  "allocate_register T c =
     (case take_unused_register (t_cc T) (c_tracker c) of
        (Some r, m) \<Rightarrow> (Inr (R64 r), c\<lparr>c_tracker := m\<rparr>)
      | (None, m) \<Rightarrow>
          (let (r, vs, is) = spill_values T None (reverse_iterator (c_stack c));
               c' = c\<lparr>c_tracker := m, c_stack := (c_stack c)\<lparr>items := vs\<rparr>, c_code := c_code c @ is\<rparr>
           in case r of
                Some q \<Rightarrow> (Inr q, c')
              | None \<Rightarrow> (Inl (UndefinedBehaviour ''no register to spill''), c')))"

text \<open>\<open>EnsureInRegister\<close> on a value that has been popped, and on the top of the stack.\<close>

definition ensure_value :: "'i target \<Rightarrow> runtime_value \<Rightarrow> ('i, gp) code_gen" where
  "ensure_value T v =
     (case reg v of
        Some q \<Rightarrow> ret q
      | None \<Rightarrow> seq (allocate_register T) (\<lambda>q.
          seq (emit_code (t_load_stack T (cast q (rv_type v)) (stack_pointer v))) (\<lambda>_. ret q)))"

definition ensure_top :: "'i target \<Rightarrow> ('i, gp) code_gen" where
  "ensure_top T =
     seq (on_stack stack_peek) (\<lambda>v.
     case reg v of
       Some q \<Rightarrow> ret q
     | None \<Rightarrow> seq (allocate_register T) (\<lambda>q.
         seq (on_stack (modify (set_top_reg (Some q)))) (\<lambda>_.
         seq (emit_code (t_load_stack T (cast q (rv_type v)) (stack_pointer v))) (\<lambda>_. ret q))))"

definition mark_unused :: "gp \<Rightarrow> ('i, unit) code_gen" where
  "mark_unused q = modify (\<lambda>c. c\<lparr>c_tracker := mark_register_unused (gp_id q) (c_tracker c)\<rparr>)"

definition local_offset :: "function_frame \<Rightarrow> nat \<Rightarrow> ('i, int) code_gen" where
  "local_offset fr idx c = (local_stack_offset fr idx, c)"

fun compile_op :: "'i target \<Rightarrow> function_frame \<Rightarrow> instruction \<Rightarrow> ('i, unit) code_gen" where
  "compile_op T fr (ConstI32 val) =
     seq (on_stack (stack_push (new_value kI32))) (\<lambda>_.
     seq (ensure_top T) (\<lambda>q.
     emit_code (t_const T (r32 q) (as_I32 val))))"
| "compile_op T fr AddI32 =
     seq (on_stack stack_pop) (\<lambda>x2.
     seq (ensure_value T x2) (\<lambda>x2_reg.
     seq (ensure_top T) (\<lambda>x1_reg.
     seq (emit_code (t_add T (r32 x1_reg) (r32 x2_reg))) (\<lambda>_.
     mark_unused x2_reg))))"
| "compile_op T fr (GetLocalI32 idx) =
     seq (on_stack (stack_push (new_value kI32))) (\<lambda>_.
     seq (allocate_register T) (\<lambda>q.
     seq (on_stack (modify (set_top_reg (Some q)))) (\<lambda>_.
     seq (local_offset fr idx) (\<lambda>offset.
     emit_code (t_get_local T (r32 q) offset)))))"
| "compile_op T fr (SetLocalI32 idx) =
     seq (on_stack stack_pop) (\<lambda>v.
     seq (ensure_value T v) (\<lambda>v_reg.
     seq (local_offset fr idx) (\<lambda>offset.
     seq (emit_code (t_set_local T v_reg offset)) (\<lambda>_.
     mark_unused v_reg))))"
| "compile_op T fr Return = emit_code (t_jump_exit T)"
| "compile_op T fr (Label _) = ret ()"
| "compile_op T fr (Br _) = ret ()"
| "compile_op T fr (BrIf _ _) = ret ()"

definition save_param :: "'i target \<Rightarrow> function_frame \<Rightarrow> function_metadata \<Rightarrow> nat \<Rightarrow> ('i, unit) code_gen" where
  "save_param T fr m i =
     (if length (kGpArgs (t_cc T)) \<le> i then throw (UndefinedBehaviour ''kGpArgs index'')
      else let vt = parameter_types (signature m) ! i;
               q = cast (R64 (kGpArgs (t_cc T) ! i)) vt
           in seq (local_offset fr i) (\<lambda>offset. emit_code (t_store_param T q offset)))"

definition prologue :: "'i target \<Rightarrow> function_frame \<Rightarrow> function_metadata \<Rightarrow> ('i, unit) code_gen" where
  "prologue T fr m =
     seq (emit_code (t_enter T (stack_size_bytes (t_cc T) fr))) (\<lambda>_.
     for_each (save_param T fr m) [0..<length (parameter_types (signature m))])"

definition epilogue :: "'i target \<Rightarrow> function_frame \<Rightarrow> function_metadata \<Rightarrow> ('i, unit) code_gen" where
  "epilogue T fr m =
     seq (emit_code (t_bind_exit T)) (\<lambda>_.
     seq (if result_types (signature m) = [] then ret ()
          else let vt = hd (result_types (signature m)); result_reg = cast (t_result T) vt
               in seq (on_stack stack_pop) (\<lambda>v.
                  seq (ensure_value T v) (\<lambda>q.
                  let stack_top_reg = cast q (rv_type v)
                  in if stack_top_reg \<noteq> result_reg then emit_code (t_move T result_reg stack_top_reg)
                     else ret ()))) (\<lambda>_.
     seq (emit_code (t_leave T (stack_size_bytes (t_cc T) fr))) (\<lambda>_.
     emit_code (t_return T))))"

text \<open>\<open>CompilerImpl<T>::Compile\<close> on one function, up to the code that is handed to the JIT runtime.\<close>

definition compile_function :: "'i target \<Rightarrow> wasm_function \<Rightarrow> exn + 'i list" where
  "compile_function T f =
     (let m = meta f; fr = new_frame (t_cc T) m in
      case seq (prologue T fr m) (\<lambda>_. seq (for_each (compile_op T fr) (body f)) (\<lambda>_. epilogue T fr m))
             (new_compiler m) of
        (Inl e, c) \<Rightarrow> Inl e
      | (Inr _, c) \<Rightarrow> Inr (c_code c))"

text \<open>compiler/arm64/compiler.cc is a second copy of these functions, with the instructions of
  AArch64; there the compiler is made of the following instances.\<close>

definition arm64_new_compiler :: "function_metadata \<Rightarrow> arm64_instr compiler" where
  "arm64_new_compiler = new_compiler"

definition arm64_prologue :: "function_frame \<Rightarrow> function_metadata \<Rightarrow> (arm64_instr, unit) code_gen" where
  "arm64_prologue = prologue arm64_target"

definition arm64_epilogue :: "function_frame \<Rightarrow> function_metadata \<Rightarrow> (arm64_instr, unit) code_gen" where
  "arm64_epilogue = epilogue arm64_target"

definition arm64_compile_op :: "function_frame \<Rightarrow> instruction \<Rightarrow> (arm64_instr, unit) code_gen" where
  "arm64_compile_op = compile_op arm64_target"

definition arm64_allocate_register :: "(arm64_instr, gp) code_gen" where
  "arm64_allocate_register = allocate_register arm64_target"

definition arm64_ensure_value :: "runtime_value \<Rightarrow> (arm64_instr, gp) code_gen" where
  "arm64_ensure_value = ensure_value arm64_target"

definition arm64_ensure_top :: "(arm64_instr, gp) code_gen" where
  "arm64_ensure_top = ensure_top arm64_target"

lemma arm64_compiler:
  "compile_function arm64_target f =
     (let m = meta f; fr = new_frame arm64_cc m in
      case seq (arm64_prologue fr m) (\<lambda>_. seq (for_each (arm64_compile_op fr) (body f)) (\<lambda>_. arm64_epilogue fr m))
             (arm64_new_compiler m) of
        (Inl e, c) \<Rightarrow> Inl e
      | (Inr _, c) \<Rightarrow> Inr (c_code c))"
  by (simp add: compile_function_def arm64_prologue_def arm64_epilogue_def arm64_compile_op_def
      arm64_new_compiler_def arm64_target_def)

lemma arm64_add:
  "arm64_compile_op fr AddI32 =
     seq (on_stack stack_pop) (\<lambda>x2.
     seq (arm64_ensure_value x2) (\<lambda>x2_reg.
     seq arm64_ensure_top (\<lambda>x1_reg.
     seq (emit_code (A_Add (r32 x1_reg) (r32 x1_reg) (r32 x2_reg))) (\<lambda>_.
     mark_unused x2_reg))))"
  by (simp add: arm64_compile_op_def arm64_ensure_value_def arm64_ensure_top_def) (simp add: arm64_target_def)

lemma arm64_get_local:
  "arm64_compile_op fr (GetLocalI32 idx) =
     seq (on_stack (stack_push (new_value kI32))) (\<lambda>_.
     seq arm64_allocate_register (\<lambda>q.
     seq (on_stack (modify (set_top_reg (Some q)))) (\<lambda>_.
     seq (local_offset fr idx) (\<lambda>offset.
     emit_code (A_Ldr (r32 q) offset)))))"
  by (simp add: arm64_compile_op_def arm64_allocate_register_def) (simp add: arm64_target_def)

section \<open>The native compiler\<close>

datatype arch = kX64 | kAArch64 | kX86 | kRISCV32 | kRISCV64 | kARM | kThumb | kMIPS32_LE
  | kMIPS64_LE | kARM_BE | kAArch64_BE | kThumb_BE | kMIPS32_BE | kMIPS64_BE | kUnknown

datatype native_compiler = X64Compiler | Arm64Compiler

fun create_native :: "arch \<Rightarrow> exn + native_compiler" where
  "create_native kX64 = Inr X64Compiler"
| "create_native kAArch64 = Inr Arm64Compiler"
| "create_native kX86 = Inl (Aborted ''unsupported architecture: x86'')"
| "create_native kRISCV32 = Inl (Aborted ''unsupported architecture: riscv_32'')"
| "create_native kRISCV64 = Inl (Aborted ''unsupported architecture: riscv_64'')"
| "create_native kARM = Inl (Aborted ''unsupported architecture: arm'')"
| "create_native kThumb = Inl (Aborted ''unsupported architecture: thumb'')"
| "create_native kMIPS32_LE = Inl (Aborted ''unsupported architecture: mips32_le'')"
| "create_native kMIPS64_LE = Inl (Aborted ''unsupported architecture: mips64_le'')"
| "create_native kARM_BE = Inl (Aborted ''unsupported architecture: arm_be'')"
| "create_native kAArch64_BE = Inl (Aborted ''unsupported architecture: aarch64_be'')"
| "create_native kThumb_BE = Inl (Aborted ''unsupported architecture: thumb_be'')"
| "create_native kMIPS32_BE = Inl (Aborted ''unsupported architecture: mips32_be'')"
| "create_native kMIPS64_BE = Inl (Aborted ''unsupported architecture: mips64_be'')"
| "create_native kUnknown = Inl (Aborted ''unsupported architecture: unknown'')"

section \<open>What is emitted while registers are free\<close>

text \<open>
  \<open>holding T c rs\<close>: every value of the compile-time stack is an \<open>i32\<close> in a register of its own;
  \<open>rs\<close> are the registers, bottom first, and no other register is taken.
\<close>

definition holding :: "'i target \<Rightarrow> 'i compiler \<Rightarrow> nat list \<Rightarrow> bool" where
  "holding T c rs \<longleftrightarrow> slots_ok (c_stack c) \<and>
     map reg (items (c_stack c)) = map (\<lambda>r. Some (R64 r)) rs \<and>
     list_all (\<lambda>v. rv_type v = kI32) (items (c_stack c)) \<and>
     distinct rs \<and> set rs \<subseteq> set (caller_saved (t_cc T)) \<and> in_use (c_tracker c) = set rs"

definition room :: "'i target \<Rightarrow> 'i compiler \<Rightarrow> nat \<Rightarrow> bool" where
  "room T c n \<longleftrightarrow> n < capacity (c_stack c) \<and> n < length (caller_saved (t_cc T)) \<and> 4 * n + 4 < 2 ^ 31"

lemma holding_new: "holding T (new_compiler m) []"
  by (simp add: holding_def new_compiler_def slots_ok_new in_use_def) (simp add: new_runtime_stack_def)

lemma holding_length: "holding T c rs \<Longrightarrow> length (items (c_stack c)) = length rs"
  unfolding holding_def by (metis length_map)

lemma sizes_i32: "list_all (\<lambda>v. rv_type v = kI32) vs \<Longrightarrow> sizes vs = 4 * length vs"
  by (induction vs) (auto simp: rv_size_bytes_def)

lemma run_emit [simp]: "emit_code i c = (Inr (), c\<lparr>c_code := c_code c @ [i]\<rparr>)"
  by (simp add: emit_code_def)

lemma run_on_stack: "m (c_stack c) = (r, s) \<Longrightarrow> on_stack m c = (r, c\<lparr>c_stack := s\<rparr>)"
  by (simp add: on_stack_def)

lemma run_mark_unused [simp]:
  "mark_unused q c = (Inr (), c\<lparr>c_tracker := mark_register_unused (gp_id q) (c_tracker c)\<rparr>)"
  by (simp add: mark_unused_def)

lemma cast_i32 [simp]: "cast (R64 r) kI32 = R32 r" "r32 (R64 r) = R32 r"
  by (simp_all add: cast_def r32_def)

text \<open>While registers are free, pushing a value gives it a fresh one.\<close>

lemma push_allocates:
  assumes h: "holding T c rs" and room: "room T c (length rs)"
  obtains r m s off where "r \<notin> set rs" and "r \<in> set (caller_saved (t_cc T))"
    and "stack_push (new_value kI32) (c_stack c) = (Inr (), s)"
    and "last (items s) = \<lparr>stack_pointer = off, reg = None, rv_type = kI32\<rparr>" and "items s \<noteq> []"
    and "take_unused_register (t_cc T) (c_tracker c) = (Some r, m)"
    and "\<And>code. holding T (c\<lparr>c_tracker := m, c_stack := set_top_reg (Some (R64 r)) s, c_code := code\<rparr>) (rs @ [r])"
    and "capacity (set_top_reg (Some (R64 r)) s) = capacity (c_stack c)"
proof -
  let ?s = "c_stack c"
  note len = holding_length [OF h]
  have i32: "list_all (\<lambda>v. rv_type v = kI32) (items ?s)" and slots: "slots_ok ?s"
    using h by (simp_all add: holding_def)
  define off where "off = stack_memory_offset ?s + 4"
  have off: "off = int (4 * length rs + 4)"
    using slots sizes_i32 [OF i32] by (simp add: off_def slots_ok_def len)
  let ?v = "\<lparr>stack_pointer = off, reg = None, rv_type = kI32\<rparr>"
  define s where "s = ?s\<lparr>stack_memory_offset := off, items := items ?s @ [?v]\<rparr>"
  have push: "stack_push (new_value kI32) ?s = (Inr (), s)"
    using room len off
    by (simp add: stack_push_def new_value_def rv_size_bytes_def room_def s_def off_def Let_def)
  have "card (set rs) < length (caller_saved (t_cc T))"
    using h room by (simp add: holding_def room_def distinct_card)
  moreover have "in_use (c_tracker c) \<inter> set (caller_saved (t_cc T)) \<subseteq> set rs"
    using h by (auto simp: holding_def)
  ultimately obtain r m where take: "take_unused_register (t_cc T) (c_tracker c) = (Some r, m)"
    and r: "r \<in> set (caller_saved (t_cc T))" "r \<notin> in_use (c_tracker c)"
    "in_use m = insert r (in_use (c_tracker c))"
    using tracker.take_succeeds [of "set rs" "t_cc T" "c_tracker c"] by auto
  have "slots_ok s" using slots_ok_push [OF slots push] by blast
  then have slots': "slots_ok (set_top_reg (Some (R64 r)) s)"
    by (auto simp: slots_ok_def set_top_reg_def s_def nth_append rv_size_bytes_def less_Suc_eq)
  show thesis
  proof (rule that [OF _ r(1) push _ _ take])
    show "holding T (c\<lparr>c_tracker := m, c_stack := set_top_reg (Some (R64 r)) s, c_code := code\<rparr>) (rs @ [r])"
      for code using h slots' r by (auto simp: holding_def set_top_reg_def s_def)
  qed (use h r in \<open>auto simp: holding_def s_def set_top_reg_def\<close>)
qed

lemma compile_const:
  assumes h: "holding T c rs" and room: "room T c (length rs)"
  shows "\<exists>r c' off. compile_op T fr (ConstI32 x) c = (Inr (), c') \<and> holding T c' (rs @ [r]) \<and>
    r \<notin> set rs \<and> r \<in> set (caller_saved (t_cc T)) \<and> capacity (c_stack c') = capacity (c_stack c) \<and>
    c_code c' = c_code c @ [t_load_stack T (R32 r) off, t_const T (R32 r) (as_I32 x)]"
proof (rule push_allocates [OF h room])
  fix r m s off
  assume r: "r \<notin> set rs" "r \<in> set (caller_saved (t_cc T))"
    and push: "stack_push (new_value kI32) (c_stack c) = (Inr (), s)"
    and top: "last (items s) = \<lparr>stack_pointer = off, reg = None, rv_type = kI32\<rparr>" "items s \<noteq> []"
    and take: "take_unused_register (t_cc T) (c_tracker c) = (Some r, m)"
    and h': "\<And>code. holding T (c\<lparr>c_tracker := m, c_stack := set_top_reg (Some (R64 r)) s,
      c_code := code\<rparr>) (rs @ [r])"
    and cap: "capacity (set_top_reg (Some (R64 r)) s) = capacity (c_stack c)"
  let ?c = "c\<lparr>c_tracker := m, c_stack := set_top_reg (Some (R64 r)) s,
    c_code := c_code c @ [t_load_stack T (R32 r) off, t_const T (R32 r) (as_I32 x)]\<rparr>"
  have "compile_op T fr (ConstI32 x) c = (Inr (), ?c)"
    using push top take
    by (simp add: seq_run_Inr ensure_top_def run_on_stack stack_peek_def allocate_register_def on_stack_def)
  with r h' cap show ?thesis by (intro exI [of _ r] exI [of _ ?c] exI [of _ off]) simp
qed

lemma compile_get:
  assumes h: "holding T c rs" and room: "room T c (length rs)"
    and off: "local_stack_offset fr i = Inr p"
  shows "\<exists>r c'. compile_op T fr (GetLocalI32 i) c = (Inr (), c') \<and> holding T c' (rs @ [r]) \<and>
    r \<notin> set rs \<and> r \<in> set (caller_saved (t_cc T)) \<and> capacity (c_stack c') = capacity (c_stack c) \<and>
    c_code c' = c_code c @ [t_get_local T (R32 r) p]"
proof (rule push_allocates [OF h room])
  fix r m s off'
  assume r: "r \<notin> set rs" "r \<in> set (caller_saved (t_cc T))"
    and push: "stack_push (new_value kI32) (c_stack c) = (Inr (), s)"
    and take: "take_unused_register (t_cc T) (c_tracker c) = (Some r, m)"
    and h': "\<And>code. holding T (c\<lparr>c_tracker := m, c_stack := set_top_reg (Some (R64 r)) s,
      c_code := code\<rparr>) (rs @ [r])"
    and cap: "capacity (set_top_reg (Some (R64 r)) s) = capacity (c_stack c)"
  let ?c = "c\<lparr>c_tracker := m, c_stack := set_top_reg (Some (R64 r)) s,
    c_code := c_code c @ [t_get_local T (R32 r) p]\<rparr>"
  have "compile_op T fr (GetLocalI32 i) c = (Inr (), ?c)"
    using push take off
    by (simp add: seq_run_Inr allocate_register_def on_stack_def local_offset_def)
  with r h' cap show ?thesis by (intro exI [of _ r] exI [of _ ?c]) simp
qed

text \<open>Popping a value that is in a register.\<close>

lemma pop_holding:
  assumes h: "holding T c (rs @ [r])"
  obtains v s where "stack_pop (c_stack c) = (Inr v, s)" and "reg v = Some (R64 r)"
    and "rv_type v = kI32" and "capacity s = capacity (c_stack c)"
    and "holding T (c\<lparr>c_stack := s, c_code := code,
      c_tracker := mark_register_unused r (c_tracker c)\<rparr>) rs"
    and "map reg (items s) = map (\<lambda>r. Some (R64 r)) rs"
proof -
  have "items (c_stack c) \<noteq> []" using holding_length [OF h] by auto
  then obtain v s where pop: "stack_pop (c_stack c) = (Inr v, s)"
    using runtime_stack.pop_total by blast
  have slots: "slots_ok (c_stack c)" using h by (simp add: holding_def)
  from runtime_stack.pop_law [OF slots pop] have s: "slots_ok s" "items (c_stack c) = items s @ [v]"
    by simp_all
  have "capacity s = capacity (c_stack c)"
    using pop by (auto simp: stack_pop_def Let_def split: if_splits)
  with that [OF pop] h s show thesis
    by (auto simp: holding_def in_use_free)
qed

lemma compile_add:
  assumes h: "holding T c (rs @ [r1, r2])"
  shows "\<exists>c'. compile_op T fr AddI32 c = (Inr (), c') \<and> holding T c' (rs @ [r1]) \<and>
    capacity (c_stack c') = capacity (c_stack c) \<and>
    c_code c' = c_code c @ [t_add T (R32 r1) (R32 r2)]"
proof -
  have "holding T c ((rs @ [r1]) @ [r2])" using h by simp
  then obtain v s where pop: "stack_pop (c_stack c) = (Inr v, s)" and v: "reg v = Some (R64 r2)"
    and cap: "capacity s = capacity (c_stack c)"
    and h': "holding T (c\<lparr>c_stack := s, c_code := c_code c @ [t_add T (R32 r1) (R32 r2)],
      c_tracker := mark_register_unused r2 (c_tracker c)\<rparr>) (rs @ [r1])"
    and regs: "map reg (items s) = map (\<lambda>r. Some (R64 r)) (rs @ [r1])"
    by (rule pop_holding)
  from regs have ne: "items s \<noteq> []" by auto
  with regs have top: "reg (last (items s)) = Some (R64 r1)"
    by (metis last_map last_snoc map_is_Nil_conv snoc_eq_iff_butlast)
  let ?c = "c\<lparr>c_stack := s, c_code := c_code c @ [t_add T (R32 r1) (R32 r2)],
      c_tracker := mark_register_unused r2 (c_tracker c)\<rparr>"
  have "compile_op T fr AddI32 c = (Inr (), ?c)"
    using pop v ne top
    by (simp add: seq_run_Inr on_stack_def ensure_value_def ensure_top_def stack_peek_def)
  with h' cap show ?thesis by (intro exI [of _ ?c]) simp
qed

lemma compile_set:
  assumes h: "holding T c (rs @ [r])" and off: "local_stack_offset fr i = Inr p"
  shows "\<exists>c'. compile_op T fr (SetLocalI32 i) c = (Inr (), c') \<and> holding T c' rs \<and>
    capacity (c_stack c') = capacity (c_stack c) \<and>
    c_code c' = c_code c @ [t_set_local T (R64 r) p]"
proof -
  obtain v s where pop: "stack_pop (c_stack c) = (Inr v, s)" and v: "reg v = Some (R64 r)"
    and cap: "capacity s = capacity (c_stack c)"
    and h': "holding T (c\<lparr>c_stack := s, c_code := c_code c @ [t_set_local T (R64 r) p],
      c_tracker := mark_register_unused r (c_tracker c)\<rparr>) rs"
    using h by (rule pop_holding)
  let ?c = "c\<lparr>c_stack := s, c_code := c_code c @ [t_set_local T (R64 r) p],
      c_tracker := mark_register_unused r (c_tracker c)\<rparr>"
  have "compile_op T fr (SetLocalI32 i) c = (Inr (), ?c)"
    using pop v off by (simp add: seq_run_Inr on_stack_def ensure_value_def local_offset_def)
  with h' cap show ?thesis by (intro exI [of _ ?c]) simp
qed

end
