(* ===== verification/Machine.thy ===== *)
theory Machine
  imports Native_Compiler
begin

text \<open>
  What the emitted instructions do, on x86-64 and on AArch64, as far as the code generators use
  the two instruction sets: 64-bit registers, byte-addressed little-endian memory and the carry
  flag. A write to the 32-bit half of a register clears the upper half on both. The semantics of
  the processors is the documented one; it is the specification side of the code generators.
\<close>

record machine =
  regs :: "nat \<Rightarrow> u64"
  mem :: "u64 \<Rightarrow> u8"
  carry :: bool

section \<open>Memory\<close>

definition store32 :: "u64 \<Rightarrow> u32 \<Rightarrow> (u64 \<Rightarrow> u8) \<Rightarrow> (u64 \<Rightarrow> u8)" where
  "store32 a v m = m(a := ucast v, a + 1 := ucast (drop_bit 8 v),
     a + 2 := ucast (drop_bit 16 v), a + 3 := ucast (drop_bit 24 v))"

definition load32 :: "(u64 \<Rightarrow> u8) \<Rightarrow> u64 \<Rightarrow> u32" where
  "load32 m a = ucast (m a) OR push_bit 8 (ucast (m (a + 1))) OR
     push_bit 16 (ucast (m (a + 2))) OR push_bit 24 (ucast (m (a + 3)))"

definition store64 :: "u64 \<Rightarrow> u64 \<Rightarrow> (u64 \<Rightarrow> u8) \<Rightarrow> (u64 \<Rightarrow> u8)" where
  "store64 a v m = store32 (a + 4) (ucast (drop_bit 32 v)) (store32 a (ucast v) m)"

definition load64 :: "(u64 \<Rightarrow> u8) \<Rightarrow> u64 \<Rightarrow> u64" where
  "load64 m a = ucast (load32 m a) OR push_bit 32 (ucast (load32 m (a + 4)))"

lemma join_bytes:
  fixes v :: u32
  shows "ucast (ucast v :: u8) OR push_bit 8 (ucast (ucast (drop_bit 8 v) :: u8)) OR
    push_bit 16 (ucast (ucast (drop_bit 16 v) :: u8)) OR
    push_bit 24 (ucast (ucast (drop_bit 24 v) :: u8)) = v"
  apply (rule bit_word_eqI)
  subgoal for n by (cases "n < 16"; cases "n < 24") (auto simp: bit_simps)
  done

lemma load32_store32 [simp]: "load32 (store32 a v m) a = v"
proof -
  have "load32 (store32 a v m) a = ucast (ucast v :: u8) OR push_bit 8 (ucast (ucast (drop_bit 8 v) :: u8)) OR
      push_bit 16 (ucast (ucast (drop_bit 16 v) :: u8)) OR push_bit 24 (ucast (ucast (drop_bit 24 v) :: u8))"
    by (simp add: load32_def store32_def)
  also have "\<dots> = v" by (rule join_bytes)
  finally show ?thesis .
qed

text \<open>Accesses at offsets from one address, four bytes apart.\<close>

lemma of_int_u64_eq:
  assumes "of_int x = (of_int y :: u64)" and "\<bar>x - y\<bar> < 2 ^ 64"
  shows "x = y"
proof -
  have "2 ^ 64 dvd x - y"
    using assms(1) by (simp add: word_of_int_eq_iff take_bit_eq_mod mod_eq_dvd_iff)
  with assms(2) show ?thesis
    by (metis dvd_imp_le_int abs_of_nonneg abs_numeral eq_iff_diff_eq_0 leD power_abs zero_le_numeral)
qed

definition apart :: "int \<Rightarrow> int \<Rightarrow> bool" where
  "apart x y \<longleftrightarrow> (x + 4 \<le> y \<or> y + 4 \<le> x) \<and> \<bar>x\<bar> < 2 ^ 32 \<and> \<bar>y\<bar> < 2 ^ 32"

lemma apart_address:
  assumes "apart x y" and "0 \<le> i" "i \<le> 3" "0 \<le> j" "j \<le> 3"
  shows "a + of_int x + of_int i \<noteq> (a + of_int y + of_int j :: u64)"
proof
  assume "a + of_int x + of_int i = (a + of_int y + of_int j :: u64)"
  then have "of_int (x + i) = (of_int (y + j) :: u64)" by simp
  moreover have "\<bar>(x + i) - (y + j)\<bar> < 2 ^ 64" using assms by (auto simp: apart_def abs_less_iff)
  ultimately have "x + i = y + j" by (rule of_int_u64_eq)
  with assms show False by (auto simp: apart_def)
qed

lemma load32_store32_apart:
  assumes "apart x y"
  shows "load32 (store32 (a + of_int x) v m) (a + of_int y) = load32 m (a + of_int y)"
proof -
  have ne: "a + of_int y + of_int j \<noteq> a + of_int x + of_int i"
    if "i \<in> {0, 1, 2, 3}" "j \<in> {0, 1, 2, 3}" for i j :: int
    using apart_address [OF assms, of i j a] that by auto
  have byte: "store32 (a + of_int x) v m (a + of_int y + of_int j) = m (a + of_int y + of_int j)"
    if "j \<in> {0, 1, 2, 3}" for j :: int
    using ne [of 0 j] ne [of 1 j] ne [of 2 j] ne [of 3 j] that by (simp add: store32_def)
  from byte [of 0] byte [of 1] byte [of 2] byte [of 3] show ?thesis
    by (simp add: load32_def)
qed

section \<open>Registers and the stack pointer\<close>

definition low :: "machine \<Rightarrow> nat \<Rightarrow> u32" where
  "low m r = ucast (regs m r)"

fun read_gp :: "gp \<Rightarrow> machine \<Rightarrow> u64" where
  "read_gp (R32 r) m = ucast (low m r)"
| "read_gp (R64 r) m = regs m r"

fun write_gp :: "gp \<Rightarrow> u64 \<Rightarrow> machine \<Rightarrow> machine" where
  "write_gp (R32 r) v m = m\<lparr>regs := (regs m)(r := ucast (ucast v :: u32))\<rparr>"
| "write_gp (R64 r) v m = m\<lparr>regs := (regs m)(r := v)\<rparr>"

definition sp_address :: "nat \<Rightarrow> int \<Rightarrow> machine \<Rightarrow> u64" where
  "sp_address sp off m = regs m sp + of_int off"

fun store_gp :: "nat \<Rightarrow> int \<Rightarrow> gp \<Rightarrow> machine \<Rightarrow> machine" where
  "store_gp sp off (R32 r) m = m\<lparr>mem := store32 (sp_address sp off m) (low m r) (mem m)\<rparr>"
| "store_gp sp off (R64 r) m = m\<lparr>mem := store64 (sp_address sp off m) (regs m r) (mem m)\<rparr>"

fun load_gp :: "nat \<Rightarrow> gp \<Rightarrow> int \<Rightarrow> machine \<Rightarrow> machine" where
  "load_gp sp (R32 r) off m = write_gp (R32 r) (ucast (load32 (mem m) (sp_address sp off m))) m"
| "load_gp sp (R64 r) off m = write_gp (R64 r) (load64 (mem m) (sp_address sp off m)) m"

text \<open>An addition with a carry in: the sum and the carry out.\<close>

definition add_carry :: "'a::len word \<Rightarrow> 'a word \<Rightarrow> bool \<Rightarrow> 'a word \<times> bool" where
  "add_carry a b c =
     (let n = unat a + unat b + (if c then 1 else 0) in (of_nat n, 2 ^ LENGTH('a) \<le> n))"

section \<open>x86-64\<close>

text \<open>\<open>sub\<close>, \<open>add\<close> and \<open>adc\<close> set the carry flag; \<open>mov\<close> leaves it alone.\<close>

fun x64_step :: "x64_instr \<Rightarrow> machine \<Rightarrow> machine" where
  "x64_step (X_SubRsp n) m =
     m\<lparr>regs := (regs m)(4 := regs m 4 - of_int n), carry := regs m 4 < of_int n\<rparr>"
| "x64_step (X_AddRsp n) m =
     (let (s, c) = add_carry (regs m 4) (of_int n) False
      in m\<lparr>regs := (regs m)(4 := s), carry := c\<rparr>)"
| "x64_step (X_Store off q) m = store_gp 4 off q m"
| "x64_step (X_Load q off) m = load_gp 4 q off m"
| "x64_step (X_Mov d q) m = write_gp d (read_gp q m) m"
| "x64_step (X_MovImm q v) m = write_gp q (scast v) m"
| "x64_step (X_Adc (R32 d) q) m =
     (let (s, c) = add_carry (low m d) (ucast (read_gp q m)) (carry m)
      in write_gp (R32 d) (ucast s) m\<lparr>carry := c\<rparr>)"
| "x64_step (X_Adc (R64 d) q) m =
     (let (s, c) = add_carry (regs m d) (read_gp q m) (carry m)
      in write_gp (R64 d) s m\<lparr>carry := c\<rparr>)"
| "x64_step _ m = m"

section \<open>AArch64\<close>

text \<open>\<open>add\<close> and \<open>sub\<close> do not set the flags.\<close>

fun arm64_step :: "arm64_instr \<Rightarrow> machine \<Rightarrow> machine" where
  "arm64_step (A_SubSp n) m = m\<lparr>regs := (regs m)(31 := regs m 31 - of_int n)\<rparr>"
| "arm64_step (A_AddSp n) m = m\<lparr>regs := (regs m)(31 := regs m 31 + of_int n)\<rparr>"
| "arm64_step (A_Str q off) m = store_gp 31 off q m"
| "arm64_step (A_Ldr q off) m = load_gp 31 q off m"
| "arm64_step (A_Mov d q) m = write_gp d (read_gp q m) m"
| "arm64_step (A_MovImm q v) m = write_gp q (scast v) m"
| "arm64_step (A_Add d a b) m = write_gp d (read_gp a m + read_gp b m) m"
| "arm64_step _ m = m"

section \<open>Running code\<close>

text \<open>
  A function's code from its entry to its return, with the jump to the exit label. \<open>None\<close> is code
  that is left without a return.
\<close>

function run_code :: "'i target \<Rightarrow> ('i \<Rightarrow> machine \<Rightarrow> machine) \<Rightarrow> 'i list \<Rightarrow> machine \<Rightarrow> machine option" where
  "run_code T step [] m = None"
| "run_code T step (i # is) m =
     (if i = t_return T then Some m
      else if i = t_jump_exit T then run_code T step (dropWhile (\<lambda>j. j \<noteq> t_bind_exit T) is) m
      else if i = t_bind_exit T then run_code T step is m
      else run_code T step is (step i m))"
  by pat_completeness auto
termination
  by (relation "measure (\<lambda>(T, step, is, m). length is)")
    (auto intro: le_imp_less_Suc length_dropWhile_le)

text \<open>Instructions in a row, without a transfer of control.\<close>

definition steps :: "('i \<Rightarrow> machine \<Rightarrow> machine) \<Rightarrow> 'i list \<Rightarrow> machine \<Rightarrow> machine" where
  "steps step is m = fold step is m"

definition plain :: "'i target \<Rightarrow> 'i \<Rightarrow> bool" where
  "plain T i \<longleftrightarrow> i \<noteq> t_return T \<and> i \<noteq> t_jump_exit T \<and> i \<noteq> t_bind_exit T"

lemma steps_simps [simp]:
  "steps step [] m = m" "steps step (i # is) m = steps step is (step i m)"
  "steps step (is @ js) m = steps step js (steps step is m)"
  by (simp_all add: steps_def)

lemma run_code_plain:
  "list_all (plain T) is \<Longrightarrow> run_code T step (is @ js) m = run_code T step js (steps step is m)"
  by (induction "is" arbitrary: m) (auto simp: plain_def)

lemma dropWhile_plain:
  "list_all (plain T) is \<Longrightarrow> dropWhile (\<lambda>j. j \<noteq> t_bind_exit T) (is @ t_bind_exit T # js) = t_bind_exit T # js"
  by (induction "is") (auto simp: plain_def)

end
