(* ===== verification/Compile_Correct.thy ===== *)
theory Compile_Correct
  imports Machine Wasm_Exec
begin

text \<open>
  What the generated code computes, for the bodies the code generators handle: constants,
  additions and accesses of locals, while the operand stack fits into the caller-saved registers.
  The locale \<open>code_target\<close> holds what a target's instructions must do; both targets are
  interpretations of it. They differ in two points, what an addition does to the carry flag and
  what a write of a local does to the locals.
\<close>

section \<open>The covered bodies\<close>

fun covered :: "instruction \<Rightarrow> bool" where
  "covered (ConstI32 _) = True"
| "covered AddI32 = True"
| "covered (GetLocalI32 _) = True"
| "covered (SetLocalI32 _) = True"
| "covered _ = False"

definition covered_body :: "instruction list \<Rightarrow> bool" where
  "covered_body b \<longleftrightarrow> list_all covered b \<or>
     (b \<noteq> [] \<and> last b = Return \<and> list_all covered (butlast b))"

lemma covered_bodyE:
  assumes "covered_body b"
  obtains b0 where "list_all covered b0" and "b = b0 \<or> b = b0 @ [Return]"
  using assms unfolding covered_body_def by (metis append_butlast_last_id)

text \<open>
  Execution with an addition that takes a carry in and gives a carry out, as the add instruction
  of a target does, and a write of a local as the instruction of the target that is emitted for
  it does it. A state holds the locals, the operand stack and the carry.
\<close>

type_synonym adder = "u32 \<Rightarrow> u32 \<Rightarrow> bool \<Rightarrow> u32 \<times> bool"
type_synonym local_writer = "nat \<Rightarrow> u32 \<Rightarrow> u32 list \<Rightarrow> u32 list"
type_synonym target_state = "u32 list \<times> u32 list \<times> bool"

fun exec_on :: "adder \<Rightarrow> local_writer \<Rightarrow> instruction list \<Rightarrow> target_state \<Rightarrow> target_state option" where
  "exec_on adder wr [] s = Some s"
| "exec_on adder wr (ConstI32 v # is) (ls, st, c) = exec_on adder wr is (ls, as_U32 v # st, c)"
| "exec_on adder wr (AddI32 # is) (ls, b # a # st, c) =
     (let (r, c') = adder a b c in exec_on adder wr is (ls, r # st, c'))"
| "exec_on adder wr (GetLocalI32 i # is) (ls, st, c) =
     (if i < length ls then exec_on adder wr is (ls, ls ! i # st, c) else None)"
| "exec_on adder wr (SetLocalI32 i # is) (ls, a # st, c) =
     (if i < length ls then exec_on adder wr is (wr i a ls, st, c) else None)"
| "exec_on adder wr (Return # is) s = Some s"
| "exec_on adder wr _ s = None"

definition plain_adder :: adder where
  "plain_adder a b c = (a + b, c)"

definition plain_writer :: local_writer where
  "plain_writer i v ls = ls[i := v]"

text \<open>Without the carry and with writes that write, this is the execution of Wasm_Exec.\<close>

lemma exec_on_plain:
  "list_all covered is \<Longrightarrow> exec is (ls, st) = Some (ls', st') \<Longrightarrow>
     exec_on plain_adder plain_writer is (ls, st, c) = Some (ls', st', c)"
proof (induction plain_adder plain_writer "is" "(ls, st, c)" arbitrary: ls st c rule: exec_on.induct)
qed (auto simp: plain_adder_def plain_writer_def split: if_splits)

lemma exec_snoc_Return: "list_all covered is \<Longrightarrow> exec (is @ [Return]) s = exec is s"
  by (induction "is" arbitrary: s) (auto split: Option.bind_split)

lemma peak_snoc_Return: "list_all covered is \<Longrightarrow> peak (is @ [Return]) s = peak is s"
  by (induction "is" arbitrary: s) (auto split: option.split)

lemma exec_on_snoc_Return:
  "list_all covered is \<Longrightarrow> exec_on adder wr (is @ [Return]) s = exec_on adder wr is s"
  by (induction adder wr "is" s rule: exec_on.induct) (auto split: prod.split)

section \<open>Saved parameters\<close>

text \<open>The memory after the first \<open>n\<close> parameters, four bytes each, have been stored.\<close>

definition param_mem :: "u64 \<Rightarrow> int \<Rightarrow> (nat \<Rightarrow> u32) \<Rightarrow> nat \<Rightarrow> (u64 \<Rightarrow> u8) \<Rightarrow> (u64 \<Rightarrow> u8)" where
  "param_mem a S v n m = fold (\<lambda>i. store32 (a + of_int (4 * int i - S)) (v i)) [0..<n] m"

lemma param_mem_simps [simp]:
  "param_mem a S v 0 m = m"
  "param_mem a S v (Suc n) m = store32 (a + of_int (4 * int n - S)) (v n) (param_mem a S v n m)"
  by (simp_all add: param_mem_def)

lemma load_param_mem:
  "i < n \<Longrightarrow> 4 * int n \<le> S \<Longrightarrow> S < 2 ^ 31 \<Longrightarrow>
     load32 (param_mem a S v n m) (a + of_int (4 * int i - S)) = v i"
proof (induction n)
  case (Suc n)
  show ?case
  proof (cases "i = n")
    case False
    then have "apart (4 * int n - S) (4 * int i - S)" using Suc.prems by (simp add: apart_def)
    from load32_store32_apart [OF this] show ?thesis using Suc False by simp
  qed simp
qed simp

lemma store32_above:
  assumes "y + 4 \<le> x" and "- (2 ^ 62) < y" and "x < 2 ^ 62"
  shows "store32 (a + of_int y) v m (a + of_int x) = m (a + of_int x)"
proof -
  have "a + of_int x \<noteq> a + of_int y + of_int j" if "0 \<le> j" "j \<le> 3" for j :: int
  proof
    assume "a + of_int x = a + of_int y + of_int j"
    then have "of_int x = (of_int (y + j) :: u64)" by simp
    moreover have "\<bar>x - (y + j)\<bar> < 2 ^ 64" using assms that by (simp add: abs_less_iff)
    ultimately have "x = y + j" by (rule of_int_u64_eq)
    with assms that show False by simp
  qed
  from this [of 0] this [of 1] this [of 2] this [of 3] show ?thesis by (simp add: store32_def)
qed

lemma param_mem_above:
  "4 * int n \<le> S \<Longrightarrow> S < 2 ^ 31 \<Longrightarrow> 0 \<le> x \<Longrightarrow> x < 2 ^ 62 \<Longrightarrow>
     param_mem a S v n m (a + of_int x) = m (a + of_int x)"
  by (induction n) (simp_all add: store32_above del: of_int_diff of_int_mult)

lemma load_param_mem_other:
  "n \<le> i \<Longrightarrow> 4 * int i + 4 \<le> S + 4 \<Longrightarrow> S < 2 ^ 31 \<Longrightarrow>
     load32 (param_mem a S v n m) (a + of_int (4 * int i - S)) = load32 m (a + of_int (4 * int i - S))"
proof (induction n)
  case (Suc n)
  then have "apart (4 * int n - S) (4 * int i - S)" by (simp add: apart_def)
  from load32_store32_apart [OF this] show ?case using Suc by simp
qed simp

text \<open>The words \<open>ls\<close> lie one after the other, from \<open>S\<close> bytes below the address \<open>a\<close> on; what is at
  \<open>a\<close> and above is another matter.\<close>

definition words_at :: "u64 \<Rightarrow> int \<Rightarrow> u32 list \<Rightarrow> (u64 \<Rightarrow> u8) \<Rightarrow> bool" where
  "words_at a S ls m \<longleftrightarrow> (\<forall>i < length ls. load32 m (a + of_int (4 * int i - S)) = ls ! i)"

definition same_above :: "u64 \<Rightarrow> (u64 \<Rightarrow> u8) \<Rightarrow> (u64 \<Rightarrow> u8) \<Rightarrow> bool" where
  "same_above a m m' \<longleftrightarrow> (\<forall>x. 0 \<le> x \<and> x < 2 ^ 62 \<longrightarrow> m' (a + of_int x) = m (a + of_int x))"

lemma same_above_simps [simp, intro]:
  "same_above a m m" "same_above a m m' \<Longrightarrow> same_above a m' m'' \<Longrightarrow> same_above a m m''"
  by (simp_all add: same_above_def)

lemma words_at_store:
  assumes "words_at a S ls m" and "4 * int (length ls) \<le> S" and "S < 2 ^ 31" and "4 * int j \<le> S"
  shows "words_at a S (ls[j := v]) (store32 (a + of_int (4 * int j - S)) v m)"
  unfolding words_at_def
proof (intro allI impI)
  fix i assume i: "i < length (ls[j := v])"
  show "load32 (store32 (a + of_int (4 * int j - S)) v m) (a + of_int (4 * int i - S)) = ls[j := v] ! i"
  proof (cases "i = j")
    case True
    with i show ?thesis by simp
  next
    case False
    then have "4 * int j + 4 \<le> 4 * int i \<or> 4 * int i + 4 \<le> 4 * int j" by (cases "i < j") auto
    with assms(2-4) i have "apart (4 * int j - S) (4 * int i - S)" by (simp add: apart_def)
    from load32_store32_apart [OF this] assms(1) i False show ?thesis
      by (simp add: words_at_def del: of_int_diff of_int_mult)
  qed
qed

lemma same_above_store:
  "y + 4 \<le> 0 \<Longrightarrow> - (2 ^ 62) < y \<Longrightarrow> same_above a m (store32 (a + of_int y) v m)"
  by (simp add: same_above_def store32_above)

text \<open>A frame of \<open>n\<close> \<open>i32\<close> locals.\<close>

definition i32_frame :: "function_frame \<Rightarrow> int \<Rightarrow> nat \<Rightarrow> bool" where
  "i32_frame fr S n \<longleftrightarrow> (\<forall>i < n. local_stack_offset fr i = Inr (4 * int i - S)) \<and>
     4 * int n \<le> S \<and> S < 2 ^ 31"

lemma sizes_of_i32: "list_all (\<lambda>t. t = kI32) ts \<Longrightarrow> sizes_of ts = 4 * int (length ts)"
  by (induction ts) auto

lemma i32_frame_new:
  assumes "list_all (\<lambda>t. t = kI32) (all_locals m)" and "frame_fits m" and "kStackAlignment cc = 16"
  shows "i32_frame (new_frame cc m) (frame_size cc m) (length (all_locals m))"
  unfolding i32_frame_def
proof (intro conjI allI impI)
  show "4 * int (length (all_locals m)) \<le> frame_size cc m" "frame_size cc m < 2 ^ 31"
    using frame_size_bounds [OF assms(2,3)] assms(2) sizes_of_i32 [OF assms(1)]
    unfolding frame_fits_def by linarith+
  fix i assume i: "i < length (all_locals m)"
  have "list_all (\<lambda>t. t = kI32) (take i (all_locals m))"
    using assms(1) by (auto simp: list_all_iff dest: in_set_takeD)
  from sizes_of_i32 [OF this] i show "local_stack_offset (new_frame cc m) i = Inr (4 * int i - frame_size cc m)"
    by (simp add: local_stack_offset_def new_frame_spec del: upt_Suc)
qed

text \<open>A function that writes a local has a value on its operand stack, and so a frame that is larger
  than its locals.\<close>

definition room_to_write :: "function_metadata \<Rightarrow> bool" where
  "room_to_write m \<longleftrightarrow> (0 < unat (max_stack_elements m) \<longrightarrow> 4 \<le> unat (max_stack_size_bytes m))"

lemma i32_frame_room:
  assumes "list_all (\<lambda>t. t = kI32) (all_locals m)" and "frame_fits m" and "kStackAlignment cc = 16"
    and "room_to_write m" and "0 < unat (max_stack_elements m)"
  shows "4 * int (length (all_locals m)) + 4 \<le> frame_size cc m"
proof -
  have "int 4 \<le> int (unat (max_stack_size_bytes m))"
    using assms(4,5) unfolding room_to_write_def of_nat_le_iff by blast
  with frame_size_bounds [OF assms(2,3)] sizes_of_i32 [OF assms(1)] show ?thesis by linarith
qed

text \<open>The locals when the body starts: the arguments, and for the declared locals whatever the memory
  holds where they lie.\<close>

definition initial_locals :: "call_convention \<Rightarrow> function_metadata \<Rightarrow> machine \<Rightarrow> u32 list" where
  "initial_locals cc f m =
     map (\<lambda>i. low m (kGpArgs cc ! i)) [0..<length (parameter_types (signature f))] @
     map (\<lambda>i. load32 (mem m) (regs m (kSp cc) + of_int (4 * int i - 2 * frame_size cc f)))
       [length (parameter_types (signature f))..<length (all_locals f)]"

lemma length_initial_locals [simp]: "length (initial_locals cc f m) = length (all_locals f)"
  by (simp add: initial_locals_def all_locals_def)

section \<open>What a call promises\<close>

text \<open>
  After a call every register that is not caller-saved, the stack pointer among them, holds what
  it held before, and so does the memory from the stack pointer on, where the caller's frame is.
\<close>

definition abi_kept :: "call_convention \<Rightarrow> machine \<Rightarrow> machine \<Rightarrow> bool" where
  "abi_kept cc m m' \<longleftrightarrow> (\<forall>r. r \<notin> set (caller_saved cc) \<longrightarrow> regs m' r = regs m r) \<and>
     (\<forall>x. 0 \<le> x \<and> x < 2 ^ 61 \<longrightarrow> mem m' (regs m (kSp cc) + of_int x) = mem m (regs m (kSp cc) + of_int x))"

text \<open>The functions that the theorems are about.\<close>

definition compilable :: "call_convention \<Rightarrow> wasm_function \<Rightarrow> bool" where
  "compilable cc f \<longleftrightarrow> covered_body (body f) \<and> frame_fits (meta f) \<and>
     list_all (\<lambda>t. t = kI32) (all_locals (meta f)) \<and>
     length (parameter_types (signature (meta f))) \<le> length (kGpArgs cc) \<and>
     result_types (signature (meta f)) \<in> {[], [kI32]}"

section \<open>Targets\<close>

text \<open>What a write of a local, from the register \<open>r\<close>, leaves: the locals are \<open>ls\<close> then.\<close>

definition local_written :: "nat \<Rightarrow> int \<Rightarrow> u32 list \<Rightarrow> nat \<Rightarrow> machine \<Rightarrow> machine \<Rightarrow> bool" where
  "local_written sp S ls r m m' \<longleftrightarrow> words_at (regs m sp) S ls (mem m') \<and>
     same_above (regs m sp) (mem m) (mem m') \<and>
     (\<forall>r'. r' \<noteq> r \<longrightarrow> regs m' r' = regs m r') \<and> carry m' = carry m"

locale code_target =
  fixes T :: "'i target"
    and step :: "'i \<Rightarrow> machine \<Rightarrow> machine"
    and adder :: adder
    and writer :: local_writer
    and enter_carry :: "machine \<Rightarrow> int \<Rightarrow> bool"
  assumes cc: "calling_convention (t_cc T)"
    and step_enter: "step (t_enter T n) m =
      m\<lparr>regs := (regs m)(kSp (t_cc T) := regs m (kSp (t_cc T)) - of_int n), carry := enter_carry m n\<rparr>"
    and step_leave: "\<exists>c. step (t_leave T n) m =
      m\<lparr>regs := (regs m)(kSp (t_cc T) := regs m (kSp (t_cc T)) + of_int n), carry := c\<rparr>"
    and step_store_param: "step (t_store_param T q off) m = store_gp (kSp (t_cc T)) off q m"
    and step_load_stack: "step (t_load_stack T q off) m = load_gp (kSp (t_cc T)) q off m"
    and step_get_local: "step (t_get_local T q off) m = load_gp (kSp (t_cc T)) q off m"
    and step_const: "step (t_const T (R32 r) v) m = write_gp (R32 r) (ucast v) m"
    and step_add: "step (t_add T (R32 a) (R32 b)) m =
      (let (s, c) = adder (low m a) (low m b) (carry m) in write_gp (R32 a) (ucast s) (m\<lparr>carry := c\<rparr>))"
    and step_set_local: "regs m r = ucast v \<Longrightarrow> words_at (regs m (kSp (t_cc T))) S ls (mem m) \<Longrightarrow>
      i < length ls \<Longrightarrow> 4 * int (length ls) + 4 \<le> S \<Longrightarrow> S < 2 ^ 31 \<Longrightarrow>
      local_written (kSp (t_cc T)) S (writer i v ls) r m (step (t_set_local T (R64 r) (4 * int i - S)) m)"
    and length_writer: "length (writer i v ls) = length ls"
    and step_move: "step (t_move T d q) m = write_gp d (read_gp q m) m"
    and plain_code:
      "plain T (t_enter T n)" "plain T (t_leave T n)" "plain T (t_store_param T q off)"
      "plain T (t_load_stack T q off)" "plain T (t_get_local T q off)" "plain T (t_const T q v)"
      "plain T (t_add T q q')" "plain T (t_move T q q')" "plain T (t_set_local T q off)"
    and control: "t_jump_exit T \<noteq> t_return T" "t_bind_exit T \<noteq> t_return T"
      "t_bind_exit T \<noteq> t_jump_exit T"
    and result_reg: "t_result T = R64 (hd (kGpRets (t_cc T)))"
begin

text \<open>
  \<open>generates op c m c' m'\<close>: the operation succeeds, and what it appends to the code takes the
  machine from \<open>m\<close> to \<open>m'\<close>.
\<close>

definition generates ::
    "('i, unit) code_gen \<Rightarrow> 'i compiler \<Rightarrow> machine \<Rightarrow> 'i compiler \<Rightarrow> machine \<Rightarrow> bool" where
  "generates op c m c' m' \<longleftrightarrow> op c = (Inr (), c') \<and> capacity (c_stack c') = capacity (c_stack c) \<and>
     (\<exists>new. c_code c' = c_code c @ new \<and> list_all (plain T) new \<and> m' = steps step new m)"

lemma generates_seq:
  assumes "generates op c m c' m'" and "generates op' c' m' c'' m''"
  shows "generates (seq op (\<lambda>_. op')) c m c'' m''"
proof -
  obtain new new' where "c_code c' = c_code c @ new" "list_all (plain T) new" "m' = steps step new m"
    "c_code c'' = c_code c' @ new'" "list_all (plain T) new'" "m'' = steps step new' m'"
    using assms by (auto simp: generates_def)
  with assms show ?thesis
    by (auto simp: generates_def seq_run_Inr intro!: exI [of _ "new @ new'"])
qed

text \<open>What the code of a body leaves alone: the memory from the stack pointer on, and the registers
  that are not caller-saved.\<close>

definition undisturbed :: "machine \<Rightarrow> machine \<Rightarrow> bool" where
  "undisturbed m m' \<longleftrightarrow> same_above (regs m (kSp (t_cc T))) (mem m) (mem m') \<and>
     (\<forall>r. r \<notin> set (caller_saved (t_cc T)) \<longrightarrow> regs m' r = regs m r)"

lemma sp_not_caller_saved: "kSp (t_cc T) \<notin> set (caller_saved (t_cc T))"
  using calling_convention.sp_not_saved [OF cc] by (simp add: set_mask_regs)

lemma undisturbed_refl: "undisturbed m m"
  by (simp add: undisturbed_def)

lemma undisturbed_sp: "undisturbed m m' \<Longrightarrow> regs m' (kSp (t_cc T)) = regs m (kSp (t_cc T))"
  using sp_not_caller_saved by (simp add: undisturbed_def)

lemma undisturbed_trans: "undisturbed m m' \<Longrightarrow> undisturbed m' m'' \<Longrightarrow> undisturbed m m''"
  using undisturbed_sp [of m m'] by (auto simp: undisturbed_def intro: same_above_simps(2))

text \<open>The run-time stack is in the registers of the compile-time stack, whose upper halves are zero.\<close>

definition represents :: "'i compiler \<Rightarrow> machine \<Rightarrow> u32 list \<Rightarrow> bool" where
  "represents c m st \<longleftrightarrow> (\<exists>rs. holding T c rs \<and> map (regs m) rs = map ucast (rev st))"

lemma represents_push:
  assumes "map (regs m) rs = map ucast (rev st)" and "r \<notin> set rs" and "holding T c (rs @ [r])"
    and "\<And>r'. regs m' r' = (if r' = r then ucast v else regs m r')"
  shows "represents c m' (v # st)"
proof -
  have "map (regs m') rs = map (regs m) rs"
    using assms(2,4) by (intro map_cong) auto
  then show ?thesis
    unfolding represents_def by (intro exI [of _ "rs @ [r]"]) (simp add: assms)
qed

lemma represents_length: "map (regs m) rs = map ucast (rev st) \<Longrightarrow> length rs = length st"
  by (metis length_map length_rev)

text \<open>A state of the program in a machine, with the locals \<open>S\<close> bytes below the stack pointer; and
  one instruction: what is emitted does to the machine what the instruction does to the state.\<close>

fun represented :: "'i compiler \<Rightarrow> machine \<Rightarrow> int \<Rightarrow> target_state \<Rightarrow> bool" where
  "represented c m S (ls, st, cf) \<longleftrightarrow> represents c m st \<and>
     words_at (regs m (kSp (t_cc T))) S ls (mem m) \<and> carry m = cf"

definition simulates ::
    "('i, unit) code_gen \<Rightarrow> 'i compiler \<Rightarrow> machine \<Rightarrow> int \<Rightarrow> target_state \<Rightarrow> bool" where
  "simulates op c m S s' \<longleftrightarrow> (\<exists>c' m'. generates op c m c' m' \<and> undisturbed m m' \<and> represented c' m' S s')"

lemma simulatesI:
  assumes "op c = (Inr (), c')" and "capacity (c_stack c') = capacity (c_stack c)"
    and "c_code c' = c_code c @ new" and "list_all (plain T) new"
    and "undisturbed m (steps step new m)" and "represented c' (steps step new m) S s'"
  shows "simulates op c m S s'"
  unfolding simulates_def generates_def using assms by blast

lemma simulates_const:
  assumes rep: "represented c m S (ls, st, cf)" and room: "room T c (length st)"
  shows "simulates (compile_op T fr (ConstI32 x)) c m S (ls, as_U32 x # st, cf)"
proof -
  obtain rs where h: "holding T c rs" and a: "map (regs m) rs = map ucast (rev st)"
    using rep by (auto simp: represents_def)
  note room' = room [folded represents_length [OF a]]
  obtain r c' off where c': "compile_op T fr (ConstI32 x) c = (Inr (), c')" "holding T c' (rs @ [r])"
    "r \<notin> set rs" "r \<in> set (caller_saved (t_cc T))" "capacity (c_stack c') = capacity (c_stack c)"
    "c_code c' = c_code c @ [t_load_stack T (R32 r) off, t_const T (R32 r) (as_I32 x)]"
    using compile_const [OF h room'] by blast
  let ?m = "steps step [t_load_stack T (R32 r) off, t_const T (R32 r) (as_I32 x)] m"
  have m: "mem ?m = mem m" "carry ?m = carry m"
    "regs ?m r' = (if r' = r then ucast (as_U32 x) else regs m r')" for r'
    by (simp_all add: step_load_stack step_const as_I32_def as_U32_def)
  then have "undisturbed m ?m" using c'(4) by (auto simp: undisturbed_def)
  with represents_push [OF a c'(3,2) m(3)] rep m(1,2) undisturbed_sp [of m ?m] c'(1,5,6) show ?thesis
    by (intro simulatesI [of _ _ c', OF _ _ c'(6)]) (simp_all add: plain_code del: steps_simps)
qed

lemma simulates_get:
  assumes rep: "represented c m S (ls, st, cf)" and room: "room T c (length st)"
    and fr: "i32_frame fr S (length ls)" and i: "i < length ls"
  shows "simulates (compile_op T fr (GetLocalI32 i)) c m S (ls, ls ! i # st, cf)"
proof -
  obtain rs where h: "holding T c rs" and a: "map (regs m) rs = map ucast (rev st)"
    using rep by (auto simp: represents_def)
  note room' = room [folded represents_length [OF a]]
  let ?p = "4 * int i - S"
  have p: "local_stack_offset fr i = Inr ?p" "load32 (mem m) (sp_address (kSp (t_cc T)) ?p m) = ls ! i"
    using fr i rep by (simp_all add: i32_frame_def words_at_def sp_address_def)
  obtain r c' where c': "compile_op T fr (GetLocalI32 i) c = (Inr (), c')" "holding T c' (rs @ [r])"
    "r \<notin> set rs" "r \<in> set (caller_saved (t_cc T))" "capacity (c_stack c') = capacity (c_stack c)"
    "c_code c' = c_code c @ [t_get_local T (R32 r) ?p]"
    using compile_get [OF h room' p(1)] by blast
  let ?m = "steps step [t_get_local T (R32 r) ?p] m"
  have m: "mem ?m = mem m" "carry ?m = carry m" "regs ?m r' = (if r' = r then ucast (ls ! i) else regs m r')" for r'
    by (simp_all add: step_get_local p(2))
  then have "undisturbed m ?m" using c'(4) by (auto simp: undisturbed_def)
  with represents_push [OF a c'(3,2) m(3)] rep m(1,2) undisturbed_sp [of m ?m] c'(1,5,6) show ?thesis
    by (intro simulatesI [of _ _ c', OF _ _ c'(6)]) (simp_all add: plain_code del: steps_simps)
qed

lemma low_regs: "regs m r = ucast (v :: u32) \<Longrightarrow> low m r = v"
  by (simp add: low_def)

lemma simulates_add:
  assumes rep: "represented c m S (ls, y # x # st, cf)" and s: "adder x y cf = (s, cf')"
  shows "simulates (compile_op T fr AddI32) c m S (ls, s # st, cf')"
proof -
  obtain rs where h: "holding T c rs" and a: "map (regs m) rs = map ucast (rev (y # x # st))"
    using rep by (auto simp: represents_def)
  have "length rs = Suc (Suc (length st))" using represents_length [OF a] by simp
  then obtain rs0 r1 r2 where rs: "rs = rs0 @ [r1, r2]"
    by (metis append.assoc append_Cons append_Nil length_Suc_conv_rev)
  from a have v: "low m r1 = x" "low m r2 = y" "map (regs m) rs0 = map ucast (rev st)"
    by (auto simp: rs intro: low_regs)
  obtain c' where c': "compile_op T fr AddI32 c = (Inr (), c')" "holding T c' (rs0 @ [r1])"
    "capacity (c_stack c') = capacity (c_stack c)" "c_code c' = c_code c @ [t_add T (R32 r1) (R32 r2)]"
    using compile_add [of T c rs0 r1 r2 fr] h rs by blast
  have r1: "r1 \<in> set (caller_saved (t_cc T))" "r1 \<notin> set rs0"
    using h by (auto simp: holding_def rs)
  let ?m = "steps step [t_add T (R32 r1) (R32 r2)] m"
  have cf: "carry m = cf" using rep by simp
  have m: "mem ?m = mem m" "carry ?m = cf'" "regs ?m r' = (if r' = r1 then ucast s else regs m r')" for r'
    by (simp_all add: step_add v s cf)
  then have "undisturbed m ?m" using r1 by (auto simp: undisturbed_def)
  with represents_push [OF v(3) r1(2) c'(2) m(3)] rep m(1,2) undisturbed_sp [of m ?m] c'(1,3) show ?thesis
    by (intro simulatesI [of _ _ c', OF _ _ c'(4)]) (simp_all add: plain_code del: steps_simps)
qed

lemma simulates_set:
  assumes rep: "represented c m S (ls, v # st, cf)"
    and fr: "i32_frame fr S (length ls)" "4 * int (length ls) + 4 \<le> S" and i: "i < length ls"
  shows "simulates (compile_op T fr (SetLocalI32 i)) c m S (writer i v ls, st, cf)"
proof -
  obtain rs0 where h: "holding T c rs0" and a: "map (regs m) rs0 = map ucast (rev (v # st))"
    using rep by (auto simp: represents_def)
  then obtain rs r where rs: "rs0 = rs @ [r]" by (metis length_Cons length_Suc_conv_rev represents_length)
  from a have r: "regs m r = ucast v" "map (regs m) rs = map ucast (rev st)" by (auto simp: rs)
  have mem: "r \<in> set (caller_saved (t_cc T))" "r \<notin> set rs" using h by (auto simp: holding_def rs)
  let ?p = "4 * int i - S" and ?sp = "kSp (t_cc T)"
  have p: "local_stack_offset fr i = Inr ?p" and S: "S < 2 ^ 31" using fr i by (simp_all add: i32_frame_def)
  obtain c' where c': "compile_op T fr (SetLocalI32 i) c = (Inr (), c')" "holding T c' rs"
    "capacity (c_stack c') = capacity (c_stack c)" "c_code c' = c_code c @ [t_set_local T (R64 r) ?p]"
    using compile_set [OF h [unfolded rs] p] by blast
  let ?m = "steps step [t_set_local T (R64 r) ?p] m"
  have w: "local_written ?sp S (writer i v ls) r m ?m"
    using step_set_local [OF r(1) _ i fr(2) S] rep by simp
  have "r \<noteq> ?sp" using mem(1) sp_not_caller_saved by metis
  moreover have "map (regs ?m) rs = map (regs m) rs"
    using w mem(2) by (intro map_cong) (auto simp: local_written_def)
  ultimately show ?thesis using w rep r(2) c'(1-3) mem(1)
    by (intro simulatesI [of _ _ c', OF _ _ c'(4)])
      (auto simp: plain_code undisturbed_def represents_def local_written_def simp del: steps_simps)
qed

lemma room_iff: "room T c n \<longleftrightarrow> n < capacity (c_stack c) \<and> n < length (caller_saved (t_cc T))"
proof -
  have "length (caller_saved (t_cc T)) \<le> length [0..<32 :: nat]"
    unfolding mask_regs_filter by (rule length_filter_le)
  then show ?thesis by (auto simp: room_def)
qed

text \<open>One instruction, next to its execution in WebAssembly, which is from a stack and locals of the
  same sizes.\<close>

lemma simulates_instr:
  assumes "covered i" and w: "exec_instr i (ls0, st0) = Some (ls1, st1)"
    and len: "length st0 = length st" "length ls0 = length ls"
    and room: "length st1 \<le> capacity (c_stack c)" "length st1 \<le> length (caller_saved (t_cc T))"
    and rep: "represented c m S (ls, st, cf)"
    and fr: "i32_frame fr S (length ls)" "st0 \<noteq> [] \<Longrightarrow> 4 * int (length ls) + 4 \<le> S"
  shows "\<exists>ls' st' cf'. (\<forall>k. exec_on adder writer (i # k) (ls, st, cf) = exec_on adder writer k (ls', st', cf')) \<and>
    simulates (compile_op T fr i) c m S (ls', st', cf') \<and> length st1 = length st' \<and>
    length ls1 = length ls' \<and> length ls' = length ls"
  using assms(1)
proof (cases i)
  case (ConstI32 x)
  with w len room have "room T c (length st)" by (auto simp: room_iff)
  from simulates_const [OF rep this] show ?thesis
    unfolding ConstI32 using w len ConstI32
    by (intro exI [of _ ls] exI [of _ "as_U32 x # st"] exI [of _ cf]) auto
next
  case (GetLocalI32 j)
  with w len room have "room T c (length st)" and j: "j < length ls"
    by (auto simp: room_iff split: if_splits)
  from simulates_get [OF rep this(1) fr(1) j] show ?thesis
    unfolding GetLocalI32 using w len j GetLocalI32
    by (intro exI [of _ ls] exI [of _ "ls ! j # st"] exI [of _ cf]) auto
next
  case AddI32
  with w obtain b0 a0 r0 where st0: "st0 = b0 # a0 # r0"
    by (cases "(AddI32, (ls0, st0))" rule: exec_instr.cases) auto
  with len obtain b a st2 where st: "st = b # a # st2" by (metis length_Suc_conv)
  obtain r cf' where r: "adder a b cf = (r, cf')" by fastforce
  from simulates_add [OF rep [unfolded st] r] show ?thesis
    unfolding AddI32 using w len AddI32 st st0 r
    by (intro exI [of _ ls] exI [of _ "r # st2"] exI [of _ cf']) auto
next
  case (SetLocalI32 j)
  with w obtain a0 where st0: "st0 = a0 # st1" and j: "j < length ls" and ls1: "ls1 = ls0[j := a0]"
    using len by (cases "(SetLocalI32 j, (ls0, st0))" rule: exec_instr.cases) (auto split: if_splits)
  with len obtain a st2 where st: "st = a # st2" by (metis length_Suc_conv)
  from simulates_set [OF rep [unfolded st] fr(1) fr(2) j] st0 show ?thesis
    unfolding SetLocalI32 using len j st st0 ls1 length_writer
    by (intro exI [of _ "writer j a ls"] exI [of _ st2] exI [of _ cf]) auto
qed simp_all

lemma simulates_body:
  assumes "list_all covered is" and "exec is (ls0, st0) = Some (ls0', st0')"
    and "length st0 = length st" and "length ls0 = length ls" and "peak is (ls0, st0) \<le> D"
    and "D \<le> capacity (c_stack c)" and "D \<le> length (caller_saved (t_cc T))"
    and "represented c m S (ls, st, cf)"
    and "i32_frame fr S (length ls)" and room: "0 < D \<Longrightarrow> 4 * int (length ls) + 4 \<le> S"
  shows "\<exists>ls' st' cf'. exec_on adder writer is (ls, st, cf) = Some (ls', st', cf') \<and>
    length st' = length st0' \<and> simulates (for_each (compile_op T fr) is) c m S (ls', st', cf')"
  using assms
proof (induction "is" arbitrary: ls0 st0 ls st cf c m)
  case Nil
  have "simulates (for_each (compile_op T fr) []) c m S (ls, st, cf)"
    by (rule simulatesI [of _ _ c "[]"]) (use Nil.prems(8) in \<open>simp_all add: undisturbed_refl\<close>)
  moreover have "exec_on adder writer [] (ls, st, cf) = Some (ls, st, cf)" "length st = length st0'"
    using Nil.prems by simp_all
  ultimately show ?case by blast
next
  case (Cons i "is")
  have ne: "i \<noteq> Return" using Cons.prems(1) by auto
  then obtain ls1 st1 where w0: "exec_instr i (ls0, st0) = Some (ls1, st1)"
    and rest: "exec is (ls1, st1) = Some (ls0', st0')" and peak: "length st0 \<le> D" "peak is (ls1, st1) \<le> D"
    using Cons.prems(2,5) by (auto simp: bind_eq_Some_conv)
  have D: "length st1 \<le> D" using peak(2) peak_ge [of "(ls1, st1)" "is"] by simp
  have cov: "covered i" "list_all covered is" using Cons.prems(1) by simp_all
  have room1: "st0 \<noteq> [] \<Longrightarrow> 4 * int (length ls) + 4 \<le> S" using Cons.prems(10) peak(1) by (cases st0) auto
  from simulates_instr [OF cov(1) w0 Cons.prems(3,4) _ _ Cons.prems(8,9) room1] D Cons.prems(6,7)
  obtain ls' st' cf' where
    on: "\<And>k. exec_on adder writer (i # k) (ls, st, cf) = exec_on adder writer k (ls', st', cf')"
    and sim: "simulates (compile_op T fr i) c m S (ls', st', cf')"
    and len: "length st1 = length st'" "length ls1 = length ls'" "length ls' = length ls"
    using le_trans [OF D] by blast
  then obtain c1 m1 where gen: "generates (compile_op T fr i) c m c1 m1" "undisturbed m m1"
    "represented c1 m1 S (ls', st', cf')"
    by (auto simp: simulates_def)
  have "D \<le> capacity (c_stack c1)" using gen(1) Cons.prems(6) by (simp add: generates_def)
  from Cons.IH [OF cov(2) rest len(1,2) peak(2) this Cons.prems(7) gen(3)] Cons.prems(9,10) len(3)
  obtain ls2 st2 cf2 where r: "exec_on adder writer is (ls', st', cf') = Some (ls2, st2, cf2)"
    "length st2 = length st0'" and "simulates (for_each (compile_op T fr) is) c1 m1 S (ls2, st2, cf2)"
    by auto
  then obtain c2 m2 where gen2: "generates (for_each (compile_op T fr) is) c1 m1 c2 m2"
    "undisturbed m1 m2" "represented c2 m2 S (ls2, st2, cf2)"
    by (auto simp: simulates_def)
  have "simulates (for_each (compile_op T fr) (i # is)) c m S (ls2, st2, cf2)"
    unfolding simulates_def for_each.simps
    using generates_seq [OF gen(1) gen2(1)] undisturbed_trans [OF gen(2) gen2(2)] gen2(3) by blast
  with r on show ?case by auto
qed

section \<open>Prologue and epilogue\<close>

definition frame_bytes :: "function_metadata \<Rightarrow> int" where
  "frame_bytes m = frame_size (t_cc T) m"

definition param_code :: "function_metadata \<Rightarrow> nat \<Rightarrow> 'i list" where
  "param_code m n =
     map (\<lambda>i. t_store_param T (R32 (kGpArgs (t_cc T) ! i)) (4 * int i - frame_bytes m)) [0..<n]"

lemma save_params_code:
  assumes i32: "list_all (\<lambda>t. t = kI32) (all_locals m)" and fits: "frame_fits m"
    and "n \<le> length (parameter_types (signature m))" and "n \<le> length (kGpArgs (t_cc T))"
  shows "for_each (save_param T (new_frame (t_cc T) m) m) [0..<n] c =
    (Inr (), c\<lparr>c_code := c_code c @ param_code m n\<rparr>)"
  using assms(3,4)
proof (induction n)
  case (Suc n)
  have "list_all (\<lambda>t. t = kI32) (parameter_types (signature m))" using i32 by (simp add: all_locals_def)
  with Suc.prems have "parameter_types (signature m) ! n = kI32" by (simp add: list_all_length)
  moreover have "local_stack_offset (new_frame (t_cc T) m) n = Inr (4 * int n - frame_bytes m)"
    using i32_frame_new [OF i32 fits calling_convention.alignment [OF cc]] Suc.prems(1)
    by (simp add: i32_frame_def frame_bytes_def all_locals_def)
  ultimately show ?case using Suc
    by (simp add: for_each_append seq_run_Inr save_param_def local_offset_def param_code_def)
qed (simp add: param_code_def)

lemma param_code_plain: "list_all (plain T) (param_code m n)"
  by (simp add: param_code_def list_all_iff plain_code)

lemma param_code_steps:
  "steps step (param_code f n) m =
     m\<lparr>mem := param_mem (regs m (kSp (t_cc T))) (frame_bytes f) (\<lambda>i. low m (kGpArgs (t_cc T) ! i)) n (mem m)\<rparr>"
  by (induction n)
    (simp_all add: param_code_def step_store_param sp_address_def low_def)

definition entered :: "function_metadata \<Rightarrow> machine \<Rightarrow> machine" where
  "entered f m = m\<lparr>regs := (regs m)(kSp (t_cc T) := regs m (kSp (t_cc T)) - of_int (frame_bytes f)),
     mem := param_mem (regs m (kSp (t_cc T)) - of_int (frame_bytes f)) (frame_bytes f)
       (\<lambda>i. low m (kGpArgs (t_cc T) ! i)) (length (parameter_types (signature f))) (mem m),
     carry := enter_carry m (frame_bytes f)\<rparr>"

lemma generates_prologue:
  assumes i32: "list_all (\<lambda>t. t = kI32) (all_locals f)" and fits: "frame_fits f"
    and args: "length (parameter_types (signature f)) \<le> length (kGpArgs (t_cc T))"
  shows "\<exists>code. generates (prologue T (new_frame (t_cc T) f) f) c m (c\<lparr>c_code := code\<rparr>) (entered f m)"
proof -
  let ?n = "length (parameter_types (signature f))"
  let ?new = "t_enter T (frame_bytes f) # param_code f ?n"
  have run: "prologue T (new_frame (t_cc T) f) f c = (Inr (), c\<lparr>c_code := c_code c @ ?new\<rparr>)"
    by (simp add: prologue_def seq_run_Inr save_params_code [OF i32 fits order_refl args]
        stack_size_new_frame frame_bytes_def)
  let ?m1 = "step (t_enter T (frame_bytes f)) m"
  have low: "low ?m1 (kGpArgs (t_cc T) ! i) = low m (kGpArgs (t_cc T) ! i)" if "i < ?n" for i
    using calling_convention.arg_not_sp [OF cc, of "kGpArgs (t_cc T) ! i"] that args
    by (simp add: step_enter low_def)
  have "param_mem a S (\<lambda>i. low ?m1 (kGpArgs (t_cc T) ! i)) ?n mm =
      param_mem a S (\<lambda>i. low m (kGpArgs (t_cc T) ! i)) ?n mm" for a S mm
    unfolding param_mem_def by (rule fold_cong) (auto simp: low)
  then have "steps step ?new m = entered f m"
    by (simp add: param_code_steps step_enter entered_def)
  then show ?thesis
    using run param_code_plain plain_code(1)
    by (intro exI [of _ "c_code c @ ?new"]) (auto simp: generates_def intro!: exI [of _ ?new])
qed

lemma i32_frame_bytes:
  assumes "list_all (\<lambda>t. t = kI32) (all_locals f)" and "frame_fits f"
  shows "i32_frame (new_frame (t_cc T) f) (frame_bytes f) (length (all_locals f))"
  unfolding frame_bytes_def by (rule i32_frame_new [OF assms calling_convention.alignment [OF cc]])

lemma entered_locals:
  assumes i32: "list_all (\<lambda>t. t = kI32) (all_locals f)" and fits: "frame_fits f"
  shows "words_at (regs (entered f m) (kSp (t_cc T))) (frame_bytes f) (initial_locals (t_cc T) f m) (mem (entered f m))"
  unfolding words_at_def
proof (intro allI impI)
  let ?S = "frame_bytes f" and ?n = "length (parameter_types (signature f))"
  let ?a = "regs m (kSp (t_cc T)) - of_int ?S" and ?v = "\<lambda>i. low m (kGpArgs (t_cc T) ! i)"
  have S: "4 * int (length (all_locals f)) \<le> ?S" "?S < 2 ^ 31"
    using i32_frame_bytes [OF i32 fits] by (simp_all add: i32_frame_def)
  have n: "?n \<le> length (all_locals f)" by (simp add: all_locals_def)
  fix i assume i: "i < length (initial_locals (t_cc T) f m)"
  have "load32 (param_mem ?a ?S ?v ?n (mem m)) (?a + of_int (4 * int i - ?S)) = initial_locals (t_cc T) f m ! i"
  proof (cases "i < ?n")
    case True
    have "4 * int ?n \<le> ?S" using S(1) n by linarith
    from load_param_mem [OF True this S(2), of ?a ?v "mem m"] True show ?thesis
      by (simp add: initial_locals_def nth_append frame_bytes_def)
  next
    case False
    have "4 * int i + 4 \<le> ?S + 4" using S(1) i by simp
    with False have "load32 (param_mem ?a ?S ?v ?n (mem m)) (?a + of_int (4 * int i - ?S)) =
        load32 (mem m) (?a + of_int (4 * int i - ?S))"
      by (intro load_param_mem_other) (use S(2) in simp_all)
    also have "\<dots> = load32 (mem m) (regs m (kSp (t_cc T)) + of_int (4 * int i - 2 * ?S))"
      by (rule arg_cong [where f = "load32 (mem m)"]) simp
    also have "\<dots> = initial_locals (t_cc T) f m ! i"
      using False i n by (simp add: initial_locals_def nth_append frame_bytes_def)
    finally show ?thesis .
  qed
  then show "load32 (mem (entered f m)) (regs (entered f m) (kSp (t_cc T)) + of_int (4 * int i - ?S)) =
      initial_locals (t_cc T) f m ! i"
    by (simp add: entered_def)
qed

text \<open>The last values of a run: the machine after the code of the epilogue.\<close>

definition left :: "function_metadata \<Rightarrow> machine \<Rightarrow> u32 list \<Rightarrow> machine \<Rightarrow> bool" where
  "left f m st m' \<longleftrightarrow> mem m' = mem m \<and>
     regs m' (kSp (t_cc T)) = regs m (kSp (t_cc T)) + of_int (frame_bytes f) \<and>
     (\<forall>r. r \<notin> set (caller_saved (t_cc T)) \<longrightarrow> r \<noteq> kSp (t_cc T) \<longrightarrow> regs m' r = regs m r) \<and>
     (result_types (signature f) \<noteq> [] \<longrightarrow> low m' (hd (kGpRets (t_cc T))) = hd st)"

lemma result_caller_saved: "hd (kGpRets (t_cc T)) \<in> set (caller_saved (t_cc T))"
  using calling_convention.rets_saved [OF cc] calling_convention.rets_nonempty [OF cc]
  by (simp add: set_mask_regs)

lemma pop_result:
  assumes "represents c m st" and "st \<noteq> []"
  obtains v s r where "stack_pop (c_stack c) = (Inr v, s)" and "reg v = Some (R64 r)"
    and "rv_type v = kI32" and "low m r = hd st"
proof -
  obtain rs where h: "holding T c rs" and a: "map (regs m) rs = map ucast (rev st)"
    using assms(1) by (auto simp: represents_def)
  from assms(2) obtain v st0 where st: "st = v # st0" by (cases st) auto
  with a obtain rs0 r where rs: "rs = rs0 @ [r]" by (metis length_Cons length_Suc_conv_rev represents_length)
  from a have "low m r = hd st" unfolding rs st by (simp add: low_regs)
  moreover obtain v s where "stack_pop (c_stack c) = (Inr v, s)" "reg v = Some (R64 r)" "rv_type v = kI32"
    using pop_holding [OF h [unfolded rs]] by metis
  ultimately show thesis by (rule that [rotated 3])
qed

lemma left_after:
  assumes "mem m' = mem m" and "\<forall>r. r \<notin> set (caller_saved (t_cc T)) \<longrightarrow> regs m' r = regs m r" and "result_types (signature f) \<noteq> [] \<longrightarrow> low m' (hd (kGpRets (t_cc T))) = hd st"
  shows "left f m st (step (t_leave T (frame_bytes f)) m')"
proof -
  obtain cf where leave: "step (t_leave T (frame_bytes f)) m' =
      m'\<lparr>regs := (regs m')(kSp (t_cc T) := regs m' (kSp (t_cc T)) + of_int (frame_bytes f)), carry := cf\<rparr>"
    using step_leave by blast
  have "hd (kGpRets (t_cc T)) \<noteq> kSp (t_cc T)"
    using result_caller_saved sp_not_caller_saved by metis
  with assms sp_not_caller_saved show ?thesis
    unfolding left_def leave by (simp add: low_def)
qed

lemma epilogue_code:
  assumes rep: "represents c m st"
    and res: "result_types (signature f) = [] \<or> result_types (signature f) = [kI32] \<and> st \<noteq> []"
  shows "\<exists>fin c'. epilogue T (new_frame (t_cc T) f) f c = (Inr (), c') \<and>
    c_code c' = c_code c @ t_bind_exit T # fin @ [t_return T] \<and> list_all (plain T) fin \<and>
    left f m st (steps step fin m)"
proof (cases "result_types (signature f) = []")
  case True
  let ?fin = "[t_leave T (frame_bytes f)]"
  have "epilogue T (new_frame (t_cc T) f) f c =
      (Inr (), c\<lparr>c_code := c_code c @ t_bind_exit T # ?fin @ [t_return T]\<rparr>)"
    by (simp add: epilogue_def seq_run_Inr True stack_size_new_frame frame_bytes_def)
  with left_after [of m m f st] True plain_code(2) show ?thesis
    by (intro exI [of _ ?fin]) auto
next
  case False
  with res have i32: "result_types (signature f) = [kI32]" and "st \<noteq> []" by auto
  then obtain v s r where v: "stack_pop (c_stack c) = (Inr v, s)" "reg v = Some (R64 r)"
    "rv_type v = kI32" and r: "low m r = hd st"
    using pop_result [OF rep] by metis
  let ?q = "hd (kGpRets (t_cc T))"
  let ?mv = "if r = ?q then [] else [t_move T (R32 ?q) (R32 r)]"
  let ?fin = "?mv @ [t_leave T (frame_bytes f)]"
  have run: "epilogue T (new_frame (t_cc T) f) f c =
      (Inr (), c\<lparr>c_stack := s, c_code := c_code c @ t_bind_exit T # ?fin @ [t_return T]\<rparr>)"
    using v by (simp add: epilogue_def seq_run_Inr i32 stack_size_new_frame frame_bytes_def on_stack_def
        ensure_value_def result_reg Let_def)
  have "mem (steps step ?mv m) = mem m" "low (steps step ?mv m) ?q = hd st"
    "\<forall>r. r \<notin> set (caller_saved (t_cc T)) \<longrightarrow> regs (steps step ?mv m) r = regs m r"
    using result_caller_saved r by (auto simp: step_move low_def)
  from left_after [OF this(1,3), of f st] this(2)
  have "left f m st (steps step ?fin m)" by simp
  moreover have "list_all (plain T) ?fin" using plain_code by simp
  ultimately show ?thesis
    by (intro exI [of _ ?fin] exI [of _ "c\<lparr>c_stack := s, c_code := c_code c @ t_bind_exit T # ?fin @ [t_return T]\<rparr>"] conjI run)
      simp_all
qed

section \<open>A whole function\<close>

lemma run_exit:
  assumes "list_all (plain T) pre" and "list_all (plain T) fin" and "jump = [] \<or> jump = [t_jump_exit T]"
  shows "run_code T step (pre @ jump @ t_bind_exit T # fin @ [t_return T]) m =
    Some (steps step fin (steps step pre m))"
proof -
  have "run_code T step (jump @ t_bind_exit T # fin @ [t_return T]) m' = Some (steps step fin m')" for m'
    using assms(3) control by (auto simp: run_code_plain [OF assms(2)])
  then show ?thesis by (simp add: run_code_plain [OF assms(1)])
qed

text \<open>The code of the body, with the jump of a \<open>Return\<close> at its end.\<close>

lemma body_code:
  assumes "covered_body b" and "exec b (ls0, []) = Some (ls0', st0')" and "length ls0 = length ls"
    and "peak b (ls0, []) \<le> D" and "D \<le> capacity (c_stack c)" and "D \<le> length (caller_saved (t_cc T))"
    and "represented c m S (ls, [], cf)"
    and "i32_frame fr S (length ls)" and "0 < D \<Longrightarrow> 4 * int (length ls) + 4 \<le> S"
  shows "\<exists>ls' st' cf' c' m' new jump. exec_on adder writer b (ls, [], cf) = Some (ls', st', cf') \<and>
    length st' = length st0' \<and> for_each (compile_op T fr) b c = (Inr (), c') \<and>
    c_code c' = c_code c @ new @ jump \<and> list_all (plain T) new \<and> m' = steps step new m \<and>
    (jump = [] \<or> jump = [t_jump_exit T]) \<and> undisturbed m m' \<and> represents c' m' st'"
proof -
  obtain b0 where b0: "list_all covered b0" "b = b0 \<or> b = b0 @ [Return]"
    using assms(1) by (rule covered_bodyE)
  have ex: "exec b0 (ls0, []) = Some (ls0', st0')" "peak b0 (ls0, []) \<le> D"
    "exec_on adder writer b s = exec_on adder writer b0 s" for s
    using b0 assms(2,4) by (auto simp: exec_snoc_Return peak_snoc_Return exec_on_snoc_Return)
  from simulates_body [OF b0(1) ex(1) refl assms(3) ex(2) assms(5-9)] ex(3)
  obtain ls' st' cf' where run: "exec_on adder writer b (ls, [], cf) = Some (ls', st', cf')" "length st' = length st0'"
    and "simulates (for_each (compile_op T fr) b0) c m S (ls', st', cf')"
    by auto
  then obtain c1 m1 new where g: "for_each (compile_op T fr) b0 c = (Inr (), c1)"
    "c_code c1 = c_code c @ new" "list_all (plain T) new" "m1 = steps step new m"
    and m1: "undisturbed m m1" "represents c1 m1 st'"
    by (auto simp: simulates_def generates_def)
  from b0(2) show ?thesis
  proof
    assume "b = b0"
    with run g m1 show ?thesis
      by (intro exI [of _ ls'] exI [of _ st'] exI [of _ cf'] exI [of _ c1] exI [of _ m1] exI [of _ new] exI [of _ "[]"]) simp
  next
    assume b: "b = b0 @ [Return]"
    let ?c = "c1\<lparr>c_code := c_code c1 @ [t_jump_exit T]\<rparr>"
    have "for_each (compile_op T fr) b c = (Inr (), ?c)"
      unfolding b by (simp add: for_each_append seq_run_Inr g(1))
    moreover have "represents ?c m1 st'"
      using m1(2) by (simp add: represents_def holding_def)
    ultimately show ?thesis using run g m1
      by (intro exI [of _ ls'] exI [of _ st'] exI [of _ cf'] exI [of _ ?c] exI [of _ m1] exI [of _ new]
          exI [of _ "[t_jump_exit T]"]) simp
  qed
qed

lemma left_abi_kept:
  assumes "left f m1 st m'" and "undisturbed (entered f m) m1"
    and "4 * int (length (parameter_types (signature f))) \<le> frame_bytes f" and "frame_bytes f < 2 ^ 31"
  shows "abi_kept (t_cc T) m m'"
proof -
  let ?sp = "kSp (t_cc T)" and ?S = "frame_bytes f"
  have regs: "regs m' r = regs m r" if "r \<notin> set (caller_saved (t_cc T))" for r
    using assms(1,2) that sp_not_caller_saved
    by (cases "r = ?sp") (simp_all add: left_def undisturbed_def entered_def)
  let ?p = "param_mem (regs m ?sp - of_int ?S) ?S (\<lambda>i. low m (kGpArgs (t_cc T) ! i))
      (length (parameter_types (signature f))) (mem m)"
  have "mem m' (regs m ?sp + of_int x) = mem m (regs m ?sp + of_int x)" if "0 \<le> x" "x < 2 ^ 61" for x
  proof -
    have x: "0 \<le> x + ?S" "x + ?S < 2 ^ 62" using assms(3,4) that by simp_all
    have "same_above (regs m ?sp - of_int ?S) ?p (mem m')"
      using assms(1,2) by (simp add: left_def undisturbed_def entered_def)
    with x have "mem m' (regs m ?sp - of_int ?S + of_int (x + ?S)) = ?p (regs m ?sp - of_int ?S + of_int (x + ?S))"
      unfolding same_above_def by blast
    with param_mem_above [OF assms(3,4) x, of "regs m ?sp - of_int ?S"] show ?thesis by simp
  qed
  with regs show ?thesis by (simp add: abi_kept_def)
qed

text \<open>The code of a function returns, and computes the body on the initial locals as the target
  executes it.\<close>

lemma function_runs:
  assumes f: "compilable (t_cc T) f" and ex: "exec (body f) (args, []) = Some (ls0', st0')"
    and len: "length args = length (all_locals (meta f))"
    and bounds: "peak (body f) (args, []) \<le> unat (max_stack_elements (meta f))"
      "unat (max_stack_elements (meta f)) \<le> length (caller_saved (t_cc T))"
    and room: "room_to_write (meta f)"
    and res: "length st0' = length (result_types (signature (meta f)))"
  shows "\<exists>code m' ls st cf. compile_function T f = Inr code \<and> run_code T step code m = Some m' \<and>
    exec_on adder writer (body f) (initial_locals (t_cc T) (meta f) m, [], enter_carry m (frame_bytes (meta f))) =
      Some (ls, st, cf) \<and>
    length st = length st0' \<and> (st \<noteq> [] \<longrightarrow> low m' (hd (kGpRets (t_cc T))) = hd st) \<and>
    abi_kept (t_cc T) m m'"
proof -
  let ?f = "meta f"
  let ?fr = "new_frame (t_cc T) ?f" and ?c0 = "new_compiler ?f :: 'i compiler"
  let ?S = "frame_bytes ?f" and ?D = "unat (max_stack_elements ?f)" and ?ls = "initial_locals (t_cc T) ?f m"
  from f have i32: "list_all (\<lambda>t. t = kI32) (all_locals ?f)"
    and nargs: "length (parameter_types (signature ?f)) \<le> length (kGpArgs (t_cc T))"
    and cov: "covered_body (body f)" and fits: "frame_fits ?f"
    and rt: "result_types (signature ?f) = [] \<or> result_types (signature ?f) = [kI32]"
    by (auto simp: compilable_def)
  obtain code where pro: "generates (prologue T ?fr ?f) ?c0 m (?c0\<lparr>c_code := code\<rparr>) (entered ?f m)"
    using generates_prologue [OF i32 fits nargs] by blast
  let ?c1 = "?c0\<lparr>c_code := code\<rparr>"
  have rep: "represents ?c1 (entered ?f m) []"
    unfolding represents_def using holding_new [of T ?f]
    by (intro exI [of _ "[]"]) (simp add: holding_def)
  with entered_locals [OF i32 fits]
  have rep: "represented ?c1 (entered ?f m) ?S (?ls, [], enter_carry m ?S)"
    by (simp add: entered_def)
  have cap: "?D \<le> capacity (c_stack ?c1)"
    by (simp add: new_compiler_def new_runtime_stack_def)
  have len': "length args = length ?ls" using len by simp
  have fr: "i32_frame ?fr ?S (length ?ls)" using i32_frame_bytes [OF i32 fits] by simp
  have wide: "4 * int (length ?ls) + 4 \<le> ?S" if "0 < ?D"
    using i32_frame_room [OF i32 fits calling_convention.alignment [OF cc] room that]
    by (simp add: frame_bytes_def)
  from body_code [OF cov ex len' bounds(1) cap bounds(2) rep fr wide]
  obtain ls st cf c2 m2 new jump where
    run: "exec_on adder writer (body f) (?ls, [], enter_carry m ?S) = Some (ls, st, cf)" "length st = length st0'"
    and c2: "for_each (compile_op T ?fr) (body f) ?c1 = (Inr (), c2)"
      "c_code c2 = c_code ?c1 @ new @ jump" "list_all (plain T) new" "m2 = steps step new (entered ?f m)"
      "jump = [] \<or> jump = [t_jump_exit T]"
    and m2: "undisturbed (entered ?f m) m2" "represents c2 m2 st"
    by blast
  have "result_types (signature ?f) = [] \<or> result_types (signature ?f) = [kI32] \<and> st \<noteq> []"
    using rt res run(2) by auto
  from epilogue_code [OF m2(2) this] obtain fin c3 where
    epi: "epilogue T ?fr ?f c2 = (Inr (), c3)" "c_code c3 = c_code c2 @ t_bind_exit T # fin @ [t_return T]"
      "list_all (plain T) fin" and left: "left ?f m2 st (steps step fin m2)"
    by blast
  from pro have pro': "prologue T ?fr ?f ?c0 = (Inr (), ?c1)" "list_all (plain T) code"
    "entered ?f m = steps step code m"
    by (auto simp: generates_def new_compiler_def)
  have code: "compile_function T f = Inr ((code @ new) @ jump @ t_bind_exit T # fin @ [t_return T])"
    using epi(2) c2(2)
    by (simp add: compile_function_def Let_def seq_run_Inr pro'(1) c2(1) epi(1))
  have "list_all (plain T) (code @ new)" using pro'(2) c2(3) by simp
  note runs = run_exit [OF this epi(3) c2(5), of m]
  have "low (steps step fin m2) (hd (kGpRets (t_cc T))) = hd st" if "st \<noteq> []"
    using left that run(2) res by (auto simp: left_def)
  moreover have "abi_kept (t_cc T) m (steps step fin m2)"
    using left_abi_kept [OF left m2(1)] fr by (simp add: i32_frame_def all_locals_def)
  ultimately show ?thesis
    using code runs run c2(4) pro'(3)
    by (intro exI [of _ "(code @ new) @ jump @ t_bind_exit T # fin @ [t_return T]"]
        exI [of _ "steps step fin m2"] exI [of _ ls] exI [of _ st] exI [of _ cf]) simp
qed

end

section \<open>The two targets\<close>

lemma target_registers [simp]:
  "kSp x64_cc = 4" "hd (kGpRets x64_cc) = 0" "kSp arm64_cc = 31" "hd (kGpRets arm64_cc) = 0"
  "t_cc x64_target = x64_cc" "t_cc arm64_target = arm64_cc"
  by (simp_all add: x64_cc_def arm64_cc_def x64_target_def arm64_target_def)

lemma scast_low [simp]: "ucast (scast (v :: u32) :: u64) = v"
  by (rule bit_word_eqI) (simp add: bit_simps)

lemma add_low [simp]: "ucast (ucast (x :: u32) + ucast y :: u64) = x + y"
  by transfer (simp add: take_bit_add)

lemma leave_steps:
  "\<exists>c. x64_step (X_AddRsp n) m = m\<lparr>regs := (regs m)(4 := regs m 4 + of_int n), carry := c\<rparr>"
  "\<exists>c. arm64_step (A_AddSp n) m = m\<lparr>regs := (regs m)(31 := regs m 31 + of_int n), carry := c\<rparr>"
proof -
  show "\<exists>c. x64_step (X_AddRsp n) m = m\<lparr>regs := (regs m)(4 := regs m 4 + of_int n), carry := c\<rparr>"
    by (simp add: add_carry_def Let_def) blast
  show "\<exists>c. arm64_step (A_AddSp n) m = m\<lparr>regs := (regs m)(31 := regs m 31 + of_int n), carry := c\<rparr>"
    by (rule exI [of _ "carry m"]) simp
qed

text \<open>What a write of a local does: on x86-64 it stores the 64-bit register, so the next local is
  zero afterwards; on AArch64 it is a load, and nothing is written.\<close>

definition x64_writer :: local_writer where
  "x64_writer i v ls = ls[i := v, Suc i := 0]"

definition arm64_writer :: local_writer where
  "arm64_writer i v ls = ls"

lemma x64_written:
  assumes "regs m r = ucast (v :: u32)" and "words_at (regs m 4) S ls (mem m)" and "i < length ls"
    and "4 * int (length ls) + 4 \<le> S" and "S < 2 ^ 31"
  shows "local_written 4 S (x64_writer i v ls) r m (x64_step (X_Store (4 * int i - S) (R64 r)) m)"
proof -
  let ?a = "regs m 4"
  have "drop_bit 32 (ucast v :: u64) = 0"
    by (rule bit_word_eqI) (auto simp: bit_simps dest: bit_imp_le_length)
  moreover have "?a + of_int (4 * int i - S) + 4 = ?a + of_int (4 * int (Suc i) - S)" by simp
  ultimately have mem: "mem (x64_step (X_Store (4 * int i - S) (R64 r)) m) =
      store32 (?a + of_int (4 * int (Suc i) - S)) 0 (store32 (?a + of_int (4 * int i - S)) v (mem m))"
    using assms(1) by (simp add: sp_address_def store64_def add.assoc del: of_int_diff of_int_mult)
  have i: "4 * int i \<le> S" "4 * int (Suc i) \<le> S" "4 * int (length ls) \<le> S" using assms(3,4) by simp_all
  note one = words_at_store [OF assms(2) i(3) assms(5) i(1), of v]
  have len: "4 * int (length (ls[i := v])) \<le> S" using i(3) by simp
  note two = words_at_store [OF one len assms(5) i(2), of 0]
  have "4 * int i - S + 4 \<le> 0" "4 * int (Suc i) - S + 4 \<le> 0"
    "- (2 ^ 62) < 4 * int i - S" "- (2 ^ 62) < 4 * int (Suc i) - S"
    using assms(3-5) by simp_all
  then have "same_above ?a (mem m) (mem (x64_step (X_Store (4 * int i - S) (R64 r)) m))"
    unfolding mem by (intro same_above_simps(2) [OF same_above_store same_above_store])
  with two mem show ?thesis by (simp add: local_written_def x64_writer_def)
qed

lemma arm64_written:
  "words_at (regs m 31) S ls (mem m) \<Longrightarrow>
     local_written 31 S (arm64_writer i v ls) r m (arm64_step (A_Ldr (R64 r) off) m)"
  by (simp add: local_written_def arm64_writer_def)

interpretation x64: code_target x64_target x64_step add_carry x64_writer "\<lambda>m n. regs m 4 < of_int n"
proof (rule code_target.intro)
  show "calling_convention (t_cc x64_target)"
    by (simp add: x64_cc.calling_convention_axioms)
  show "\<exists>c. x64_step (t_leave x64_target n) m = m\<lparr>regs := (regs m)(kSp (t_cc x64_target) :=
      regs m (kSp (t_cc x64_target)) + of_int n), carry := c\<rparr>" for n m
    using leave_steps(1) by (simp add: x64_target_def)
  show "length (x64_writer i v ls) = length ls" for i v ls by (simp add: x64_writer_def)
  show "local_written (kSp (t_cc x64_target)) S (x64_writer i v ls) r m
      (x64_step (t_set_local x64_target (R64 r) (4 * int i - S)) m)"
    if "regs m r = ucast v" "words_at (regs m (kSp (t_cc x64_target))) S ls (mem m)" "i < length ls"
      "4 * int (length ls) + 4 \<le> S" "S < 2 ^ 31" for m r v S ls i
    using x64_written [of m r v S ls i] that by (simp add: x64_target_def)
qed (simp_all, simp_all add: x64_target_def plain_def Let_def split: prod.split)

interpretation arm64: code_target arm64_target arm64_step plain_adder arm64_writer "\<lambda>m n. carry m"
proof (rule code_target.intro)
  show "calling_convention (t_cc arm64_target)"
    by (simp add: arm64_cc.calling_convention_axioms)
  show "\<exists>c. arm64_step (t_leave arm64_target n) m = m\<lparr>regs := (regs m)(kSp (t_cc arm64_target) :=
      regs m (kSp (t_cc arm64_target)) + of_int n), carry := c\<rparr>" for n m
    using leave_steps(2) by (simp add: arm64_target_def)
  show "length (arm64_writer i v ls) = length ls" for i v ls by (simp add: arm64_writer_def)
  show "local_written (kSp (t_cc arm64_target)) S (arm64_writer i v ls) r m
      (arm64_step (t_set_local arm64_target (R64 r) (4 * int i - S)) m)"
    if "words_at (regs m (kSp (t_cc arm64_target))) S ls (mem m)" for m r v S ls i
    using arm64_written [of m S ls i v r "4 * int i - S"] that by (simp add: arm64_target_def)
qed (simp_all, simp_all add: arm64_target_def plain_def Let_def plain_adder_def split: prod.split)

end
