(* ===== verification/Compile_Properties.thy ===== *)
theory Compile_Properties
  imports Compile_Correct Parser_Properties
begin

text \<open>
  What the code generators get right and where they do not: the theorems about compiled functions
  as a caller sees them. The functions are those the parser returns (\<open>completed\<close>).
\<close>

section \<open>The metadata of a completed function\<close>

text \<open>Every instruction raises the maximum by at most one, so it cannot exceed the body's length
  and the conversion to \<open>uint32_t\<close> loses nothing.\<close>

definition one_higher :: "nat \<Rightarrow> validator \<Rightarrow> validator \<Rightarrow> bool" where
  "one_higher n v v' \<longleftrightarrow>
     max (length (v_underlying v')) (v_max_stack_size v') \<le>
     max (length (v_underlying v)) (v_max_stack_size v) + n"

interpretation not_higher: frame "one_higher 0"
  by unfold_locales (auto simp: one_higher_def)

lemma one_higher_trans: "one_higher n v v' \<Longrightarrow> one_higher k v' v'' \<Longrightarrow> one_higher (n + k) v v''"
  unfolding one_higher_def by linarith

lemma not_higher_pop: "keeps (one_higher 0) (pop t)"
  by (rule keepsI) (auto simp: one_higher_def pop_def pop_actual_def Let_def split: if_splits)

lemma not_higher_asserts: "keeps (one_higher 0) assert_empty" "keeps (one_higher 0) (assert_local i t)"
  by (rule keepsI; auto simp: one_higher_def assert_empty_def assert_local_def split: if_splits)+

lemma not_higher_pop_returns: "keeps (one_higher 0) pop_returns"
proof (rule keepsI)
  fix v r v' assume "pop_returns v = (r, v')"
  then show "one_higher 0 v v'"
    unfolding pop_returns_def by (rule keepsD [OF not_higher.keeps_for_each [OF not_higher_pop]])
qed

lemma one_higher_push: "keeps (one_higher 1) (push t)"
  by (rule keepsI) (auto simp: one_higher_def push_def Let_def)

lemma one_higher_weaken: "keeps (one_higher 0) m \<Longrightarrow> keeps (one_higher 1) m"
  by (auto simp: keeps_def one_higher_def intro: le_SucI)

lemma one_higher_seq:
  assumes "keeps (one_higher 0) m" and "\<And>x. keeps (one_higher n) (f x)"
  shows "keeps (one_higher n) (seq m f)"
proof (rule keepsI)
  fix v r v' assume run: "seq m f v = (r, v')"
  obtain r1 v1 where 1: "m v = (r1, v1)" by fastforce
  have low: "one_higher 0 v v1" using assms(1) 1 by (rule keepsD)
  show "one_higher n v v'"
  proof (cases r1)
    case (Inl e)
    with run 1 low show ?thesis by (auto simp: seq_run_Inl one_higher_def)
  next
    case (Inr x)
    with run 1 have "f x v1 = (r, v')" by (simp add: seq_run_Inr)
    from one_higher_trans [OF low keepsD [OF assms(2) this]] show ?thesis by simp
  qed
qed

lemma one_higher_op: "keeps (one_higher 1) (validate_op i)"
  by (cases i; simp only: validate_op.simps;
      intro one_higher_seq one_higher_push one_higher_weaken not_higher.keeps_seq not_higher.keeps_ret
        not_higher.keeps_modify not_higher_pop not_higher_asserts not_higher_pop_returns;
      simp add: one_higher_def)

lemma one_higher_finalize: "keeps (one_higher 0) finalize"
  unfolding finalize_def by (intro not_higher.keeps_seq not_higher_pop_returns not_higher_asserts)

lemma one_higher_validate: "validate is v = (Inr (), v') \<Longrightarrow> one_higher (length is) v v'"
proof (induction "is" arbitrary: v)
  case Nil
  then show ?case using keepsD [OF one_higher_finalize] by (simp add: validate_def)
next
  case (Cons i "is")
  then obtain x v1 where "validate_op i v = (Inr x, v1)" and "validate is v1 = (Inr (), v')"
    unfolding validate_Cons by blast
  with one_higher_trans [OF keepsD [OF one_higher_op] Cons.IH] show ?case by simp
qed

lemma completed_bounds:
  assumes "completed f" and "list_all straight (body f)"
    and "length (body f) < 2 ^ 32" and "length args = length (all_locals (meta f))"
  shows "\<exists>ls st. exec (body f) (args, []) = Some (ls, st) \<and>
    length st = length (result_types (signature (meta f))) \<and>
    peak (body f) (args, []) \<le> unat (max_stack_elements (meta f)) \<and>
    unat (max_stack_elements (meta f)) \<le> length (body f) \<and>
    (Return \<notin> set (butlast (body f)) \<and> unat (max_stack_elements (meta f)) < 2 ^ 30 \<longrightarrow>
       unat (max_stack_size_bytes (meta f)) = 4 * unat (max_stack_elements (meta f)))"
proof -
  obtain v where v: "validate (body f) (new_validator (signature (meta f)) (locals (meta f))) = (Inr (), v)"
    and m: "max_stack_elements (meta f) = of_nat (maximum_stack_elements v)"
      "max_stack_size_bytes (meta f) = ucast (maximum_stack_size_bytes v)"
    using assms(1) by (auto simp: completed_def)
  have max: "v_max_stack_size v \<le> length (body f)"
    using one_higher_validate [OF v] by (simp add: one_higher_def new_validator_def)
  with assms(3) have el: "unat (max_stack_elements (meta f)) = v_max_stack_size v"
    unfolding m maximum_stack_elements_def by simp
  have "unat (max_stack_size_bytes (meta f)) = 4 * v_max_stack_size v"
    if "unat (v_max_memory_usage v) = 4 * v_max_stack_size v" "v_max_stack_size v < 2 ^ 30"
    using that unfolding m maximum_stack_size_bytes_def by (simp add: unsigned_ucast_eq take_bit_nat_eq_self)
  with validate_exec_new [OF v assms(2), of args] assms(3,4) max el show ?thesis
    by (fastforce simp: all_locals_def)
qed

lemma covered_straight: "covered_body b \<Longrightarrow> list_all straight b"
proof -
  have one: "covered i \<Longrightarrow> straight i" for i by (cases i) auto
  assume "covered_body b"
  then show ?thesis
    unfolding covered_body_def
    by (cases b rule: rev_cases) (auto simp: list_all_iff one)
qed

lemma covered_return_last: "covered_body b \<Longrightarrow> Return \<notin> set (butlast b)"
proof -
  have "list_all covered b \<Longrightarrow> Return \<notin> set b" for b by (auto simp: list_all_iff)
  moreover assume "covered_body b"
  ultimately show ?thesis unfolding covered_body_def by (metis in_set_butlastD)
qed

text \<open>Bodies that only read their locals.\<close>

fun reads_only :: "instruction \<Rightarrow> bool" where
  "reads_only (SetLocalI32 _) = False"
| "reads_only _ = True"

lemma exec_reads_only: "list_all reads_only is \<Longrightarrow> exec is (ls, st) = Some (ls', st') \<Longrightarrow> ls' = ls"
proof (induction "is" arbitrary: st)
  case (Cons i "is")
  show ?case
  proof (cases "i = Return")
    case False
    with Cons.prems obtain ls1 st1 where "exec_instr i (ls, st) = Some (ls1, st1)" "exec is (ls1, st1) = Some (ls', st')"
      by (auto simp: bind_eq_Some_conv)
    moreover have "ls1 = ls" using calculation(1) Cons.prems(1)
      by (cases "(i, (ls, st))" rule: exec_instr.cases) (auto split: if_splits)
    ultimately show ?thesis using Cons by auto
  qed (use Cons.prems in auto)
qed simp

lemma exec_on_reads_only:
  "list_all reads_only is \<Longrightarrow> exec_on adder wr is s = exec_on adder wr' is s"
  by (induction adder wr "is" s rule: exec_on.induct) (auto split: prod.split)

section \<open>Sample functions\<close>

definition i32_function :: "nat \<Rightarrow> val_type list \<Rightarrow> nat \<Rightarrow> instruction list \<Rightarrow> wasm_function" where
  "i32_function params ls n b =
     \<lparr>meta = \<lparr>signature = \<lparr>parameter_types = replicate params kI32, result_types = [kI32]\<rparr>, locals = ls,
              max_stack_size_bytes = of_nat (4 * n), max_stack_elements = of_nat n\<rparr>, body = b\<rparr>"

lemma completed_i32_function:
  assumes "abs_validate (replicate k kI32 @ ls) [kI32] b (False, []) \<noteq> None"
    and "list_all straight b" and "Return \<notin> set (butlast b)" and "length b < 2 ^ 30"
    and "peak b (replicate (k + length ls) 0, []) = n"
    and "k \<le> 6" and "length ls \<le> 256" and "list_all scalar ls"
  shows "completed (i32_function k ls n b)"
proof -
  let ?ft = "\<lparr>parameter_types = replicate k kI32, result_types = [kI32]\<rparr>"
  obtain v where v: "validate b (new_validator ?ft ls) = (Inr (), v)"
    by (rule validate_accepts [of ?ft ls b]) (use assms(1) in simp_all)
  have len: "length (replicate (k + length ls) (0 :: u32)) = length (parameter_types ?ft @ ls)" by simp
  from validate_exec_new [OF v assms(2) len] assms(3-5)
  have max: "v_max_stack_size v = n" "unat (v_max_memory_usage v) = 4 * n"
    by (auto simp: new_validator_def)
  from max(2) have "v_max_memory_usage v = of_nat (4 * n)"
    by (metis of_nat_unat ucast_id)
  moreover have "n \<le> length b" using one_higher_validate [OF v] max(1) by (simp add: one_higher_def new_validator_def)
  then have "(ucast (of_nat (4 * n) :: u64) :: u32) = of_nat (4 * n)"
    using assms(4) unat_of_nat_u64 [of "4 * n"] unat_of_nat_u32 [of "4 * n"]
    by (intro unsigned_word_eqI [where 'a = nat])
      (simp add: unsigned_ucast_eq take_bit_nat_eq_self del: of_nat_mult)
  ultimately show ?thesis
    using v max(1) assms(6-8)
    by (auto simp: completed_def i32_function_def signature_ok_def scalar_def max_defs maximum_stack_elements_def
        maximum_stack_size_bytes_def list_all_iff intro!: exI [of _ v])
qed

text \<open>A machine that is about to call a function with the given registers.\<close>

definition calling :: "(nat \<times> u64) list \<Rightarrow> machine" where
  "calling rs = \<lparr>regs = (\<lambda>r. case map_of rs r of Some v \<Rightarrow> v | None \<Rightarrow> 0), mem = (\<lambda>_. 0), carry = False\<rparr>"

text \<open>The value in the result register after a call of the compiled function.\<close>

definition result_of :: "'i target \<Rightarrow> ('i \<Rightarrow> machine \<Rightarrow> machine) \<Rightarrow> wasm_function \<Rightarrow> machine \<Rightarrow> u32 option" where
  "result_of T step f m = (case compile_function T f of
     Inl e \<Rightarrow> None
   | Inr code \<Rightarrow> map_option (\<lambda>m'. low m' 0) (run_code T step code m))"

section \<open>Calls\<close>

text \<open>The machine at the entry of a call: the arguments are in the argument registers.\<close>

definition called_with :: "call_convention \<Rightarrow> wasm_function \<Rightarrow> u32 list \<Rightarrow> machine \<Rightarrow> bool" where
  "called_with cc f args m \<longleftrightarrow> length args = length (parameter_types (signature (meta f))) \<and>
     (\<forall>i < length args. low m (kGpArgs cc ! i) = args ! i)"

text \<open>A function whose operand stack fits into the caller-saved registers; and one that moreover has
  no declared locals and does not write its parameters.\<close>

definition fits_registers :: "call_convention \<Rightarrow> wasm_function \<Rightarrow> bool" where
  "fits_registers cc f \<longleftrightarrow> compilable cc f \<and> length (body f) < 2 ^ 32 \<and>
     unat (max_stack_elements (meta f)) \<le> length (caller_saved cc)"

definition in_registers :: "call_convention \<Rightarrow> wasm_function \<Rightarrow> bool" where
  "in_registers cc f \<longleftrightarrow> fits_registers cc f \<and> locals (meta f) = [] \<and> list_all reads_only (body f)"

lemma initial_locals_args:
  "called_with cc f args m \<Longrightarrow> locals (meta f) = [] \<Longrightarrow> initial_locals cc (meta f) m = args"
proof -
  assume call: "called_with cc f args m" and none: "locals (meta f) = []"
  have "initial_locals cc (meta f) m =
      map (\<lambda>i. low m (kGpArgs cc ! i)) [0..<length (parameter_types (signature (meta f)))]"
    by (simp add: initial_locals_def all_locals_def none)
  also have "\<dots> = args"
    by (rule nth_equalityI) (use call in \<open>simp_all add: called_with_def\<close>)
  finally show ?thesis .
qed

lemma caller_saved_length: "length (caller_saved cc) \<le> 32"
proof -
  have "length (caller_saved cc) \<le> length [0..<32 :: nat]"
    unfolding mask_regs_filter by (rule length_filter_le)
  then show ?thesis by simp
qed

text \<open>What both targets share: the code computes the body as the target executes it.\<close>

context code_target
begin

lemma completed_runs:
  assumes f: "completed f" and reg: "fits_registers (t_cc T) f"
  shows "\<exists>code m' ls st cf. compile_function T f = Inr code \<and> run_code T step code m = Some m' \<and>
    exec_on adder writer (body f)
      (initial_locals (t_cc T) (meta f) m, [], enter_carry m (frame_size (t_cc T) (meta f))) = Some (ls, st, cf) \<and>
    length st = length (result_types (signature (meta f))) \<and>
    (result_types (signature (meta f)) \<noteq> [] \<longrightarrow> st = [low m' (hd (kGpRets (t_cc T)))]) \<and>
    abi_kept (t_cc T) m m'"
proof -
  let ?args = "initial_locals (t_cc T) (meta f) m"
  have c: "compilable (t_cc T) f" and len: "length (body f) < 2 ^ 32"
    and D: "unat (max_stack_elements (meta f)) \<le> length (caller_saved (t_cc T))"
    using reg by (simp_all add: fits_registers_def)
  then have cov: "covered_body (body f)" by (simp add: compilable_def)
  from completed_bounds [OF f covered_straight [OF cov] len length_initial_locals]
  obtain ls st where ex: "exec (body f) (?args, []) = Some (ls, st)"
    and st: "length st = length (result_types (signature (meta f)))"
    and peak: "peak (body f) (?args, []) \<le> unat (max_stack_elements (meta f))"
    and bytes: "Return \<notin> set (butlast (body f)) \<and> unat (max_stack_elements (meta f)) < 2 ^ 30 \<longrightarrow>
       unat (max_stack_size_bytes (meta f)) = 4 * unat (max_stack_elements (meta f))" by blast
  have "room_to_write (meta f)"
    using bytes D caller_saved_length [of "t_cc T"] covered_return_last [OF cov] by (simp add: room_to_write_def)
  from function_runs [OF c ex length_initial_locals peak D this st, of m]
  obtain code m' ls' st' cf where run: "compile_function T f = Inr code" "run_code T step code m = Some m'"
    "exec_on adder writer (body f) (?args, [], enter_carry m (frame_bytes (meta f))) = Some (ls', st', cf)"
    "length st' = length st" "st' \<noteq> [] \<longrightarrow> low m' (hd (kGpRets (t_cc T))) = hd st'" "abi_kept (t_cc T) m m'"
    by blast
  have "result_types (signature (meta f)) \<noteq> [] \<Longrightarrow> length st' = 1"
    using c st run(4) by (auto simp: compilable_def)
  then have "result_types (signature (meta f)) \<noteq> [] \<longrightarrow> st' = [low m' (hd (kGpRets (t_cc T)))]"
    using run(5) by (auto simp: length_Suc_conv)
  with run st show ?thesis unfolding frame_bytes_def by metis
qed

end

lemma register_counts:
  "length (caller_saved arm64_cc) = 15" "length (caller_saved x64_cc) = 9"
  "length (kGpArgs arm64_cc) = 8" "length (kGpArgs x64_cc) = 6"
  by code_simp+

text \<open>A function that writes its first parameter and returns its second.\<close>

definition set_first :: wasm_function where
  "set_first = i32_function 2 [] 1 [ConstI32 (value_U32 5), SetLocalI32 0, GetLocalI32 1]"

lemma replicate_two: "replicate 2 x = [x, x]"
  by (simp add: numeral_2_eq_2)

lemma completed_set_first: "completed set_first"
  unfolding set_first_def
  by (rule completed_i32_function) (simp_all add: abs_validate_def abs_empty_def replicate_two max_def)

lemma set_first_fits: "fits_registers arm64_cc set_first" "fits_registers x64_cc set_first"
  by (simp_all add: fits_registers_def compilable_def covered_body_def frame_fits_def all_locals_def
      set_first_def i32_function_def register_counts replicate_two)

lemma set_first_called:
  "called_with arm64_cc set_first [7, 9] (calling [(0, 7), (1, 9), (31, 0x1000)])"
  "called_with x64_cc set_first [7, 9] (calling [(7, 7), (6, 9), (4, 0x1000)])"
  by (auto simp: called_with_def set_first_def i32_function_def calling_def low_def arm64_cc_def x64_cc_def less_Suc_eq)

text \<open>C12: what compiled code does on AArch64. For a parsed function made of constants, additions and
  accesses of locals, with at most fifteen values on its operand stack, compilation succeeds, the
  code returns, and its result is that of the body executed with the additions of WebAssembly, on
  the arguments and, for the declared locals, whatever the memory holds below the stack pointer,
  where a write of a local leaves the locals as they are. Registers and memory of the caller are kept.\<close>

theorem arm64_code_exact:
  assumes "completed f" and "fits_registers arm64_cc f"
  shows "\<exists>code m' ls st cf. compile_function arm64_target f = Inr code \<and>
    run_code arm64_target arm64_step code m = Some m' \<and>
    exec_on plain_adder arm64_writer (body f) (initial_locals arm64_cc (meta f) m, [], carry m) =
      Some (ls, st, cf) \<and>
    (result_types (signature (meta f)) \<noteq> [] \<longrightarrow> st = [low m' 0]) \<and> abi_kept arm64_cc m m'"
  using arm64.completed_runs [of f m, unfolded target_registers, OF assms] by blast

theorem arm64_code_exact_witness:
  "\<exists>code m'. compile_function arm64_target set_first = Inr code \<and>
     run_code arm64_target arm64_step code (calling [(0, 7), (1, 9), (31, 0x1000)]) = Some m' \<and> low m' 0 = 9"
proof -
  let ?m = "calling [(0, 7), (1, 9), (31, 0x1000)]"
  have init: "initial_locals arm64_cc (meta set_first) ?m = [7, 9]"
    by (rule initial_locals_args [OF set_first_called(1)]) (simp add: set_first_def i32_function_def)
  from arm64_code_exact [OF completed_set_first set_first_fits(1), of ?m, unfolded init] show ?thesis
    unfolding set_first_def i32_function_def by (auto simp: arm64_writer_def)
qed

text \<open>C13: what compiled code does on x86-64, with at most nine values on the operand stack: as on
  AArch64, but every addition also adds the carry that the one before left (the first, that of
  the prologue's subtraction), and a write of a local also makes the local after it zero.\<close>

theorem x64_code_exact:
  assumes "completed f" and "fits_registers x64_cc f"
  shows "\<exists>code m' ls st cf. compile_function x64_target f = Inr code \<and>
    run_code x64_target x64_step code m = Some m' \<and>
    exec_on add_carry x64_writer (body f)
      (initial_locals x64_cc (meta f) m, [], regs m 4 < of_int (frame_size x64_cc (meta f))) =
      Some (ls, st, cf) \<and>
    (result_types (signature (meta f)) \<noteq> [] \<longrightarrow> st = [low m' 0]) \<and> abi_kept x64_cc m m'"
  using x64.completed_runs [of f m, unfolded target_registers, OF assms] by blast

theorem x64_code_exact_witness:
  "\<exists>code m'. compile_function x64_target set_first = Inr code \<and>
     run_code x64_target x64_step code (calling [(7, 7), (6, 9), (4, 0x1000)]) = Some m' \<and> low m' 0 = 0"
proof -
  let ?m = "calling [(7, 7), (6, 9), (4, 0x1000)]"
  have init: "initial_locals x64_cc (meta set_first) ?m = [7, 9]"
    by (rule initial_locals_args [OF set_first_called(2)]) (simp add: set_first_def i32_function_def)
  from x64_code_exact [OF completed_set_first set_first_fits(2), of ?m, unfolded init] show ?thesis
    unfolding set_first_def i32_function_def by (auto simp: x64_writer_def)
qed

section \<open>Correct code\<close>

lemma in_registers_exec:
  assumes f: "completed f" and reg: "in_registers cc f" and call: "called_with cc f args m"
  obtains b st where "list_all covered b" and "list_all reads_only b" and "body f = b \<or> body f = b @ [Return]"
    and "exec b (args, []) = Some (args, st)" and "exec (body f) (args, []) = Some (args, st)"
    and "\<And>adder wr s. exec_on adder wr (body f) s = exec_on adder wr b s"
    and "initial_locals cc (meta f) m = args" and "fits_registers cc f"
proof -
  have fits: "fits_registers cc f" and loc: "locals (meta f) = []" and ro: "list_all reads_only (body f)"
    using reg by (simp_all add: in_registers_def)
  then have cov: "covered_body (body f)" and len: "length (body f) < 2 ^ 32"
    by (simp_all add: fits_registers_def compilable_def)
  have "length args = length (all_locals (meta f))" using call loc by (simp add: called_with_def all_locals_def)
  from completed_bounds [OF f covered_straight [OF cov] len this]
  obtain ls st where ex: "exec (body f) (args, []) = Some (ls, st)" by blast
  with exec_reads_only [OF ro] have ex: "exec (body f) (args, []) = Some (args, st)" by blast
  obtain b where b: "list_all covered b" "body f = b \<or> body f = b @ [Return]"
    using cov by (rule covered_bodyE)
  moreover have "list_all reads_only b" using ro b(2) by auto
  moreover have "exec b (args, []) = Some (args, st)" using b ex by (auto simp: exec_snoc_Return)
  moreover have "exec_on adder wr (body f) s = exec_on adder wr b s" for adder wr s
    using b by (auto simp: exec_on_snoc_Return)
  ultimately show thesis using that ex fits initial_locals_args [OF call loc] by blast
qed

lemma arm64_function_correct:
  assumes "completed f" and "in_registers arm64_cc f" and "called_with arm64_cc f args m"
  shows "\<exists>code m' st. compile_function arm64_target f = Inr code \<and>
    run_code arm64_target arm64_step code m = Some m' \<and>
    exec (body f) (args, []) = Some (args, st) \<and>
    (result_types (signature (meta f)) \<noteq> [] \<longrightarrow> st = [low m' 0]) \<and> abi_kept arm64_cc m m'"
proof -
  obtain b st where b: "list_all covered b" "exec b (args, []) = Some (args, st)"
    "exec (body f) (args, []) = Some (args, st)" and ro: "list_all reads_only b"
    and on: "\<And>adder wr s. exec_on adder wr (body f) s = exec_on adder wr b s"
    and init: "initial_locals arm64_cc (meta f) m = args" and fits: "fits_registers arm64_cc f"
    using in_registers_exec [OF assms] by metis
  have "exec_on plain_adder arm64_writer b (args, [], carry m) = Some (args, st, carry m)"
    using exec_on_plain [OF b(1,2)] exec_on_reads_only [OF ro] by metis
  with arm64.completed_runs [of f m, unfolded target_registers, OF assms(1) fits] b(3) show ?thesis
    by (auto simp: init on)
qed

text \<open>On AArch64 compiled code is correct. For a parsed function made of constants, additions
  and reads of parameters, without declared locals and with an operand stack of at most fifteen
  values, the code generator succeeds, the code returns, and the result register holds the value
  that WebAssembly gives the body on the arguments; every callee-saved register, the stack pointer
  and the caller's stack are as before the call.\<close>

theorem arm64_code_correct:
  assumes "completed f" and "in_registers arm64_cc f" and "called_with arm64_cc f args m"
  shows "\<exists>code m' st. compile_function arm64_target f = Inr code \<and>
    run_code arm64_target arm64_step code m = Some m' \<and>
    exec (body f) (args, []) = Some (args, st) \<and>
    (result_types (signature (meta f)) \<noteq> [] \<longrightarrow> st = [low m' 0]) \<and> abi_kept arm64_cc m m'"
  using assms by (rule arm64_function_correct)

lemma completed_add_seven: "completed add_seven"
  using parsed_function [OF parse_add_seven, of add_seven]
  by (auto simp: module_functions_add_seven declared_def new_function_def add_seven_def)

lemma add_seven_in_registers: "in_registers arm64_cc add_seven" "in_registers x64_cc add_seven"
  by (simp_all add: in_registers_def fits_registers_def compilable_def covered_body_def frame_fits_def all_locals_def
      add_seven_def register_counts)

lemma add_seven_called:
  "called_with arm64_cc add_seven [35] (calling [(0, 35), (31, 0x1000)])"
  "called_with x64_cc add_seven [35] (calling [(7, 35), (4, 0x1000)])"
  by (simp_all add: called_with_def add_seven_def calling_def low_def arm64_cc_def x64_cc_def)

theorem arm64_code_correct_witness:
  "\<exists>code m'. compile_function arm64_target add_seven = Inr code \<and>
     run_code arm64_target arm64_step code (calling [(0, 35), (31, 0x1000)]) = Some m' \<and> low m' 0 = 42"
  using arm64_code_correct [OF completed_add_seven add_seven_in_registers(1) add_seven_called(1)]
  by (auto simp: add_seven_def as_U32_seven)

section \<open>x86-64: additions take the carry flag with them\<close>

text \<open>No addition overflows, except possibly the last one.\<close>

fun no_carry :: "instruction list \<Rightarrow> u32 list \<Rightarrow> u32 list \<Rightarrow> bool" where
  "no_carry (ConstI32 v # is) ls st = no_carry is ls (as_U32 v # st)"
| "no_carry (GetLocalI32 i # is) ls st = no_carry is ls (ls ! i # st)"
| "no_carry (AddI32 # is) ls (b # a # st) =
     ((AddI32 \<notin> set is \<or> unat a + unat b < 2 ^ 32) \<and> no_carry is ls ((a + b) # st))"
| "no_carry _ ls st = True"

lemma add_carry_False: "add_carry a (b :: u32) False = (a + b, 2 ^ 32 \<le> unat a + unat b)"
  by (simp add: add_carry_def Let_def)

lemma exec_on_no_add:
  "list_all covered is \<Longrightarrow> list_all reads_only is \<Longrightarrow> AddI32 \<notin> set is \<Longrightarrow> exec is (ls, st) = Some (ls', st') \<Longrightarrow>
     exec_on adder wr is (ls, st, c) = Some (ls', st', c)"
  by (induction adder wr "is" "(ls, st, c)" arbitrary: st rule: exec_on.induct) (auto split: if_splits)

lemma exec_on_no_carry:
  "list_all covered is \<Longrightarrow> list_all reads_only is \<Longrightarrow> exec is (ls, st) = Some (ls', st') \<Longrightarrow> no_carry is ls st \<Longrightarrow>
     \<exists>cf. exec_on add_carry wr is (ls, st, False) = Some (ls', st', cf)"
proof (induction "is" ls st rule: no_carry.induct)
  case (3 "is" ls b a st)
  then have ex: "exec is (ls, (a + b) # st) = Some (ls', st')" by simp
  show ?case
  proof (cases "unat a + unat b < 2 ^ 32")
    case True
    with 3 show ?thesis by (simp add: add_carry_False)
  next
    case False
    with 3 exec_on_no_add [OF _ _ _ ex] show ?thesis by (auto simp: add_carry_False)
  qed
qed (auto split: if_splits)

lemma no_carry_snoc_Return: "list_all covered is \<Longrightarrow> no_carry (is @ [Return]) ls st = no_carry is ls st"
  by (induction "is" ls st rule: no_carry.induct) auto

lemma x64_function_correct:
  assumes "completed f" and "in_registers x64_cc f" and "called_with x64_cc f args m"
    and "of_int (frame_size x64_cc (meta f)) \<le> regs m 4" and "no_carry (body f) args []"
  shows "\<exists>code m' st. compile_function x64_target f = Inr code \<and>
    run_code x64_target x64_step code m = Some m' \<and>
    exec (body f) (args, []) = Some (args, st) \<and>
    (result_types (signature (meta f)) \<noteq> [] \<longrightarrow> st = [low m' 0]) \<and> abi_kept x64_cc m m'"
proof -
  obtain b st where b: "list_all covered b" "exec b (args, []) = Some (args, st)"
    "exec (body f) (args, []) = Some (args, st)" and ro: "list_all reads_only b"
    and body: "body f = b \<or> body f = b @ [Return]"
    and on: "\<And>adder wr s. exec_on adder wr (body f) s = exec_on adder wr b s"
    and init: "initial_locals x64_cc (meta f) m = args" and fits: "fits_registers x64_cc f"
    using in_registers_exec [OF assms(1-3)] by metis
  have "no_carry b args []" using assms(5) b(1) body by (auto simp: no_carry_snoc_Return)
  from exec_on_no_carry [OF b(1) ro b(2) this] obtain cf where
    "exec_on add_carry x64_writer b (args, [], False) = Some (args, st, cf)" by blast
  moreover have "\<not> regs m 4 < of_int (frame_size x64_cc (meta f))" using assms(4) by (simp add: not_less)
  ultimately show ?thesis
    using x64.completed_runs [of f m, unfolded target_registers, OF assms(1) fits] b(3) by (auto simp: init on)
qed

text \<open>On x86-64 compiled code is correct as long as no addition but the last overflows (and the
  frame does not wrap around the address space): under the hypotheses of the AArch64 theorem the
  code returns with the value that WebAssembly gives the body, and keeps the calling convention.\<close>

theorem x64_code_correct:
  assumes "completed f" and "in_registers x64_cc f" and "called_with x64_cc f args m"
    and "of_int (frame_size x64_cc (meta f)) \<le> regs m 4" and "no_carry (body f) args []"
  shows "\<exists>code m' st. compile_function x64_target f = Inr code \<and>
    run_code x64_target x64_step code m = Some m' \<and>
    exec (body f) (args, []) = Some (args, st) \<and>
    (result_types (signature (meta f)) \<noteq> [] \<longrightarrow> st = [low m' 0]) \<and> abi_kept x64_cc m m'"
  using assms by (rule x64_function_correct)

theorem x64_code_correct_witness:
  "\<exists>code m'. compile_function x64_target add_seven = Inr code \<and>
     run_code x64_target x64_step code (calling [(7, 35), (4, 0x1000)]) = Some m' \<and> low m' 0 = 42"
proof -
  let ?m = "calling [(7, 35), (4, 0x1000)]"
  have "frame_size x64_cc (meta add_seven) = 16" by code_simp
  then have "of_int (frame_size x64_cc (meta add_seven)) \<le> regs ?m 4" by (simp add: calling_def)
  moreover have "no_carry (body add_seven) [35] []" by (simp add: add_seven_def)
  ultimately show ?thesis
    using x64_code_correct [OF completed_add_seven add_seven_in_registers(2) add_seven_called(2)]
    by (auto simp: add_seven_def as_U32_seven)
qed

section \<open>What the code generators get wrong\<close>

lemmas run_simps = calling_def x64_target_def arm64_target_def low_def sp_address_def store32_def
  load32_def store64_def load64_def add_carry_def Let_def

text \<open>\<open>AddI32\<close> is emitted as \<open>adc\<close> on x86-64, so the carry of one addition goes into the
  next: the function that sums its three parameters returns 1 for 0xFFFFFFFF, 1 and 0, where
  WebAssembly says 0.\<close>

theorem x64_carry_error:
  "let f = i32_function 3 [] 2 [GetLocalI32 0, GetLocalI32 1, AddI32, GetLocalI32 2, AddI32];
       m = calling [(7, 0xFFFFFFFF), (6, 1), (2, 0), (4, 0x1000)]
   in called_with x64_cc f [0xFFFFFFFF, 1, 0] m \<and>
      result_of x64_target x64_step f m = Some 1 \<and>
      exec (body f) ([0xFFFFFFFF, 1, 0], []) = Some ([0xFFFFFFFF, 1, 0], [0])"
proof -
  have "called_with x64_cc (i32_function 3 [] 2 b) [0xFFFFFFFF, 1, 0]
      (calling [(7, 0xFFFFFFFF), (6, 1), (2, 0), (4, 0x1000)])" for b
    by (auto simp: called_with_def i32_function_def calling_def low_def x64_cc_def less_Suc_eq numeral_3_eq_3)
  moreover have code: "compile_function x64_target
      (i32_function 3 [] 2 [GetLocalI32 0, GetLocalI32 1, AddI32, GetLocalI32 2, AddI32]) =
    Inr [X_SubRsp 32, X_Store (-32) (R32 7), X_Store (-28) (R32 6), X_Store (-24) (R32 2),
      X_Load (R32 0) (-32), X_Load (R32 1) (-28), X_Adc (R32 0) (R32 1),
      X_Load (R32 1) (-24), X_Adc (R32 0) (R32 1), X_Bind, X_AddRsp 32, X_Ret]"
    by code_simp
  have "result_of x64_target x64_step
      (i32_function 3 [] 2 [GetLocalI32 0, GetLocalI32 1, AddI32, GetLocalI32 2, AddI32])
      (calling [(7, 0xFFFFFFFF), (6, 1), (2, 0), (4, 0x1000)]) = Some 1"
    unfolding result_of_def code by (simp add: run_simps)
  moreover have "exec (body (i32_function 3 [] 2
      [GetLocalI32 0, GetLocalI32 1, AddI32, GetLocalI32 2, AddI32])) ([0xFFFFFFFF, 1, 0], []) =
    Some ([0xFFFFFFFF, 1, 0], [0])"
    by (simp add: i32_function_def)
  ultimately show ?thesis unfolding Let_def by blast
qed

text \<open>\<open>SetLocalI32\<close> is wrong on both targets. On AArch64 it loads where it should store: the
  function that sets its parameter to 5 and returns it returns the old value. On x86-64 it stores
  eight bytes: the function that sets its first parameter to 5 and returns the second returns 0.\<close>

theorem set_local_errors:
  "(let f = i32_function 1 [] 1 [ConstI32 (value_U32 5), SetLocalI32 0, GetLocalI32 0]
    in exec (body f) ([7], []) = Some ([5], [5]) \<and>
       result_of arm64_target arm64_step f (calling [(0, 7), (31, 0x1000)]) = Some 7) \<and>
   (let f = i32_function 2 [] 1 [ConstI32 (value_U32 5), SetLocalI32 0, GetLocalI32 1]
    in exec (body f) ([7, 9], []) = Some ([5, 9], [9]) \<and>
       result_of x64_target x64_step f (calling [(7, 7), (6, 9), (4, 0x1000)]) = Some 0)"
proof -
  have arm64: "compile_function arm64_target
      (i32_function 1 [] 1 [ConstI32 (value_U32 5), SetLocalI32 0, GetLocalI32 0]) =
    Inr [A_SubSp 16, A_Str (R32 0) (-16), A_Ldr (R32 0) 4, A_MovImm (R32 0) 5, A_Ldr (R64 0) (-16),
      A_Ldr (R32 0) (-16), A_Bind, A_AddSp 16, A_Ret (R64 30)]"
    by code_simp
  have x64: "compile_function x64_target
      (i32_function 2 [] 1 [ConstI32 (value_U32 5), SetLocalI32 0, GetLocalI32 1]) =
    Inr [X_SubRsp 16, X_Store (-16) (R32 7), X_Store (-12) (R32 6), X_Load (R32 0) 4,
      X_MovImm (R32 0) 5, X_Store (-16) (R64 0), X_Load (R32 0) (-12), X_Bind, X_AddRsp 16, X_Ret]"
    by code_simp
  have "result_of arm64_target arm64_step
      (i32_function 1 [] 1 [ConstI32 (value_U32 5), SetLocalI32 0, GetLocalI32 0])
      (calling [(0, 7), (31, 0x1000)]) = Some 7"
    unfolding result_of_def arm64 by (simp add: run_simps)
  moreover have "result_of x64_target x64_step
      (i32_function 2 [] 1 [ConstI32 (value_U32 5), SetLocalI32 0, GetLocalI32 1])
      (calling [(7, 7), (6, 9), (4, 0x1000)]) = Some 0"
    unfolding result_of_def x64 by (simp add: run_simps)
  ultimately show ?thesis
    by (simp add: Let_def i32_function_def as_U32_def value_U32_def)
qed

text \<open>The spill loop from any register on.\<close>

lemma spill_values_regs:
  "map reg vs = map Some qs \<Longrightarrow>
     spill_values T r vs =
       (if vs = [] then r else Some (last qs),
        map2 (\<lambda>v r. v\<lparr>reg := r\<rparr>) vs (r # map Some (butlast qs)),
        map2 (\<lambda>v q. t_spill T (cast q (rv_type v)) (stack_pointer v)) vs qs)"
proof (induction vs arbitrary: qs r)
  case (Cons v vs)
  then obtain q qs' where qs: "qs = q # qs'" and v: "reg v = Some q" and "map reg vs = map Some qs'"
    by (cases qs) auto
  from Cons.IH [OF this(3), of "Some q"] this(3) show ?case
    by (cases vs; cases qs') (auto simp: qs v)
qed simp



text \<open>The prologue stores parameters only. A declared local, which WebAssembly starts at zero,
  is whatever is in memory below the stack pointer: the function that returns its only declared
  local returns those four bytes.\<close>

theorem declared_local_not_zeroed:
  "result_of x64_target x64_step (i32_function 0 [kI32] 1 [GetLocalI32 0]) m =
     Some (load32 (mem m) (regs m 4 - 32))"
proof -
  have code: "compile_function x64_target (i32_function 0 [kI32] 1 [GetLocalI32 0]) =
    Inr [X_SubRsp 16, X_Load (R32 0) (-16), X_Bind, X_AddRsp 16, X_Ret]"
    by code_simp
  show ?thesis unfolding result_of_def code
    by (simp add: x64_target_def low_def sp_address_def add_carry_def Let_def)
qed

end
