(* ===== verification/Compile_Total.thy ===== *)
theory Compile_Total
  imports Compile_Properties "HOL-Library.Multiset"
begin

text \<open>
  When the code generators go wrong at compile time. The compile-time stack is an array without
  bounds checks, registers are taken from a tracker and given back, and the spill loop moves
  registers between the values of the stack: the invariant \<open>tracked\<close> says that none of this
  runs out of bounds or loses a register. It holds for accepted straight bodies at any depth,
  whatever is spilled, as long as no instruction follows a \<open>Return\<close>.
\<close>

section \<open>Registers that are accounted for\<close>

definition stack_regs :: "runtime_value list \<Rightarrow> gp list" where
  "stack_regs vs = List.map_filter reg vs"

lemma stack_regs_simps [simp]:
  "stack_regs [] = []" "stack_regs (v # vs) = (case reg v of None \<Rightarrow> [] | Some q \<Rightarrow> [q]) @ stack_regs vs"
  "stack_regs (vs @ ws) = stack_regs vs @ stack_regs ws"
  by (simp_all add: stack_regs_def map_filter_def split: option.split)

text \<open>The registers \<open>qs\<close> are all different, and they are the taken ones.\<close>

definition accounts :: "gp list \<Rightarrow> nat set \<Rightarrow> bool" where
  "accounts qs U \<longleftrightarrow> distinct qs \<and> set qs = R64 ` U"

lemma accounts_take: "accounts (qs @ held) U \<Longrightarrow> r \<notin> U \<Longrightarrow> accounts (qs @ R64 r # held) (insert r U)"
proof -
  assume a: "accounts (qs @ held) U" and "r \<notin> U"
  have "set qs \<union> set held = R64 ` U" using a by (simp add: accounts_def)
  moreover have "R64 r \<notin> R64 ` U" using \<open>r \<notin> U\<close> by blast
  ultimately have "R64 r \<notin> set qs" "R64 r \<notin> set held" by blast+
  with a show ?thesis unfolding accounts_def by auto
qed

lemma accounts_free: "accounts (qs @ R64 r # held) U \<Longrightarrow> accounts (qs @ held) (U - {r})"
proof -
  assume a: "accounts (qs @ R64 r # held) U"
  then have "set (qs @ held) = R64 ` U - {R64 r}" unfolding accounts_def by auto
  also have "\<dots> = R64 ` (U - {r})" by auto
  finally show ?thesis using a unfolding accounts_def by simp
qed

lemma accounts_mset: "mset qs = mset qs' \<Longrightarrow> accounts qs U = accounts qs' U"
  unfolding accounts_def using mset_eq_imp_distinct_iff mset_eq_setD by metis

lemma accounts_R64: "accounts qs U \<Longrightarrow> q \<in> set qs \<Longrightarrow> \<exists>r. q = R64 r"
  by (auto simp: accounts_def)

text \<open>The registers of the values on the stack, and those of values that have been popped and are
  still used (\<open>held\<close>), are all different, and exactly these are taken.\<close>

definition tracked :: "'i target \<Rightarrow> 'i compiler \<Rightarrow> gp list \<Rightarrow> bool" where
  "tracked T c held \<longleftrightarrow> slots_ok (c_stack c) \<and>
     list_all (\<lambda>v. rv_type v = kI32) (items (c_stack c)) \<and>
     accounts (stack_regs (items (c_stack c)) @ held) (in_use (c_tracker c)) \<and>
     in_use (c_tracker c) \<subseteq> set (caller_saved (t_cc T))"

definition same_shape :: "'i compiler \<Rightarrow> 'i compiler \<Rightarrow> bool" where
  "same_shape c c' \<longleftrightarrow> length (items (c_stack c')) = length (items (c_stack c)) \<and>
     capacity (c_stack c') = capacity (c_stack c)"

lemma tracked_code [simp]: "tracked T (c\<lparr>c_code := code\<rparr>) held = tracked T c held"
  by (simp add: tracked_def)

lemma tracked_new: "tracked T (new_compiler m) []"
  by (simp add: tracked_def new_compiler_def slots_ok_new in_use_def accounts_def) (simp add: new_runtime_stack_def)

text \<open>The values of two stacks agree up to registers; and where the first has none, nor has the
  second.\<close>

definition same_slot :: "runtime_value \<Rightarrow> runtime_value \<Rightarrow> bool" where
  "same_slot v v' \<longleftrightarrow> rv_type v' = rv_type v \<and> stack_pointer v' = stack_pointer v"

definition spilled_from :: "runtime_value \<Rightarrow> runtime_value \<Rightarrow> bool" where
  "spilled_from v v' \<longleftrightarrow> same_slot v v' \<and> (reg v = None \<longrightarrow> reg v' = None)"

lemma same_slot_simps [simp]: "same_slot v v" "same_slot v (v\<lparr>reg := r\<rparr>)" "spilled_from v v"
  "reg v \<noteq> None \<Longrightarrow> spilled_from v (v\<lparr>reg := r\<rparr>)"
  by (auto simp: same_slot_def spilled_from_def)

definition opt_mset :: "'a option \<Rightarrow> 'a multiset" where
  "opt_mset r = (case r of None \<Rightarrow> {#} | Some q \<Rightarrow> {#q#})"

text \<open>The spill loop keeps the values and where they spill to, gives a register to no value that had
  none, and neither loses nor duplicates a register.\<close>

lemma spill_values_keeps:
  "spill_values T r vs = (r', vs', is) \<Longrightarrow>
     list_all2 spilled_from vs vs' \<and>
     mset (stack_regs vs') + opt_mset r' = mset (stack_regs vs) + opt_mset r \<and>
     (r' = None \<longrightarrow> r = None \<and> stack_regs vs = [])"
proof (induction vs arbitrary: r r' vs' "is")
  case (Cons v vs)
  show ?case
  proof (cases "reg v")
    case None
    obtain r1 vs1 is1 where s: "spill_values T r vs = (r1, vs1, is1)" by (metis prod_cases3)
    with Cons.prems None have "r' = r1" "vs' = v # vs1" by auto
    with Cons.IH [OF s] None show ?thesis by simp
  next
    case (Some q)
    obtain r1 vs1 is1 where s: "spill_values T (Some q) vs = (r1, vs1, is1)" by (metis prod_cases3)
    with Cons.prems Some have "r' = r1" "vs' = v\<lparr>reg := r\<rparr> # vs1" by auto
    with Cons.IH [OF s] Some show ?thesis by (cases r) (auto simp: opt_mset_def)
  qed
qed simp

lemma list_all2_last:
  "list_all2 P vs vs' \<Longrightarrow> vs \<noteq> [] \<Longrightarrow> P (last vs) (last vs')"
  by (metis last_conv_nth length_0_conv length_greater_0_conv diff_less list_all2_conv_all_nth zero_less_one)

lemma slots_ok_same_slots:
  assumes "slots_ok s" and "list_all2 same_slot (items s) vs'"
  shows "slots_ok (s\<lparr>items := vs'\<rparr>)"
proof -
  have len: "length vs' = length (items s)" using assms(2) by (simp add: list_all2_lengthD)
  have "map rv_size_bytes vs' = map rv_size_bytes (items s)"
    and sp: "map stack_pointer vs' = map stack_pointer (items s)"
    using assms(2) by (simp_all add: list_eq_iff_nth_eq list_all2_conv_all_nth same_slot_def rv_size_bytes_def)
  then have sizes: "sizes (take k vs') = sizes (take k (items s))" for k
    by (simp add: sizes_def take_map [symmetric])
  have "stack_pointer (vs' ! i) = stack_pointer (items s ! i)" if "i < length vs'" for i
    using sp that len by (metis nth_map)
  with assms(1) len sizes sizes [of "length vs'"] show ?thesis by (simp add: slots_ok_def)
qed

lemma i32_same_slots:
  assumes "list_all (\<lambda>v. rv_type v = kI32) vs" and "list_all2 same_slot vs vs'"
  shows "list_all (\<lambda>v. rv_type v = kI32) vs'"
  using assms by (simp add: list_all_length list_all2_conv_all_nth same_slot_def)

section \<open>Taking and giving back registers\<close>

lemma allocate_tracked:
  assumes c: "tracked T c held" and held: "length held < length (caller_saved (t_cc T))"
  shows "\<exists>r c'. allocate_register T c = (Inr (R64 r), c') \<and> tracked T c' (R64 r # held) \<and> same_shape c c' \<and>
    (items (c_stack c) \<noteq> [] \<and> reg (last (items (c_stack c))) = None \<longrightarrow> reg (last (items (c_stack c'))) = None)"
proof -
  let ?vs = "items (c_stack c)"
  obtain ro m where take: "take_unused_register (t_cc T) (c_tracker c) = (ro, m)" by fastforce
  show ?thesis
  proof (cases ro)
    case (Some r)
    with take have r: "r \<in> set (caller_saved (t_cc T))" "r \<notin> in_use (c_tracker c)"
      "in_use m = insert r (in_use (c_tracker c))"
      using take_SomeD [of "t_cc T" "c_tracker c" r m] by simp_all
    with c have "tracked T (c\<lparr>c_tracker := m\<rparr>) (R64 r # held)"
      unfolding tracked_def by (simp add: accounts_take)
    moreover have "allocate_register T c = (Inr (R64 r), c\<lparr>c_tracker := m\<rparr>)"
      using take Some by (simp add: allocate_register_def)
    ultimately show ?thesis
      by (intro exI [of _ r] exI [of _ "c\<lparr>c_tracker := m\<rparr>"]) (simp add: same_shape_def)
  next
    case None
    with take have m: "m = c_tracker c" and full: "set (caller_saved (t_cc T)) = in_use (c_tracker c)"
      using c take_None_iff [of "t_cc T" "c_tracker c" m] by (auto simp: tracked_def)
    obtain r vs "is" where s: "spill_values T None ?vs = (r, vs, is)" by (metis prod_cases3)
    have keeps: "list_all2 spilled_from ?vs vs"
      "mset (stack_regs vs) + opt_mset r = mset (stack_regs ?vs)" "r = None \<longrightarrow> stack_regs ?vs = []"
      using spill_values_keeps [OF s] by (simp_all add: opt_mset_def)
    then have same: "list_all2 same_slot ?vs vs"
      by (auto simp: spilled_from_def elim: list_all2_mono)
    have "stack_regs ?vs \<noteq> []"
    proof
      assume "stack_regs ?vs = []"
      with c have "set held = R64 ` set (caller_saved (t_cc T))" by (simp add: tracked_def accounts_def full)
      moreover have "card (R64 ` set (caller_saved (t_cc T))) = length (caller_saved (t_cc T))"
        by (simp add: card_image inj_on_def distinct_card)
      ultimately show False using held card_length [of held] by simp
    qed
    with keeps(3) obtain q where q: "r = Some q" by auto
    with keeps(2) have ms: "mset (stack_regs vs @ q # held) = mset (stack_regs ?vs @ held)"
      by (simp add: opt_mset_def flip: keeps(2))
    have d: "accounts (stack_regs vs @ q # held) (in_use (c_tracker c))"
      using accounts_mset [OF ms] c by (simp add: tracked_def)
    then obtain r0 where r0: "q = R64 r0" using accounts_R64 [of _ _ q] by fastforce
    let ?c = "c\<lparr>c_tracker := m, c_stack := (c_stack c)\<lparr>items := vs\<rparr>, c_code := c_code c @ is\<rparr>"
    have "allocate_register T c = (Inr (R64 r0), ?c)"
      using take None s q r0 by (simp add: allocate_register_def Let_def)
    moreover have "slots_ok ((c_stack c)\<lparr>items := vs\<rparr>)" "list_all (\<lambda>v. rv_type v = kI32) vs"
      using slots_ok_same_slots [OF _ same] i32_same_slots [OF _ same] c by (simp_all add: tracked_def)
    moreover have "length vs = length ?vs" using same by (simp add: list_all2_lengthD)
    moreover have "?vs \<noteq> [] \<and> reg (last ?vs) = None \<longrightarrow> reg (last vs) = None"
      using list_all2_last [OF keeps(1)] by (simp add: spilled_from_def)
    ultimately show ?thesis
      using d r0 m c by (intro exI [of _ r0] exI [of _ ?c]) (simp add: tracked_def same_shape_def)
  qed
qed

lemma same_shape_trans: "same_shape c c' \<Longrightarrow> same_shape c' c'' \<Longrightarrow> same_shape c c''"
  by (simp add: same_shape_def)

lemma same_shape_simps [simp]:
  "same_shape c c" "same_shape c (c'\<lparr>c_code := code\<rparr>) = same_shape c c'"
  "same_shape c (c'\<lparr>c_tracker := m\<rparr>) = same_shape c c'"
  by (simp_all add: same_shape_def)

lemma mark_tracked:
  assumes "tracked T c (R64 r # held)"
  shows "tracked T (c\<lparr>c_tracker := mark_register_unused r (c_tracker c)\<rparr>) held"
  using assms by (auto simp: tracked_def in_use_free intro: accounts_free)

lemma ensure_value_tracked:
  assumes "tracked T c ((case reg v of None \<Rightarrow> [] | Some q \<Rightarrow> [q]) @ held)"
    and "length held < length (caller_saved (t_cc T))"
  shows "\<exists>r c'. ensure_value T v c = (Inr (R64 r), c') \<and> tracked T c' (R64 r # held) \<and> same_shape c c'"
proof (cases "reg v")
  case (Some q)
  with assms(1) obtain r where "q = R64 r" using accounts_R64 [of _ _ q] by (fastforce simp: tracked_def)
  with Some assms(1) show ?thesis by (intro exI [of _ r] exI [of _ c]) (simp add: ensure_value_def)
next
  case None
  with assms allocate_tracked [of T c held] obtain r c' where
    "allocate_register T c = (Inr (R64 r), c')" "tracked T c' (R64 r # held)" "same_shape c c'" by auto
  with None show ?thesis
    by (intro exI [of _ r] exI [of _ "c'\<lparr>c_code := c_code c' @ [t_load_stack T (cast (R64 r) (rv_type v)) (stack_pointer v)]\<rparr>"])
      (simp add: ensure_value_def seq_run_Inr)
qed

text \<open>A register for the top of the stack, which had none.\<close>

lemma set_top_tracked:
  assumes "tracked T c (q # held)" and "items (c_stack c) \<noteq> []" and "reg (last (items (c_stack c))) = None"
  shows "tracked T (c\<lparr>c_stack := set_top_reg (Some q) (c_stack c)\<rparr>) held \<and>
    same_shape c (c\<lparr>c_stack := set_top_reg (Some q) (c_stack c)\<rparr>)"
proof -
  obtain vs v where vs: "items (c_stack c) = vs @ [v]"
    using assms(2) by (cases "items (c_stack c)" rule: rev_cases) auto
  have "list_all2 same_slot (items (c_stack c)) (vs @ [v\<lparr>reg := Some q\<rparr>])"
    unfolding vs by (auto simp: list_all2_conv_all_nth nth_append)
  from slots_ok_same_slots [OF _ this] i32_same_slots [OF _ this] assms vs
  show ?thesis by (simp add: tracked_def same_shape_def set_top_reg_def)
qed

lemma ensure_top_tracked:
  assumes "tracked T c held" and "items (c_stack c) \<noteq> []" and "length held < length (caller_saved (t_cc T))"
  shows "\<exists>q c'. ensure_top T c = (Inr q, c') \<and> tracked T c' held \<and> same_shape c c'"
proof (cases "reg (last (items (c_stack c)))")
  case (Some q)
  with assms show ?thesis
    by (intro exI [of _ q] exI [of _ c]) (simp add: ensure_top_def on_stack_def stack_peek_def seq_run_Inr)
next
  case None
  let ?v = "last (items (c_stack c))"
  from None assms allocate_tracked [of T c held] obtain r c1 where
    1: "allocate_register T c = (Inr (R64 r), c1)" "tracked T c1 (R64 r # held)" "same_shape c c1"
      "reg (last (items (c_stack c1))) = None" by auto
  have "items (c_stack c1) \<noteq> []" using assms(2) 1(3) by (auto simp: same_shape_def)
  note 2 = set_top_tracked [OF 1(2) this 1(4)]
  let ?c = "c1\<lparr>c_stack := set_top_reg (Some (R64 r)) (c_stack c1)\<rparr>"
  let ?c' = "?c\<lparr>c_code := c_code ?c @ [t_load_stack T (cast (R64 r) (rv_type ?v)) (stack_pointer ?v)]\<rparr>"
  have "ensure_top T c = (Inr (R64 r), ?c')"
    using assms(2) None 1(1) by (simp add: ensure_top_def on_stack_def stack_peek_def seq_run_Inr)
  moreover have "tracked T ?c' held" "same_shape c ?c'"
    using 2 1(3) same_shape_trans by (auto simp del: compiler.update_convs)
  ultimately show ?thesis by blast
qed

section \<open>The operations of the stack\<close>

lemma push_tracked:
  assumes c: "tracked T c held" and n: "length (items (c_stack c)) < capacity (c_stack c)"
    "4 * length (items (c_stack c)) + 4 < 2 ^ 31"
  obtains s where "stack_push (new_value kI32) (c_stack c) = (Inr (), s)"
    and "tracked T (c\<lparr>c_stack := s\<rparr>) held" and "items s \<noteq> []" and "reg (last (items s)) = None"
    and "length (items s) = Suc (length (items (c_stack c)))" and "capacity s = capacity (c_stack c)"
proof -
  let ?s = "c_stack c"
  have slots: "slots_ok ?s" and i32: "list_all (\<lambda>v. rv_type v = kI32) (items ?s)"
    using c by (simp_all add: tracked_def)
  then have off: "stack_memory_offset ?s = 4 * int (length (items ?s))"
    by (simp add: slots_ok_def sizes_i32)
  let ?v = "\<lparr>stack_pointer = stack_memory_offset ?s + 4, reg = None, rv_type = kI32\<rparr>"
  let ?s' = "?s\<lparr>stack_memory_offset := stack_memory_offset ?s + 4, items := items ?s @ [?v]\<rparr>"
  have push: "stack_push (new_value kI32) ?s = (Inr (), ?s')"
    using n off by (simp add: stack_push_def new_value_def rv_size_bytes_def Let_def)
  moreover have "slots_ok ?s'" using slots_ok_push [OF slots push] by blast
  ultimately show thesis using c by (intro that [of ?s']) (simp_all add: tracked_def)
qed

lemma pop_tracked:
  assumes c: "tracked T c held" and n: "items (c_stack c) \<noteq> []"
  obtains v s where "stack_pop (c_stack c) = (Inr v, s)"
    and "tracked T (c\<lparr>c_stack := s\<rparr>) ((case reg v of None \<Rightarrow> [] | Some q \<Rightarrow> [q]) @ held)"
    and "Suc (length (items s)) = length (items (c_stack c))" and "capacity s = capacity (c_stack c)"
proof -
  obtain v s where pop: "stack_pop (c_stack c) = (Inr v, s)"
    using runtime_stack.pop_total n by blast
  have slots: "slots_ok (c_stack c)" using c by (simp add: tracked_def)
  from runtime_stack.pop_law [OF slots pop] have s: "slots_ok s" "items (c_stack c) = items s @ [v]"
    by simp_all
  moreover have "capacity s = capacity (c_stack c)"
    using pop by (auto simp: stack_pop_def Let_def split: if_splits)
  ultimately show thesis using c pop by (intro that [of v s]) (simp_all add: tracked_def)
qed

section \<open>Instructions\<close>

text \<open>The invariant between two instructions, with \<open>n\<close> values on the stack.\<close>

definition compiles_at :: "'i target \<Rightarrow> nat \<Rightarrow> 'i compiler \<Rightarrow> nat \<Rightarrow> bool" where
  "compiles_at T D c n \<longleftrightarrow> tracked T c [] \<and> length (items (c_stack c)) = n \<and> capacity (c_stack c) = D"

lemma compiles_at_shape:
  "tracked T c' [] \<Longrightarrow> same_shape c c' \<Longrightarrow> length (items (c_stack c)) = n \<Longrightarrow> capacity (c_stack c) = D \<Longrightarrow>
     compiles_at T D c' n"
  by (simp add: compiles_at_def same_shape_def)

lemma const_compiles:
  assumes "compiles_at T D c n" and "n < D" and "4 * n + 4 < 2 ^ 31" and "2 \<le> length (caller_saved (t_cc T))"
  shows "\<exists>c'. compile_op T fr (ConstI32 v) c = (Inr (), c') \<and> compiles_at T D c' (Suc n)"
proof -
  from assms obtain s where push: "stack_push (new_value kI32) (c_stack c) = (Inr (), s)"
    and s: "tracked T (c\<lparr>c_stack := s\<rparr>) []" "items s \<noteq> []" "length (items s) = Suc n" "capacity s = D"
    by (auto simp: compiles_at_def elim: push_tracked [of T c "[]"])
  have "items (c_stack (c\<lparr>c_stack := s\<rparr>)) \<noteq> []" "length [] < length (caller_saved (t_cc T))"
    using s(2) assms(4) by auto
  from ensure_top_tracked [OF s(1) this] obtain q c' where
    top: "ensure_top T (c\<lparr>c_stack := s\<rparr>) = (Inr q, c')" "tracked T c' []" "same_shape (c\<lparr>c_stack := s\<rparr>) c'"
    by blast
  let ?c = "c'\<lparr>c_code := c_code c' @ [t_const T (r32 q) (as_I32 v)]\<rparr>"
  have "compile_op T fr (ConstI32 v) c = (Inr (), ?c)"
    using push top(1) by (simp add: seq_run_Inr on_stack_def)
  moreover have "compiles_at T D ?c (Suc n)"
    by (rule compiles_at_shape [of _ _ "c\<lparr>c_stack := s\<rparr>"]) (use top s in simp_all)
  ultimately show ?thesis by blast
qed

lemma get_compiles:
  assumes "compiles_at T D c n" and "n < D" and "4 * n + 4 < 2 ^ 31" and "2 \<le> length (caller_saved (t_cc T))"
    and "local_stack_offset fr i = Inr p"
  shows "\<exists>c'. compile_op T fr (GetLocalI32 i) c = (Inr (), c') \<and> compiles_at T D c' (Suc n)"
proof -
  from assms obtain s where push: "stack_push (new_value kI32) (c_stack c) = (Inr (), s)"
    and s: "tracked T (c\<lparr>c_stack := s\<rparr>) []" "items s \<noteq> []" "reg (last (items s)) = None"
      "length (items s) = Suc n" "capacity s = D"
    by (auto simp: compiles_at_def elim: push_tracked [of T c "[]"])
  let ?c = "c\<lparr>c_stack := s\<rparr>"
  have "length [] < length (caller_saved (t_cc T))" using assms(4) by auto
  from allocate_tracked [OF s(1) this] s(2,3) obtain r c1 where
    alloc: "allocate_register T ?c = (Inr (R64 r), c1)" "tracked T c1 [R64 r]" "same_shape ?c c1"
      "reg (last (items (c_stack c1))) = None" by auto
  have "items (c_stack c1) \<noteq> []" using s(4) alloc(3) by (auto simp: same_shape_def)
  note top = set_top_tracked [OF alloc(2) this alloc(4)]
  let ?c1 = "c1\<lparr>c_stack := set_top_reg (Some (R64 r)) (c_stack c1)\<rparr>"
  let ?c' = "?c1\<lparr>c_code := c_code ?c1 @ [t_get_local T (R32 r) p]\<rparr>"
  have "compile_op T fr (GetLocalI32 i) c = (Inr (), ?c')"
    using push alloc(1) assms(5) by (simp add: seq_run_Inr on_stack_def local_offset_def)
  moreover have "same_shape ?c ?c'"
    using top alloc(3) same_shape_trans by (metis same_shape_simps(2))
  then have "compiles_at T D ?c' (Suc n)"
    by (rule compiles_at_shape [rotated]) (use top s in \<open>simp_all del: compiler.update_convs\<close>)
  ultimately show ?thesis by blast
qed

lemma pop_ensure:
  assumes "compiles_at T D c (Suc n)" and "2 \<le> length (caller_saved (t_cc T))"
  obtains v c1 r c2 where "on_stack stack_pop c = (Inr v, c1)" and "ensure_value T v c1 = (Inr (R64 r), c2)"
    and "tracked T c2 [R64 r]" and "length (items (c_stack c2)) = n" and "capacity (c_stack c2) = D"
proof -
  from assms(1) have "tracked T c []" "items (c_stack c) \<noteq> []" by (auto simp: compiles_at_def)
  then obtain v s where pop: "stack_pop (c_stack c) = (Inr v, s)"
    and s: "tracked T (c\<lparr>c_stack := s\<rparr>) ((case reg v of None \<Rightarrow> [] | Some q \<Rightarrow> [q]) @ [])"
      "Suc (length (items s)) = length (items (c_stack c))" "capacity s = capacity (c_stack c)"
    by (rule pop_tracked)
  have "length [] < length (caller_saved (t_cc T))" using assms(2) by auto
  from ensure_value_tracked [OF s(1) this] obtain r c2 where
    "ensure_value T v (c\<lparr>c_stack := s\<rparr>) = (Inr (R64 r), c2)" "tracked T c2 [R64 r]" "same_shape (c\<lparr>c_stack := s\<rparr>) c2"
    by blast
  with pop s(2,3) assms(1) show thesis
    by (intro that [of v "c\<lparr>c_stack := s\<rparr>" r c2]) (simp_all add: run_on_stack compiles_at_def same_shape_def)
qed

lemma add_compiles:
  assumes "compiles_at T D c (Suc (Suc n))" and "2 \<le> length (caller_saved (t_cc T))"
  shows "\<exists>c'. compile_op T fr AddI32 c = (Inr (), c') \<and> compiles_at T D c' (Suc n)"
proof -
  from assms obtain v c1 r c2 where pop: "on_stack stack_pop c = (Inr v, c1)"
    "ensure_value T v c1 = (Inr (R64 r), c2)"
    and c2: "tracked T c2 [R64 r]" "length (items (c_stack c2)) = Suc n" "capacity (c_stack c2) = D"
    by (rule pop_ensure)
  have "items (c_stack c2) \<noteq> []" "length [R64 r] < length (caller_saved (t_cc T))" using c2(2) assms(2) by auto
  from ensure_top_tracked [OF c2(1) this] obtain q c3 where
    top: "ensure_top T c2 = (Inr q, c3)" "tracked T c3 [R64 r]" "same_shape c2 c3" by blast
  let ?c = "c3\<lparr>c_code := c_code c3 @ [t_add T (r32 q) (R32 r)],
      c_tracker := mark_register_unused r (c_tracker c3)\<rparr>"
  have "compile_op T fr AddI32 c = (Inr (), ?c)"
    using pop top(1) by (simp add: seq_run_Inr r32_def)
  moreover have "tracked T ?c []" using mark_tracked [OF top(2)] by (simp add: tracked_def)
  then have "compiles_at T D ?c (Suc n)"
    by (rule compiles_at_shape [of _ _ c2]) (use top(3) c2 in simp_all)
  ultimately show ?thesis by blast
qed

lemma set_compiles:
  assumes "compiles_at T D c (Suc n)" and "2 \<le> length (caller_saved (t_cc T))"
    and "local_stack_offset fr i = Inr p"
  shows "\<exists>c'. compile_op T fr (SetLocalI32 i) c = (Inr (), c') \<and> compiles_at T D c' n"
proof -
  from assms(1,2) obtain v c1 r c2 where pop: "on_stack stack_pop c = (Inr v, c1)"
    "ensure_value T v c1 = (Inr (R64 r), c2)"
    and c2: "tracked T c2 [R64 r]" "length (items (c_stack c2)) = n" "capacity (c_stack c2) = D"
    by (rule pop_ensure)
  let ?c = "c2\<lparr>c_code := c_code c2 @ [t_set_local T (R64 r) p],
      c_tracker := mark_register_unused r (c_tracker c2)\<rparr>"
  have "compile_op T fr (SetLocalI32 i) c = (Inr (), ?c)"
    using pop assms(3) by (simp add: seq_run_Inr local_offset_def)
  moreover have "tracked T ?c []" using mark_tracked [OF c2(1)] by (simp add: tracked_def)
  then have "compiles_at T D ?c n"
    by (rule compiles_at_shape [of _ _ c2]) (use c2 in simp_all)
  ultimately show ?thesis by blast
qed

lemma instr_compiles:
  assumes "straight i" and "i \<noteq> Return" and "exec_instr i (ls, st) = Some (ls', st')"
    and c: "compiles_at T D c (length st)" and "length st' \<le> D" and "D < 2 ^ 29"
    and regs: "2 \<le> length (caller_saved (t_cc T))" and locals: "\<And>i. i < length ls \<Longrightarrow> \<exists>p. local_stack_offset fr i = Inr p"
  shows "\<exists>c'. compile_op T fr i c = (Inr (), c') \<and> compiles_at T D c' (length st') \<and> length ls' = length ls"
  using assms(1,2)
proof (cases i)
  case (ConstI32 v)
  with assms(3,5,6) const_compiles [OF c _ _ regs] show ?thesis by auto
next
  case AddI32
  with assms(3) obtain a b r where "st = b # a # r" "st' = (a + b) # r" "ls' = ls"
    by (cases "(AddI32, (ls, st))" rule: exec_instr.cases) auto
  with AddI32 add_compiles [of T D c "length r"] c regs show ?thesis by auto
next
  case (GetLocalI32 j)
  with assms(3) have "j < length ls" "st' = ls ! j # st" "ls' = ls" by (auto split: if_splits)
  moreover from this locals obtain p where "local_stack_offset fr j = Inr p" by blast
  ultimately show ?thesis using GetLocalI32 get_compiles [OF c _ _ regs] assms(5,6) by auto
next
  case (SetLocalI32 j)
  with assms(3) obtain a where st: "st = a # st'" "j < length ls" "ls' = ls[j := a]"
    by (cases "(SetLocalI32 j, (ls, st))" rule: exec_instr.cases) (auto split: if_splits)
  moreover from this locals obtain p where "local_stack_offset fr j = Inr p" by blast
  ultimately show ?thesis using SetLocalI32 set_compiles [of T D c "length st'"] c regs by auto
qed auto

lemma body_compiles:
  assumes "list_all straight is" and "Return \<notin> set is" and "exec is (ls, st) = Some (ls', st')"
    and "peak is (ls, st) \<le> D" and "D < 2 ^ 29" and "compiles_at T D c (length st)"
    and regs: "2 \<le> length (caller_saved (t_cc T))" and "\<And>i. i < length ls \<Longrightarrow> \<exists>p. local_stack_offset fr i = Inr p"
  shows "\<exists>c'. for_each (compile_op T fr) is c = (Inr (), c') \<and> compiles_at T D c' (length st')"
  using assms
proof (induction "is" arbitrary: ls st c)
  case (Cons i "is")
  then have i: "straight i" "i \<noteq> Return" by auto
  with Cons.prems(3,4) obtain ls1 st1 where 1: "exec_instr i (ls, st) = Some (ls1, st1)"
    "exec is (ls1, st1) = Some (ls', st')" "peak is (ls1, st1) \<le> D"
    by (auto simp: bind_eq_Some_conv)
  have "length st1 \<le> D" using peak_ge [of "(ls1, st1)" "is"] 1(3) by simp
  from instr_compiles [OF i 1(1) Cons.prems(6) this Cons.prems(5) regs Cons.prems(8)] obtain c1 where
    c1: "compile_op T fr i c = (Inr (), c1)" "compiles_at T D c1 (length st1)" and len: "length ls1 = length ls"
    by blast
  have tail: "list_all straight is" "Return \<notin> set is" using Cons.prems(1,2) by simp_all
  have "\<exists>p. local_stack_offset fr j = Inr p" if "j < length ls1" for j
    using Cons.prems(8) that len by simp
  from Cons.IH [OF tail 1(2,3) Cons.prems(5) c1(2) regs this] c1(1) show ?case
    by (auto simp: seq_run_Inr)
qed auto

section \<open>Functions\<close>

lemma local_offset_defined: "i < length (all_locals m) \<Longrightarrow> \<exists>p. local_stack_offset (new_frame cc m) i = Inr p"
  by (simp add: local_stack_offset_def new_frame_spec del: upt_Suc)

lemma save_params_run:
  "set is \<subseteq> {..< length (parameter_types (signature m))} \<Longrightarrow>
     length (parameter_types (signature m)) \<le> length (kGpArgs (t_cc T)) \<Longrightarrow>
     \<exists>code. for_each (save_param T (new_frame (t_cc T) m) m) is c = (Inr (), c\<lparr>c_code := code\<rparr>)"
proof (induction "is" arbitrary: c)
  case Nil
  show ?case by (rule exI [of _ "c_code c"]) simp
next
  case (Cons i "is")
  then have i: "i < length (parameter_types (signature m))" "\<not> length (kGpArgs (t_cc T)) \<le> i" by auto
  then obtain p where "local_stack_offset (new_frame (t_cc T) m) i = Inr p"
    using local_offset_defined [of i m "t_cc T"] by (auto simp: all_locals_def)
  with i(2) obtain code where "save_param T (new_frame (t_cc T) m) m i c = (Inr (), c\<lparr>c_code := code\<rparr>)"
    by (auto simp: save_param_def seq_run_Inr local_offset_def)
  with Cons.IH [of "c\<lparr>c_code := code\<rparr>"] Cons.prems show ?case by (auto simp: seq_run_Inr)
qed

lemma epilogue_runs:
  assumes "compiles_at T D c n" and "result_types (signature m) \<noteq> [] \<longrightarrow> 0 < n"
    and "2 \<le> length (caller_saved (t_cc T))"
  shows "\<exists>c'. epilogue T (new_frame (t_cc T) m) m c = (Inr (), c')"
proof (cases "result_types (signature m) = []")
  case True
  then show ?thesis by (simp add: epilogue_def seq_run_Inr)
next
  case False
  with assms(2) obtain k where k: "n = Suc k" by (cases n) auto
  let ?c = "c\<lparr>c_code := c_code c @ [t_bind_exit T]\<rparr>"
  have "compiles_at T D ?c (Suc k)" using assms(1) k by (simp add: compiles_at_def)
  then obtain v c1 r c2 where "on_stack stack_pop ?c = (Inr v, c1)" "ensure_value T v c1 = (Inr (R64 r), c2)"
    using assms(3) by (rule pop_ensure)
  with False show ?thesis by (simp add: epilogue_def seq_run_Inr seq_assoc Let_def)
qed

lemma straight_compiles:
  assumes f: "completed f" and b: "list_all straight (body f)" "Return \<notin> set (butlast (body f))"
    and len: "length (body f) < 2 ^ 29"
    and T: "calling_convention (t_cc T)" "2 \<le> length (caller_saved (t_cc T))"
  shows "\<exists>code. compile_function T f = Inr code"
proof -
  let ?m = "meta f" and ?D = "unat (max_stack_elements (meta f))" and ?fr = "new_frame (t_cc T) (meta f)"
  define args :: "u32 list" where "args = replicate (length (all_locals ?m)) 0"
  have "length (body f) < 2 ^ 32" "length args = length (all_locals ?m)" using len by (simp_all add: args_def)
  from completed_bounds [OF f b(1) this] obtain ls st where ex: "exec (body f) (args, []) = Some (ls, st)"
    "length st = length (result_types (signature ?m))" "peak (body f) (args, []) \<le> ?D" "?D \<le> length (body f)"
    by blast
  obtain b0 where b0: "body f = b0 \<or> body f = b0 @ [Return]" "Return \<notin> set b0" "list_all straight b0"
  proof (cases "body f" rule: rev_cases)
    case (snoc xs i)
    with b that [of xs] that [of "xs @ [i]"] show ?thesis by (cases "i = Return") auto
  qed (use that [of "[]"] in simp)
  have ret: "exec (b0 @ [Return]) s = exec b0 s" "peak (b0 @ [Return]) s = peak b0 s" for s
    using b0(2) by (induction b0 arbitrary: s) (auto split: Option.bind_split option.split)
  have ex0: "exec b0 (args, []) = Some (ls, st)" "peak b0 (args, []) \<le> ?D"
    using b0(1) ex(1,3) ret by auto
  have "length (parameter_types (signature ?m)) \<le> length (kGpArgs (t_cc T))"
    using f calling_convention.args_enough [OF T(1)]
    by (simp add: completed_def signature_ok_def kMaxFunctionParameters_def)
  from save_params_run [OF _ this, of "[0..<length (parameter_types (signature ?m))]"
      "(new_compiler ?m)\<lparr>c_code := [t_enter T (stack_size_bytes (t_cc T) ?fr)]\<rparr>"]
  obtain code where pro: "prologue T ?fr ?m (new_compiler ?m) = (Inr (), (new_compiler ?m)\<lparr>c_code := code\<rparr>)"
    by (auto simp: prologue_def seq_run_Inr new_compiler_def subset_eq)
  let ?c = "(new_compiler ?m)\<lparr>c_code := code\<rparr>"
  have c: "compiles_at T ?D ?c (length [])"
    using tracked_new [of T ?m] by (simp add: compiles_at_def) (simp add: new_compiler_def new_runtime_stack_def)
  have "?D < 2 ^ 29" using ex(4) len by simp
  from body_compiles [OF b0(3,2) ex0 this c T(2)] obtain c1 where
    c1: "for_each (compile_op T ?fr) b0 ?c = (Inr (), c1)" "compiles_at T ?D c1 (length st)"
    using local_offset_defined by (fastforce simp: args_def)
  then obtain c2 where c2: "for_each (compile_op T ?fr) (body f) ?c = (Inr (), c2)" "compiles_at T ?D c2 (length st)"
    using b0(1) by (fastforce simp: for_each_append seq_run_Inr compiles_at_def)
  from epilogue_runs [OF c2(2) _ T(2), of ?m] ex(2) obtain c3 where "epilogue T ?fr ?m c2 = (Inr (), c3)"
    by auto
  then show ?thesis by (simp add: compile_function_def Let_def seq_run_Inr pro c2(1))
qed

section \<open>Properties\<close>


text \<open>A function with twenty values on its operand stack, more than either target has registers.\<close>

definition twenty_deep :: wasm_function where
  "twenty_deep = i32_function 1 [] 20 (replicate 20 (GetLocalI32 0) @ replicate 19 AddI32)"

lemma completed_twenty_deep: "completed twenty_deep"
  unfolding twenty_deep_def
proof (rule completed_i32_function)
  let ?b = "replicate 20 (GetLocalI32 0) @ replicate 19 AddI32"
  show "abs_validate (replicate 1 kI32 @ []) [kI32] ?b (False, []) \<noteq> None"
    by (simp add: abs_validate_def abs_empty_def numeral_eq_Suc)
  show "peak ?b (replicate (1 + length ([] :: val_type list)) 0, []) = 20"
    by (simp add: numeral_eq_Suc)
  have "Return \<notin> set ?b" by auto
  then show "Return \<notin> set (butlast ?b)" by (blast dest: in_set_butlastD)
  show "list_all straight ?b" by (simp add: list_all_iff)
qed simp_all


text \<open>The function that returns 1 and goes on with \<open>b\<close>.\<close>

definition returns_early :: "instruction list \<Rightarrow> wasm_function" where
  "returns_early b = i32_function 0 [] 1 (ConstI32 (value_U32 1) # Return # b)"


end
