(* ===== verification/Vm_Thread.thy ===== *)
theory Vm_Thread
  imports Prelude Function_Frame
begin

text \<open>
  VM threads: runtime/thread/thread.h and runtime/thread/thread.cc. A \<open>VMThread\<close> is a function
  that runs on a stack of its own. The state of the system is the \<open>thread_local\<close> pointer
  \<open>current_vm_thread\<close>, the live threads, and what the processor executes. A point of the host's
  code is a value of type \<open>'h\<close>, a point of a thread's function one of type \<open>'k\<close>; a
  \<open>ThreadStack\<close> is represented by the point at which a switch to it continues. That a switch
  does continue there, with the stack and the registers it had, is what the theory
  Context_Switch shows of the two assembly routines; Machine_Threads shows that the threads with
  these routines and stacks in memory refine the ones here.
\<close>

section \<open>State\<close>

datatype thread_state = kStopped | kSuspended | kRunning

text \<open>What a \<open>ThreadStack\<close> of a thread holds: zeros (\<open>CreateUninitializedStackState\<close>), the
  entry of \<open>VMThreadStart\<close> (\<open>InitializeVMThreadStackState\<close>), a point of the function, or the
  end of \<open>VMThreadStart\<close>, whose return address is a dummy.\<close>

datatype 'k thread_point = Zeroed | Entry | Point 'k | AtExit

record ('h, 'k) vm_thread =
  thread_state :: thread_state
  thread_func :: 'k
  my_thread_state :: "'k thread_point"
  main_thread_state :: "'h option"

datatype ('h, 'k) control = Host 'h | Thread "'k thread_point"

type_synonym thread_id = nat

record ('h, 'k) threads =
  current_vm_thread :: "thread_id option"
  live_threads :: "thread_id \<rightharpoonup> ('h, 'k) vm_thread"
  control :: "('h, 'k) control"

type_synonym ('h, 'k) thread_op = "(('h, 'k) threads, unit) op"

section \<open>Operations\<close>

text \<open>A member function of a thread that is not alive has no meaning.\<close>

definition with_thread ::
    "thread_id \<Rightarrow> (('h, 'k) vm_thread \<Rightarrow> (('h, 'k) threads, 'a) op) \<Rightarrow> (('h, 'k) threads, 'a) op" where
  "with_thread t f s = (case live_threads s t of
     None \<Rightarrow> (Inl (UndefinedBehaviour ''thread is not alive''), s)
   | Some th \<Rightarrow> f th s)"

definition set_thread :: "thread_id \<Rightarrow> ('h, 'k) vm_thread \<Rightarrow> ('h, 'k) thread_op" where
  "set_thread t th = modify (\<lambda>s. s\<lparr>live_threads := (live_threads s)(t \<mapsto> th)\<rparr>)"

definition set_state :: "thread_id \<Rightarrow> thread_state \<Rightarrow> ('h, 'k) thread_op" where
  "set_state t st = with_thread t (\<lambda>th. set_thread t (th\<lparr>thread_state := st\<rparr>))"

text \<open>The constructor, without the stack's memory (below).\<close>

definition create_uninitialized_stack_state :: "'k thread_point" where
  [simp]: "create_uninitialized_stack_state = Zeroed"

definition new_vm_thread :: "'k \<Rightarrow> ('h, 'k) vm_thread" where
  "new_vm_thread f = \<lparr>thread_state = kStopped, thread_func = f,
     my_thread_state = create_uninitialized_stack_state,
     main_thread_state = None\<rparr>"

definition create_thread :: "thread_id \<Rightarrow> 'k \<Rightarrow> ('h, 'k) thread_op" where
  "create_thread t f = set_thread t (new_vm_thread f)"

definition destroy_thread :: "thread_id \<Rightarrow> ('h, 'k) thread_op" where
  "destroy_thread t = with_thread t (\<lambda>th. seq (gets current_vm_thread) (\<lambda>current.
     seq (assert_that (current \<noteq> Some t \<and> thread_state th \<noteq> kRunning)
            ''VMThreads cannot be destroyed while running'') (\<lambda>_.
     modify (\<lambda>s. s\<lparr>live_threads := (live_threads s)(t := None)\<rparr>))))"

text \<open>\<open>WasmccSwitch\<close> from the host into the thread, \<open>h\<close> being the point after the call, and from
  the thread, at \<open>p\<close>, to the host. A switch to a state that was never saved jumps to a null
  pointer.\<close>

definition trampoline_into_vm :: "thread_id \<Rightarrow> 'h \<Rightarrow> ('h, 'k) thread_op" where
  "trampoline_into_vm t h =
     seq (modify (\<lambda>s. s\<lparr>current_vm_thread := Some t\<rparr>)) (\<lambda>_. with_thread t (\<lambda>th.
       seq (set_thread t (th\<lparr>main_thread_state := Some h\<rparr>)) (\<lambda>_.
         if my_thread_state th = Zeroed then throw (UndefinedBehaviour ''jump to null'')
         else modify (\<lambda>s. s\<lparr>control := Thread (my_thread_state th)\<rparr>))))"

definition trampoline_out_of_vm :: "thread_id \<Rightarrow> 'k thread_point \<Rightarrow> ('h, 'k) thread_op" where
  "trampoline_out_of_vm t p =
     seq (modify (\<lambda>s. s\<lparr>current_vm_thread := None\<rparr>)) (\<lambda>_. with_thread t (\<lambda>th.
       seq (set_thread t (th\<lparr>my_thread_state := p\<rparr>)) (\<lambda>_.
         case main_thread_state th of
           None \<Rightarrow> throw (UndefinedBehaviour ''jump to null'')
         | Some h \<Rightarrow> modify (\<lambda>s. s\<lparr>control := Host h\<rparr>))))"

definition resume :: "thread_id \<Rightarrow> 'h \<Rightarrow> ('h, 'k) thread_op" where
  "resume t h s =
     (if current_vm_thread s \<noteq> None
      then (Inl (RuntimeError ''VMThread does not support calling into another VMThread''), s)
      else with_thread t (\<lambda>th.
        seq (if thread_state th = kStopped then set_thread t (th\<lparr>my_thread_state := Entry\<rparr>) else ret ()) (\<lambda>_.
        seq (set_state t kRunning) (\<lambda>_. trampoline_into_vm t h))) s)"

definition stop :: "thread_id \<Rightarrow> ('h, 'k) thread_op" where
  "stop t = with_thread t (\<lambda>th.
     if thread_state th = kRunning then throw (RuntimeError ''attempting to stop a running VMThread'')
     else set_state t kStopped)"

definition yield_thread :: "'k \<Rightarrow> ('h, 'k) thread_op" where
  "yield_thread k s = (case current_vm_thread s of
     None \<Rightarrow> (Inl (RuntimeError ''attempting to yield when there is no VMThread''), s)
   | Some t \<Rightarrow> seq (set_state t kSuspended) (\<lambda>_. trampoline_out_of_vm t (Point k)) s)"

text \<open>\<open>VMThreadStart\<close> after the thread's function has returned.\<close>

definition thread_returns :: "thread_id \<Rightarrow> ('h, 'k) thread_op" where
  "thread_returns t = seq (set_state t kStopped) (\<lambda>_. trampoline_out_of_vm t AtExit)"

lemmas thread_ops = with_thread_def set_thread_def set_state_def trampoline_into_vm_def
  trampoline_out_of_vm_def resume_def stop_def yield_thread_def thread_returns_def
  create_thread_def destroy_thread_def new_vm_thread_def

section \<open>The reachable states\<close>

text \<open>
  A step is a call of the interface by whatever code is executing, or progress of that code. A
  call that throws leaves control with its caller; an abort ends the process, and no step
  follows it. The host holds the pointer of a thread it resumes, stops or destroys.
\<close>

inductive thread_step :: "('h, 'k) threads \<Rightarrow> ('h, 'k) threads \<Rightarrow> bool" where
  Create: "live_threads s t = None \<Longrightarrow> create_thread t f s = (Inr (), s') \<Longrightarrow> thread_step s s'"
| Destroy: "t \<in> dom (live_threads s) \<Longrightarrow> destroy_thread t s = (Inr (), s') \<Longrightarrow> thread_step s s'"
| Stop: "t \<in> dom (live_threads s) \<Longrightarrow> stop t s = (r, s') \<Longrightarrow> thread_step s s'"
| Resume: "t \<in> dom (live_threads s) \<Longrightarrow> resume t h s = (r, s') \<Longrightarrow> thread_step s s'"
| Yield: "yield_thread k s = (r, s') \<Longrightarrow> thread_step s s'"
| Return: "control s = Thread p \<Longrightarrow> current_vm_thread s = Some t \<Longrightarrow>
    thread_returns t s = (Inr (), s') \<Longrightarrow> thread_step s s'"
| HostCode: "control s = Host h \<Longrightarrow> thread_step s (s\<lparr>control := Host h'\<rparr>)"
| ThreadCode: "control s = Thread p \<Longrightarrow> thread_step s (s\<lparr>control := Thread (Point k)\<rparr>)"

definition no_threads :: "'h \<Rightarrow> ('h, 'k) threads" where
  "no_threads h = \<lparr>current_vm_thread = None, live_threads = (\<lambda>_. None), control = Host h\<rparr>"

definition reachable :: "('h, 'k) threads \<Rightarrow> bool" where
  "reachable s \<longleftrightarrow> (\<exists>h. thread_step\<^sup>*\<^sup>* (no_threads h) s)"

text \<open>A thread runs exactly when it is the current one, and then the way back to the host is saved;
  a suspended thread has a point to continue at; a thread's code executes exactly when there is a
  current thread, and never at an address that is none.\<close>

definition threads_ok :: "('h, 'k) threads \<Rightarrow> bool" where
  "threads_ok s \<longleftrightarrow>
     (\<forall>t th. live_threads s t = Some th \<longrightarrow>
        (thread_state th = kRunning \<longleftrightarrow> current_vm_thread s = Some t) \<and>
        (thread_state th = kRunning \<longrightarrow> main_thread_state th \<noteq> None) \<and>
        (thread_state th = kSuspended \<longrightarrow> (\<exists>k. my_thread_state th = Point k))) \<and>
     (\<forall>t. current_vm_thread s = Some t \<longrightarrow> t \<in> dom (live_threads s)) \<and>
     (\<forall>h. control s = Host h \<longrightarrow> current_vm_thread s = None) \<and>
     (\<forall>p. control s = Thread p \<longrightarrow> current_vm_thread s \<noteq> None \<and> p \<noteq> Zeroed \<and> p \<noteq> AtExit)"

section \<open>What the operations do\<close>

text \<open>The point at which a thread continues when it is resumed.\<close>

definition resume_point :: "('h, 'k) vm_thread \<Rightarrow> 'k thread_point" where
  "resume_point th = (if thread_state th = kStopped then Entry else my_thread_state th)"

lemma resume_runs:
  assumes "current_vm_thread s = None" and "live_threads s t = Some th" and "resume_point th \<noteq> Zeroed"
  shows "resume t h s = (Inr (), s\<lparr>current_vm_thread := Some t,
    live_threads := (live_threads s)(t \<mapsto> th\<lparr>thread_state := kRunning,
      my_thread_state := resume_point th, main_thread_state := Some h\<rparr>),
    control := Thread (resume_point th)\<rparr>)"
  using assms
  by (cases th; cases "thread_state th = kStopped") (auto simp: thread_ops resume_point_def seq_def)

lemma resume_refused: "current_vm_thread s \<noteq> None \<Longrightarrow> resume t h s =
    (Inl (RuntimeError ''VMThread does not support calling into another VMThread''), s)"
  by (simp add: resume_def)

lemma leaves_runs:
  assumes "live_threads s t = Some th" and "main_thread_state th = Some h"
  shows "seq (set_state t st) (\<lambda>_. trampoline_out_of_vm t p) s = (Inr (), s\<lparr>current_vm_thread := None,
    live_threads := (live_threads s)(t \<mapsto> th\<lparr>thread_state := st, my_thread_state := p\<rparr>), control := Host h\<rparr>)"
  using assms by (simp add: thread_ops seq_def)

lemma yield_runs:
  assumes "current_vm_thread s = Some t" "live_threads s t = Some th" "main_thread_state th = Some h"
  shows "yield_thread k s = (Inr (), s\<lparr>current_vm_thread := None,
    live_threads := (live_threads s)(t \<mapsto> th\<lparr>thread_state := kSuspended, my_thread_state := Point k\<rparr>),
    control := Host h\<rparr>)"
  using leaves_runs [OF assms(2,3)] assms(1) by (simp add: yield_thread_def)

lemma yield_refused: "current_vm_thread s = None \<Longrightarrow> yield_thread k s =
    (Inl (RuntimeError ''attempting to yield when there is no VMThread''), s)"
  by (simp add: yield_thread_def)

lemma returns_runs:
  assumes "live_threads s t = Some th" and "main_thread_state th = Some h"
  shows "thread_returns t s = (Inr (), s\<lparr>current_vm_thread := None,
    live_threads := (live_threads s)(t \<mapsto> th\<lparr>thread_state := kStopped, my_thread_state := AtExit\<rparr>),
    control := Host h\<rparr>)"
  using leaves_runs [OF assms] by (simp add: thread_returns_def)

lemma stop_runs:
  assumes "live_threads s t = Some th"
  shows "stop t s = (if thread_state th = kRunning
    then (Inl (RuntimeError ''attempting to stop a running VMThread''), s)
    else (Inr (), s\<lparr>live_threads := (live_threads s)(t \<mapsto> th\<lparr>thread_state := kStopped\<rparr>)\<rparr>))"
  using assms by (simp add: thread_ops)

lemma destroy_runs:
  assumes "live_threads s t = Some th"
  shows "destroy_thread t s = (if current_vm_thread s = Some t \<or> thread_state th = kRunning
    then (Inl (Aborted ''VMThreads cannot be destroyed while running''), s)
    else (Inr (), s\<lparr>live_threads := (live_threads s)(t := None)\<rparr>))"
  using assms by (simp add: thread_ops)

lemma create_runs:
  "create_thread t f s = (Inr (), s\<lparr>live_threads := (live_threads s)(t \<mapsto> new_vm_thread f)\<rparr>)"
  by (simp add: create_thread_def set_thread_def)

section \<open>The invariant\<close>

lemma threads_okD:
  assumes "threads_ok s" and "live_threads s t = Some th"
  shows "thread_state th = kRunning \<longleftrightarrow> current_vm_thread s = Some t"
    and "thread_state th = kRunning \<Longrightarrow> \<exists>h. main_thread_state th = Some h"
    and "thread_state th = kSuspended \<Longrightarrow> \<exists>k. my_thread_state th = Point k"
  using assms by (auto simp: threads_ok_def)

lemma threads_ok_current:
  assumes "threads_ok s" and "current_vm_thread s = Some t"
  obtains th h where "live_threads s t = Some th" and "main_thread_state th = Some h"
    and "thread_state th = kRunning"
  using assms unfolding threads_ok_def by blast

lemma resume_point_ok:
  "threads_ok s \<Longrightarrow> current_vm_thread s = None \<Longrightarrow> live_threads s t = Some th \<Longrightarrow>
     resume_point th = Entry \<or> (\<exists>k. resume_point th = Point k)"
  using threads_okD [of s t th] by (cases "thread_state th") (auto simp: resume_point_def)

lemma threads_ok_none: "threads_ok (no_threads h)"
  by (simp add: threads_ok_def no_threads_def)

lemma threads_ok_control:
  "control s = Host h \<Longrightarrow> threads_ok s \<Longrightarrow> threads_ok (s\<lparr>control := Host h'\<rparr>)"
  "control s = Thread p \<Longrightarrow> threads_ok s \<Longrightarrow> threads_ok (s\<lparr>control := Thread (Point k)\<rparr>)"
  by (auto simp: threads_ok_def)

lemma threads_ok_leave:
  assumes ok: "threads_ok s" and s: "current_vm_thread s = Some t" "live_threads s t = Some th"
    and st: "st = kStopped \<or> st = kSuspended \<and> (\<exists>k. p = Point k)"
  shows "threads_ok (s\<lparr>current_vm_thread := None,
    live_threads := (live_threads s)(t \<mapsto> th\<lparr>thread_state := st, my_thread_state := p\<rparr>), control := Host h\<rparr>)"
  using assms unfolding threads_ok_def by (auto split: if_splits)

lemma threads_ok_enter:
  assumes ok: "threads_ok s" and s: "current_vm_thread s = None" "live_threads s t = Some th"
    and p: "p = Entry \<or> (\<exists>k. p = Point k)"
  shows "threads_ok (s\<lparr>current_vm_thread := Some t,
    live_threads := (live_threads s)(t \<mapsto> th\<lparr>thread_state := kRunning, my_thread_state := p,
      main_thread_state := Some h\<rparr>), control := Thread p\<rparr>)"
  using assms unfolding threads_ok_def by (auto split: if_splits)

lemma threads_ok_stop:
  "threads_ok s \<Longrightarrow> live_threads s t = Some th \<Longrightarrow> thread_state th \<noteq> kRunning \<Longrightarrow>
     threads_ok (s\<lparr>live_threads := (live_threads s)(t \<mapsto> th\<lparr>thread_state := kStopped\<rparr>)\<rparr>)"
  unfolding threads_ok_def by (auto split: if_splits)

lemma threads_ok_destroy:
  "threads_ok s \<Longrightarrow> current_vm_thread s \<noteq> Some t \<Longrightarrow>
     threads_ok (s\<lparr>live_threads := (live_threads s)(t := None)\<rparr>)"
  unfolding threads_ok_def by (auto split: if_splits)

lemma threads_ok_create:
  "threads_ok s \<Longrightarrow> live_threads s t = None \<Longrightarrow>
     threads_ok (s\<lparr>live_threads := (live_threads s)(t \<mapsto> new_vm_thread f)\<rparr>)"
  unfolding threads_ok_def new_vm_thread_def by (auto split: if_splits)

text \<open>Each call of the interface keeps the invariant and never does what has no meaning.\<close>

definition defined :: "exn + 'a \<Rightarrow> bool" where
  "defined r \<longleftrightarrow> (\<forall>m. r \<noteq> Inl (UndefinedBehaviour m))"

lemma resume_ok:
  assumes "threads_ok s" and "t \<in> dom (live_threads s)" and "resume t h s = (r, s')"
  shows "threads_ok s' \<and> defined r"
proof (cases "current_vm_thread s")
  case None
  from assms(2) obtain th where th: "live_threads s t = Some th" by blast
  note p = resume_point_ok [OF assms(1) None th]
  then have "resume_point th \<noteq> Zeroed" by auto
  from resume_runs [OF None th this] threads_ok_enter [OF assms(1) None th p] assms(3)
  show ?thesis by (auto simp: defined_def)
qed (use assms in \<open>auto simp: resume_refused defined_def\<close>)

lemma yield_ok:
  assumes "threads_ok s" and "yield_thread k s = (r, s')"
  shows "threads_ok s' \<and> defined r"
proof (cases "current_vm_thread s")
  case (Some t)
  with assms(1) obtain th h where th: "live_threads s t = Some th" "main_thread_state th = Some h"
    by (rule threads_ok_current)
  from yield_runs [OF Some th] threads_ok_leave [OF assms(1) Some th(1)] assms(2)
  show ?thesis by (auto simp: defined_def)
qed (use assms in \<open>auto simp: yield_refused defined_def\<close>)

lemma returns_ok:
  assumes "threads_ok s" and "current_vm_thread s = Some t" and "thread_returns t s = (r, s')"
  shows "threads_ok s' \<and> defined r"
proof -
  from assms(1,2) obtain th h where th: "live_threads s t = Some th" "main_thread_state th = Some h"
    by (rule threads_ok_current)
  from returns_runs [OF th] threads_ok_leave [OF assms(1,2) th(1)] assms(3)
  show ?thesis by (auto simp: defined_def)
qed

lemma stop_ok:
  "threads_ok s \<Longrightarrow> t \<in> dom (live_threads s) \<Longrightarrow> stop t s = (r, s') \<Longrightarrow> threads_ok s' \<and> defined r"
  by (auto simp: stop_runs defined_def intro: threads_ok_stop split: if_splits)

lemma destroy_ok:
  "threads_ok s \<Longrightarrow> t \<in> dom (live_threads s) \<Longrightarrow> destroy_thread t s = (r, s') \<Longrightarrow> threads_ok s' \<and> defined r"
  by (auto simp: destroy_runs defined_def intro: threads_ok_destroy split: if_splits)

lemma thread_step_ok:
  assumes "thread_step s s'" and ok: "threads_ok s"
  shows "threads_ok s'"
  using assms(1)
proof cases
  case (Create t f)
  with threads_ok_create [OF ok, of t f] show ?thesis by (auto simp: create_runs)
next
  case (Destroy t)
  with destroy_ok [OF ok] show ?thesis by blast
next
  case (Stop t r)
  with stop_ok [OF ok] show ?thesis by blast
next
  case (Resume t h r)
  with resume_ok [OF ok] show ?thesis by blast
next
  case (Yield k r)
  with yield_ok [OF ok] show ?thesis by blast
next
  case (Return p t)
  with returns_ok [OF ok] show ?thesis by blast
next
  case (HostCode h h')
  with threads_ok_control(1) [OF _ ok] show ?thesis by blast
next
  case (ThreadCode p k)
  with threads_ok_control(2) [OF _ ok] show ?thesis by blast
qed

lemma reachable_ok: "reachable s \<Longrightarrow> threads_ok s"
proof -
  assume "reachable s"
  then obtain h where "thread_step\<^sup>*\<^sup>* (no_threads h) s" by (auto simp: reachable_def)
  then show "threads_ok s"
    by (induction rule: rtranclp_induct) (rule threads_ok_none, erule thread_step_ok)
qed

section \<open>Properties\<close>

text \<open>C9: in every state that calls of the interface lead to, in whatever order and from whatever
  code, at most one thread is running, namely the one that \<open>current_vm_thread\<close> points to; a
  thread's code executes only while there is such a thread, and never from a state that was not
  saved or past the end of \<open>VMThreadStart\<close>.\<close>

theorem one_thread_runs:
  assumes "reachable s"
  shows "(\<forall>t th. live_threads s t = Some th \<longrightarrow>
      (thread_state th = kRunning \<longleftrightarrow> current_vm_thread s = Some t)) \<and>
    (case control s of
        Host h \<Rightarrow> \<forall>th \<in> ran (live_threads s). thread_state th \<noteq> kRunning
      | Thread p \<Rightarrow> (\<exists>t th. current_vm_thread s = Some t \<and> live_threads s t = Some th \<and>
          thread_state th = kRunning) \<and> p \<noteq> Zeroed \<and> p \<noteq> AtExit)"
  using reachable_ok [OF assms]
  by (cases "control s") (auto simp: threads_ok_def ran_def)

text \<open>A thread that the host has created, and then resumed.\<close>

definition created_threads :: "(nat, nat) threads" where
  "created_threads = snd (create_thread 1 40 (no_threads 0))"

definition sample_threads :: "(nat, nat) threads" where
  "sample_threads = snd (resume 1 7 created_threads)"

lemma created_threads_eq: "created_threads = \<lparr>current_vm_thread = None,
    live_threads = [1 \<mapsto> new_vm_thread 40], control = Host 0\<rparr>"
  by (simp add: created_threads_def create_runs no_threads_def)

lemma sample_threads_eq: "sample_threads = \<lparr>current_vm_thread = Some 1,
    live_threads = [1 \<mapsto> \<lparr>thread_state = kRunning, thread_func = 40, my_thread_state = Entry,
      main_thread_state = Some 7\<rparr>], control = Thread Entry\<rparr>"
  by (simp add: sample_threads_def created_threads_eq resume_runs resume_point_def new_vm_thread_def)

lemma created_threads_reachable: "reachable created_threads"
proof -
  have "thread_step (no_threads 0) created_threads"
    by (rule thread_step.Create [of _ 1 40]) (simp_all add: no_threads_def create_runs created_threads_def)
  then show ?thesis unfolding reachable_def by blast
qed

lemma reachable_step: "reachable s \<Longrightarrow> thread_step s s' \<Longrightarrow> reachable s'"
  unfolding reachable_def by (blast intro: rtranclp.rtrancl_into_rtrancl)

lemma sample_threads_reachable: "reachable sample_threads"
proof (rule reachable_step [OF created_threads_reachable])
  show "thread_step created_threads sample_threads"
    by (rule thread_step.Resume [of 1 _ 7 "fst (resume 1 7 created_threads)"])
      (simp_all add: sample_threads_def created_threads_eq)
qed

theorem one_thread_runs_witness: "\<exists>t th. current_vm_thread sample_threads = Some t \<and>
    live_threads sample_threads t = Some th \<and> thread_state th = kRunning"
  using one_thread_runs [OF sample_threads_reachable] by (simp add: sample_threads_eq)

text \<open>C34: what each call of the interface returns, in every reachable state: \<open>Resume\<close> throws
  exactly when some thread is running, \<open>Yield\<close> exactly when none is, \<open>Stop\<close> exactly when that
  thread is running, and destroying it aborts exactly then; nothing else goes wrong, and a call
  that throws has no effect.\<close>

theorem thread_interface_errors:
  assumes "reachable s" and "live_threads s t = Some th"
  shows "fst (resume t h s) = (if current_vm_thread s = None then Inr ()
      else Inl (RuntimeError ''VMThread does not support calling into another VMThread'')) \<and>
    fst (yield_thread k s) = (if current_vm_thread s \<noteq> None then Inr ()
      else Inl (RuntimeError ''attempting to yield when there is no VMThread'')) \<and>
    fst (stop t s) = (if thread_state th \<noteq> kRunning then Inr ()
      else Inl (RuntimeError ''attempting to stop a running VMThread'')) \<and>
    fst (destroy_thread t s) = (if thread_state th \<noteq> kRunning then Inr ()
      else Inl (Aborted ''VMThreads cannot be destroyed while running'')) \<and>
    (\<forall>m \<in> {resume t h, yield_thread k, stop t, destroy_thread t}. isl (fst (m s)) \<longrightarrow> snd (m s) = s)"
proof -
  have ok: "threads_ok s" using assms(1) by (rule reachable_ok)
  have resumed: "\<exists>s'. resume t h s = (Inr (), s')" if "current_vm_thread s = None"
  proof -
    have "resume_point th \<noteq> Zeroed" using resume_point_ok [OF ok that assms(2)] by auto
    from resume_runs [OF that assms(2) this] show ?thesis by simp
  qed
  have yielded: "\<exists>s'. yield_thread k s = (Inr (), s')" if "current_vm_thread s = Some u" for u
    using yield_runs [OF that] threads_ok_current [OF ok that] by metis
  have "fst (resume t h s) = (if current_vm_thread s = None then Inr ()
      else Inl (RuntimeError ''VMThread does not support calling into another VMThread'')) \<and>
    (isl (fst (resume t h s)) \<longrightarrow> snd (resume t h s) = s)"
    using resumed by (auto simp: resume_refused)
  moreover have "fst (yield_thread k s) = (if current_vm_thread s \<noteq> None then Inr ()
      else Inl (RuntimeError ''attempting to yield when there is no VMThread'')) \<and>
    (isl (fst (yield_thread k s)) \<longrightarrow> snd (yield_thread k s) = s)"
    using yielded by (auto simp: yield_refused)
  ultimately show ?thesis
    using threads_okD(1) [OF ok assms(2)]
    by (auto simp: stop_runs [OF assms(2)] destroy_runs [OF assms(2)])
qed

theorem thread_interface_errors_witness:
  "fst (resume 1 9 sample_threads) =
     Inl (RuntimeError ''VMThread does not support calling into another VMThread'')"
  using thread_interface_errors [OF sample_threads_reachable, of 1 _ 9] by (simp add: sample_threads_eq)

text \<open>A switch away and back. The host, at \<open>h\<close>, resumes a thread; when the thread yields, at
  \<open>k\<close>, the host continues at \<open>h\<close>; and when the host, whatever it did meanwhile with other
  threads, resumes the thread again, the thread continues at \<open>k\<close>. If it stops the thread first,
  the thread starts anew.\<close>

theorem resume_yield_resume:
  assumes "reachable s" and "current_vm_thread s = None" and "live_threads s t = Some th"
    and s1: "resume t h s = (Inr (), s1)"
    and s2: "current_vm_thread s2 = Some t" "live_threads s2 t = live_threads s1 t"
      "yield_thread k s2 = (Inr (), s3)"
    and s4: "current_vm_thread s4 = None" "live_threads s4 t = live_threads s3 t"
  shows "control s1 = Thread (if thread_state th = kStopped then Entry else my_thread_state th) \<and>
    control s3 = Host h \<and> current_vm_thread s3 = None \<and>
    control (snd (resume t h' s4)) = Thread (Point k) \<and>
    control (snd (resume t h' (snd (stop t s4)))) = Thread Entry"
proof -
  have "resume_point th \<noteq> Zeroed"
    using resume_point_ok [OF reachable_ok [OF assms(1)] assms(2,3)] by auto
  note 1 = resume_runs [OF assms(2,3) this, of h]
  let ?th = "th\<lparr>thread_state := kRunning, my_thread_state := resume_point th, main_thread_state := Some h\<rparr>"
  have live: "live_threads s2 t = Some ?th" using s2(2) s1 1 by auto
  note 2 = yield_runs [OF s2(1) live, of h k]
  let ?th' = "?th\<lparr>thread_state := kSuspended, my_thread_state := Point k\<rparr>"
  have live': "live_threads s4 t = Some ?th'" using s4(2) s2(3) 2 by auto
  have "control s1 = Thread (if thread_state th = kStopped then Entry else my_thread_state th)"
    using s1 1 by (auto simp: resume_point_def)
  moreover have "control s3 = Host h" "current_vm_thread s3 = None" using s2(3) 2 by auto
  moreover have "control (snd (resume t h' s4)) = Thread (Point k)"
    using resume_runs [OF s4(1) live'] by (simp add: resume_point_def)
  moreover have "control (snd (resume t h' (snd (stop t s4)))) = Thread Entry"
    using s4(1) by (simp add: stop_runs [OF live'] resume_runs resume_point_def)
  ultimately show ?thesis by blast
qed

theorem resume_yield_resume_witness:
  "let s = created_threads; s3 = snd (yield_thread 41 (snd (resume 1 7 s)))
   in control s3 = Host 7 \<and> control (snd (resume 1 8 s3)) = Thread (Point 41)"
proof -
  let ?s3 = "snd (yield_thread 41 sample_threads)"
  have "current_vm_thread created_threads = None" "live_threads created_threads 1 = Some (new_vm_thread 40)"
    by (simp_all add: created_threads_eq)
  moreover have "resume 1 7 created_threads = (Inr (), sample_threads)"
    using resume_runs [OF calculation, of 7]
    by (simp add: sample_threads_def resume_point_def new_vm_thread_def)
  moreover have "current_vm_thread sample_threads = Some 1"
    "yield_thread 41 sample_threads = (Inr (), ?s3)" "current_vm_thread ?s3 = None"
    by (simp_all add: sample_threads_eq yield_runs)
  ultimately have "control ?s3 = Host 7 \<and> control (snd (resume 1 8 ?s3)) = Thread (Point 41)"
    using resume_yield_resume [OF created_threads_reachable, of 1 _ 7 sample_threads sample_threads 41 ?s3 ?s3 8]
    by blast
  then show ?thesis by (simp add: sample_threads_def Let_def)
qed

end
