(* ===== verification/Context_Switch.thy ===== *)
theory Context_Switch
  imports Machine
begin

text \<open>
  The stack switch of the VM threads: the assembly routines WasmccSwitch and WasmccWrapMain and
  the initial thread state, of runtime/thread/thread_x64.cc and runtime/thread/thread_arm64.cc.
  The routines are lists of instructions; an instruction knows its size in bytes, because the
  x86-64 routine computes the address at which a thread resumes from the program counter.
\<close>

section \<open>Memory in slots of eight bytes\<close>

lemma join_words: "ucast (ucast (v :: u64) :: u32) OR push_bit 32 (ucast (ucast (drop_bit 32 v) :: u32)) = v"
  apply (rule bit_word_eqI)
  subgoal for n by (cases "n < 32") (auto simp: bit_simps)
  done

text \<open>Two addresses whose eight bytes do not overlap.\<close>

definition clear_of :: "u64 \<Rightarrow> u64 \<Rightarrow> bool" where
  "clear_of a b \<longleftrightarrow> (\<forall>i < 8. \<forall>j < 8. a + of_nat i \<noteq> b + of_nat j)"

lemma of_nat_u64_eq: "x < 2 ^ 32 \<Longrightarrow> y < 2 ^ 32 \<Longrightarrow> of_nat x = (of_nat y :: u64) \<Longrightarrow> x = y"
proof -
  assume "x < 2 ^ 32" "y < 2 ^ 32" and eq: "of_nat x = (of_nat y :: u64)"
  then have x: "x < 2 ^ 64" and y: "y < 2 ^ 64" by simp_all
  from arg_cong [OF eq, of unat] show ?thesis
    unfolding unat_of_nat_u64 [OF x] unat_of_nat_u64 [OF y] .
qed

lemma store64_byte: "(\<And>i. i < 8 \<Longrightarrow> a + of_nat i \<noteq> b) \<Longrightarrow> store64 a v m b = m b"
proof -
  assume "\<And>i. i < 8 \<Longrightarrow> a + of_nat i \<noteq> b"
  from this [of 0] this [of 1] this [of 2] this [of 3] this [of 4] this [of 5] this [of 6] this [of 7]
  show ?thesis by (simp add: store64_def store32_def add.assoc)
qed

lemma load64_cong: "(\<And>j. j < 8 \<Longrightarrow> m (b + of_nat j) = m' (b + of_nat j)) \<Longrightarrow> load64 m b = load64 m' b"
proof -
  assume "\<And>j. j < 8 \<Longrightarrow> m (b + of_nat j) = m' (b + of_nat j)"
  from this [of 0] this [of 1] this [of 2] this [of 3] this [of 4] this [of 5] this [of 6] this [of 7]
  show ?thesis by (simp add: load64_def load32_def add.assoc)
qed

lemma load64_store64_clear: "clear_of a b \<Longrightarrow> load64 (store64 a v m) b = load64 m b"
  by (rule load64_cong, rule store64_byte) (simp add: clear_of_def)

lemma load64_store64 [simp]: "load64 (store64 a v m) a = v"
proof -
  have "apart 4 0" by (simp add: apart_def)
  from load32_store32_apart [OF this, of a] show ?thesis
    by (simp add: load64_def store64_def join_words)
qed

text \<open>A block of \<open>n\<close> slots, and two blocks that do not overlap.\<close>

definition slot :: "u64 \<Rightarrow> nat \<Rightarrow> u64" where
  "slot a i = a + of_nat (8 * i)"

definition separate :: "nat \<Rightarrow> u64 \<Rightarrow> u64 \<Rightarrow> bool" where
  "separate n a b \<longleftrightarrow> 8 * n \<le> unat (b - a) \<and> 8 * n \<le> unat (a - b)"

lemma slot_clear:
  assumes "i \<noteq> j" and "i < 2 ^ 16" and "j < 2 ^ 16"
  shows "clear_of (slot a i) (slot a j)"
  unfolding clear_of_def
proof (intro allI impI notI)
  fix k l :: nat assume k: "k < 8" "l < 8" and "slot a i + of_nat k = slot a j + of_nat l"
  then have "of_nat (8 * i + k) = (of_nat (8 * j + l) :: u64)" by (simp add: slot_def)
  then have "8 * i + k = 8 * j + l" by (rule of_nat_u64_eq [rotated 2]) (use assms k in simp_all)
  with k assms(1) show False by linarith
qed

lemma blocks_apart:
  assumes "p \<le> unat (b - a)" and "q \<le> unat (a - b)" and "i < p" and "j < q"
  shows "a + of_nat i \<noteq> (b :: u64) + of_nat j"
proof
  assume eq: "a + of_nat i = b + of_nat j"
  have near: "unat (y - x) = k - l" if "x + of_nat k = y + of_nat l" "l \<le> k" "k < 2 ^ 64"
    for x y :: u64 and k l :: nat
  proof -
    have "y - x = of_nat (k - l)" using that by (simp add: of_nat_diff algebra_simps)
    moreover have "k - l < 2 ^ 64" using that(3) by simp
    ultimately show ?thesis by (simp only: unat_of_nat_u64)
  qed
  have "unat x < 2 ^ LENGTH(64)" for x :: u64 by (rule unsigned_less)
  from this [of "b - a"] this [of "a - b"] assms have "i < 2 ^ 64" "j < 2 ^ 64" by simp_all
  with near [OF eq] near [OF eq [symmetric]] assms show False
    by (cases "j \<le> i") auto
qed

lemma separate_clear:
  assumes "separate n a b" and "i < n" and "j < n"
  shows "clear_of (slot a i) (slot b j)"
  unfolding clear_of_def
proof (intro allI impI)
  fix k l :: nat assume k: "k < 8" "l < 8"
  have "a + of_nat (8 * i + k) \<noteq> b + of_nat (8 * j + l)"
    by (rule blocks_apart [of "8 * n" _ _ "8 * n"]) (use assms k in \<open>simp_all add: separate_def\<close>)
  then show "slot a i + of_nat k \<noteq> slot b j + of_nat l" by (simp add: slot_def add.assoc)
qed

lemma load64_other_slot:
  "i \<noteq> j \<Longrightarrow> i < 2 ^ 16 \<Longrightarrow> j < 2 ^ 16 \<Longrightarrow>
     load64 (store64 (slot a i) v m) (slot a j) = load64 m (slot a j)"
  by (rule load64_store64_clear) (rule slot_clear)

lemma load64_other_block:
  "separate n a b \<Longrightarrow> i < n \<Longrightarrow> j < n \<Longrightarrow>
     load64 (store64 (slot a i) v m) (slot b j) = load64 m (slot b j)"
  by (rule load64_store64_clear) (rule separate_clear)

text \<open>Storing values into slots one after the other.\<close>

definition store_slots :: "u64 \<Rightarrow> (nat \<times> u64) list \<Rightarrow> (u64 \<Rightarrow> u8) \<Rightarrow> (u64 \<Rightarrow> u8)" where
  "store_slots a vs m = fold (\<lambda>(i, v). store64 (slot a i) v) vs m"

lemma store_slots_simps [simp]:
  "store_slots a [] m = m"
  "store_slots a ((i, v) # vs) m = store_slots a vs (store64 (slot a i) v m)"
  by (simp_all add: store_slots_def)

lemma load_store_slots_none:
  "j \<notin> fst ` set vs \<Longrightarrow> list_all (\<lambda>(i, v). i < 2 ^ 16) vs \<Longrightarrow> j < 2 ^ 16 \<Longrightarrow>
     load64 (store_slots a vs m) (slot a j) = load64 m (slot a j)"
  by (induction vs arbitrary: m) (auto simp: load64_other_slot)

lemma load_store_slots:
  "(j, v) \<in> set vs \<Longrightarrow> distinct (map fst vs) \<Longrightarrow> list_all (\<lambda>(i, v). i < 2 ^ 16) vs \<Longrightarrow>
     load64 (store_slots a vs m) (slot a j) = v"
proof (induction vs arbitrary: m)
  case (Cons w vs)
  obtain i x where w: "w = (i, x)" by fastforce
  show ?case
  proof (cases "(j, v) = w")
    case True
    with Cons.prems w load_store_slots_none [of j vs a] show ?thesis by auto
  next
    case False
    with Cons w show ?thesis by auto
  qed
qed simp

lemma load_store_slots_other:
  "separate n a b \<Longrightarrow> list_all (\<lambda>(i, v). i < n) vs \<Longrightarrow> j < n \<Longrightarrow>
     load64 (store_slots a vs m) (slot b j) = load64 m (slot b j)"
  by (induction vs arbitrary: m) (auto simp: load64_other_block)

section \<open>x86-64\<close>

text \<open>The instructions of the routines, in the order of the assembler's operands: source first.\<close>

datatype x64_asm =
    LeaRip nat nat        \<comment> \<open>\<open>leaq d(%rip), %r\<close>\<close>
  | MovToMem nat nat nat  \<comment> \<open>\<open>movq %r, d(%b)\<close>\<close>
  | MovFromMem nat nat nat \<comment> \<open>\<open>movq d(%b), %r\<close>\<close>
  | MovReg nat nat        \<comment> \<open>\<open>movq %s, %r\<close>\<close>
  | JmpMem nat            \<comment> \<open>\<open>jmpq *(%b)\<close>\<close>
  | JmpReg nat            \<comment> \<open>\<open>jmpq *%r\<close>\<close>
  | RetQ

text \<open>Sizes of the encodings; memory operands here have an 8-bit displacement or none, on a base
  that needs no further byte.\<close>

fun x64_asm_size :: "x64_asm \<Rightarrow> nat" where
  "x64_asm_size (LeaRip d r) = 7"
| "x64_asm_size (MovToMem r d b) = (if d = 0 then 3 else 4)"
| "x64_asm_size (MovFromMem d b r) = (if d = 0 then 3 else 4)"
| "x64_asm_size (MovReg q r) = 3"
| "x64_asm_size (JmpMem b) = 2"
| "x64_asm_size (JmpReg r) = (if r < 8 then 2 else 3)"
| "x64_asm_size RetQ = 1"

text \<open>Beside the machine of the generated code: the program counter and the low halves of the vector
  registers, which the AArch64 routine saves.\<close>

record cpu = machine +
  pc :: u64
  vec :: "nat \<Rightarrow> u64"

fun x64_asm_step :: "x64_asm \<Rightarrow> cpu \<Rightarrow> cpu" where
  "x64_asm_step (LeaRip d r) c = c\<lparr>regs := (regs c)(r := pc c + of_nat d)\<rparr>"
| "x64_asm_step (MovToMem r d b) c = c\<lparr>mem := store64 (regs c b + of_nat d) (regs c r) (mem c)\<rparr>"
| "x64_asm_step (MovFromMem d b r) c = c\<lparr>regs := (regs c)(r := load64 (mem c) (regs c b + of_nat d))\<rparr>"
| "x64_asm_step (MovReg q r) c = c\<lparr>regs := (regs c)(r := regs c q)\<rparr>"
| "x64_asm_step (JmpMem b) c = c\<lparr>pc := load64 (mem c) (regs c b)\<rparr>"
| "x64_asm_step (JmpReg r) c = c\<lparr>pc := regs c r\<rparr>"
| "x64_asm_step RetQ c = c\<lparr>pc := load64 (mem c) (regs c 4), regs := (regs c)(4 := regs c 4 + 8)\<rparr>"

fun x64_asm_jumps :: "x64_asm \<Rightarrow> bool" where
  "x64_asm_jumps (JmpMem b) = True"
| "x64_asm_jumps (JmpReg r) = True"
| "x64_asm_jumps RetQ = True"
| "x64_asm_jumps _ = False"

text \<open>A routine from its first instruction to its first jump; the program counter is past an
  instruction when it executes.\<close>

fun x64_run :: "x64_asm list \<Rightarrow> cpu \<Rightarrow> cpu" where
  "x64_run [] c = c"
| "x64_run (i # is) c =
     (let c' = x64_asm_step i (c\<lparr>pc := pc c + of_nat (x64_asm_size i)\<rparr>)
      in if x64_asm_jumps i then c' else x64_run is c')"

definition x64_switch :: "x64_asm list" where
  "x64_switch =
     [LeaRip 0x3d 0,
      MovToMem 0 0 7,
      MovToMem 4 8 7,
      MovToMem 5 16 7,
      MovToMem 3 24 7,
      MovToMem 12 32 7,
      MovToMem 13 40 7,
      MovToMem 14 48 7,
      MovToMem 15 56 7,
      MovFromMem 56 6 15,
      MovFromMem 48 6 14,
      MovFromMem 40 6 13,
      MovFromMem 32 6 12,
      MovFromMem 24 6 3,
      MovFromMem 16 6 5,
      MovFromMem 8 6 4,
      JmpMem 6,
      RetQ]"

definition x64_wrap_main :: "x64_asm list" where
  "x64_wrap_main = [MovReg 13 7, JmpReg 12]"

text \<open>The fields of \<open>ThreadStack\<close>, eight bytes each, and the registers that they hold.\<close>

definition x64_thread_stack :: "nat list" where
  "x64_thread_stack = [4, 5, 3, 12, 13, 14, 15]"

text \<open>The address of the routine's last instruction, where a suspended thread resumes.\<close>

definition x64_resume_pc :: "cpu \<Rightarrow> u64" where
  "x64_resume_pc c = pc c + of_nat (sum_list (map x64_asm_size (butlast x64_switch)))"

lemma x64_resume_pc_eq: "x64_resume_pc c = 68 + pc c"
  by (simp add: x64_resume_pc_def x64_switch_def)

definition x64_saved :: "cpu \<Rightarrow> (nat \<times> u64) list" where
  "x64_saved c = enumerate 0 (x64_resume_pc c # map (regs c) x64_thread_stack)"

lemma x64_switch_mem: "mem (x64_run x64_switch c) = store_slots (regs c 7) (x64_saved c) (mem c)"
  by (simp add: x64_switch_def x64_saved_def x64_thread_stack_def slot_def x64_resume_pc_eq Let_def)

lemma x64_switch_loads:
  "map (regs (x64_run x64_switch c)) x64_thread_stack =
     map (\<lambda>i. load64 (mem (x64_run x64_switch c)) (slot (regs c 6) i)) [1..<8]"
  "pc (x64_run x64_switch c) = load64 (mem (x64_run x64_switch c)) (slot (regs c 6) 0)"
  by (simp_all add: x64_switch_def x64_thread_stack_def slot_def Let_def upt_rec)

lemma x64_saved_slots: "list_all (\<lambda>(i, v). i < 8) (x64_saved c)" "distinct (map fst (x64_saved c))"
  by (simp_all add: x64_saved_def x64_thread_stack_def)

lemma x64_switch_target:
  assumes "separate 8 (regs c 7) (regs c 6)" and "j < 8"
  shows "load64 (mem (x64_run x64_switch c)) (slot (regs c 6) j) = load64 (mem c) (slot (regs c 6) j)"
  unfolding x64_switch_mem
  by (rule load_store_slots_other [OF assms(1) x64_saved_slots(1) assms(2)])

lemma x64_switch_source:
  "(j, v) \<in> set (x64_saved c) \<Longrightarrow> load64 (mem (x64_run x64_switch c)) (slot (regs c 7) j) = v"
  unfolding x64_switch_mem
  by (rule load_store_slots) (use x64_saved_slots [of c] in \<open>auto simp: list_all_iff\<close>)

text \<open>What the routine loads, with the first field of the structure in the program counter.\<close>

lemma x64_switch_restores:
  assumes "separate 8 (regs c 7) (regs c 6)"
    and "\<And>i v. (i, v) \<in> set (x64_saved c0) \<Longrightarrow> load64 (mem c) (slot (regs c 6) i) = v"
  shows "pc (x64_run x64_switch c) = x64_resume_pc c0"
    and "map (regs (x64_run x64_switch c)) x64_thread_stack = map (regs c0) x64_thread_stack"
proof -
  note t = x64_switch_target [OF assms(1)]
  show "pc (x64_run x64_switch c) = x64_resume_pc c0"
    unfolding x64_switch_loads(2) by (simp add: t assms(2) x64_saved_def)
  have "load64 (mem c) (slot (regs c 6) i) = map (regs c0) x64_thread_stack ! (i - 1)" if "i \<in> set [1..<8]" for i
    using that by (intro assms(2)) (auto simp: x64_saved_def in_set_enumerate_eq x64_thread_stack_def nth_Cons')
  then have "map (\<lambda>i. load64 (mem (x64_run x64_switch c)) (slot (regs c 6) i)) [1..<8] =
      map (\<lambda>i. map (regs c0) x64_thread_stack ! (i - 1)) [1..<8]"
    by (intro map_cong refl) (auto simp: t)
  also have "\<dots> = map (regs c0) x64_thread_stack"
    by (simp add: x64_thread_stack_def upt_rec)
  finally show "map (regs (x64_run x64_switch c)) x64_thread_stack = map (regs c0) x64_thread_stack"
    unfolding x64_switch_loads(1) .
qed

text \<open>On x86-64 a switch away and back is invisible to the code that made it. \<open>WasmccSwitch\<close> is
  called in the state \<open>c\<close> with its own structure in \<open>rdi\<close>; whatever happens meanwhile, when any
  code calls it with that structure, unchanged, in \<open>rsi\<close>, control continues at the routine's
  \<open>ret\<close> with the stack pointer and every register that the calling convention makes the callee
  save as they were, and the \<open>ret\<close> takes the return address of the first call.\<close>

theorem x64_switch_round_trip:
  assumes "\<forall>i < 8. load64 (mem c2) (slot (regs c 7) i) =
      load64 (mem (x64_run x64_switch c)) (slot (regs c 7) i)"
    and "regs c2 6 = regs c 7" and "separate 8 (regs c2 7) (regs c2 6)"
  shows "let c3 = x64_run x64_switch c2; c4 = x64_asm_step RetQ c3 in
    pc c3 = x64_resume_pc c \<and> regs c3 4 = regs c 4 \<and>
    (\<forall>r. mask_test r (kGpCalleeSavedRegisters x64_cc) \<longrightarrow> regs c3 r = regs c r) \<and>
    pc c4 = load64 (mem c3) (regs c 4)"
proof -
  have "load64 (mem c2) (slot (regs c2 6) i) = v" if "(i, v) \<in> set (x64_saved c)" for i v
  proof -
    have "i < 8" using that x64_saved_slots(1) [of c] by (auto simp: list_all_iff)
    with assms(1,2) x64_switch_source [OF that] show ?thesis by simp
  qed
  note r = x64_switch_restores [OF assms(3) this]
  have all: "regs (x64_run x64_switch c2) r = regs c r" if "r \<in> set x64_thread_stack" for r
    using r(2) that by simp
  have "r \<in> set x64_thread_stack" if "mask_test r (kGpCalleeSavedRegisters x64_cc)" for r
    using that by (auto simp: x64_cc_def mask_test_of x64_thread_stack_def)
  with all r(1) show ?thesis by (simp add: Let_def x64_thread_stack_def)
qed

definition sample_cpu :: cpu where
  "sample_cpu = \<lparr>regs = (\<lambda>r. 0x100 * of_nat r)(7 := 0x1000, 6 := 0x2000), mem = (\<lambda>_. 0), carry = False,
     pc = 0x400000, vec = (\<lambda>_. 0)\<rparr>"

theorem x64_switch_round_trip_witness:
  "let c2 = (x64_run x64_switch sample_cpu)\<lparr>regs := (\<lambda>_. 7)(7 := 0x2000, 6 := 0x1000)\<rparr>;
       c3 = x64_run x64_switch c2
   in pc c3 = 0x400044 \<and> regs c3 4 = 0x400 \<and> regs c3 12 = 0xC00"
proof -
  let ?c2 = "(x64_run x64_switch sample_cpu)\<lparr>regs := (\<lambda>_. 7)(7 := 0x2000, 6 := 0x1000)\<rparr>"
  have "regs ?c2 6 = regs sample_cpu 7" and "separate 8 (regs ?c2 7) (regs ?c2 6)"
    and "mask_test 12 (kGpCalleeSavedRegisters x64_cc)"
    by (simp_all add: sample_cpu_def separate_def x64_cc_def mask_test_of)
  then show ?thesis
    using x64_switch_round_trip [of ?c2 sample_cpu]
    by (simp add: Let_def x64_resume_pc_eq) (simp add: sample_cpu_def)
qed

text \<open>The initial state of a thread. \<open>wrap_main\<close> and \<open>start\<close> are the addresses of
  \<open>WasmccWrapMain\<close> and \<open>VMThreadStart\<close>.\<close>

definition kRedZoneSize :: u64 where
  "kRedZoneSize = 128"

definition kDummyReturnAddress :: u64 where
  "kDummyReturnAddress = 0xdeaddeaddeaddead"

definition x64_stack_high :: "u64 \<Rightarrow> u64 \<Rightarrow> u64" where
  "x64_stack_high stack_base stack_size = stack_base + (stack_size - kRedZoneSize) - 8"

definition x64_initialize ::
    "u64 \<Rightarrow> u64 \<Rightarrow> u64 \<Rightarrow> u64 \<Rightarrow> u64 \<Rightarrow> u64 \<Rightarrow> (u64 \<Rightarrow> u8) \<Rightarrow> (u64 \<Rightarrow> u8)" where
  "x64_initialize wrap_main start ts thread stack_base stack_size m =
     (let high = x64_stack_high stack_base stack_size
      in store_slots ts [(0, wrap_main), (1, high), (4, start), (5, thread)]
           (store64 high kDummyReturnAddress m))"

text \<open>A fresh thread starts in \<open>VMThreadStart\<close> on its own stack. After the initialisation,
  a switch into the thread runs \<open>WasmccWrapMain\<close>, which enters \<open>VMThreadStart\<close> with the thread as
  its first argument and the stack pointer inside the thread's stack, aligned as the calling
  convention wants it on the entry of a function (eight bytes off a multiple of 16).\<close>

theorem x64_thread_starts:
  assumes "mem c = x64_initialize wrap_main start (regs c 6) thread base sz m"
    and "separate 8 (regs c 7) (regs c 6)"
    and "16 dvd unat base" and "16 dvd unat sz" and "256 \<le> unat sz"
    and "unat base + unat sz \<le> 2 ^ 64"
  shows "let c1 = x64_run x64_switch c; c2 = x64_run x64_wrap_main c1 in
    pc c1 = wrap_main \<and> pc c2 = start \<and> regs c2 7 = thread \<and>
    unat (regs c2 4) mod 16 = 8 \<and> unat base < unat (regs c2 4) \<and> unat (regs c2 4) < unat base + unat sz"
proof -
  let ?high = "x64_stack_high base sz"
  have t: "load64 (mem (x64_run x64_switch c)) (slot (regs c 6) i) = v"
    if "(i, v) \<in> {(0, wrap_main), (1, ?high), (4, start), (5, thread)}" for i v
  proof -
    have "load64 (mem c) (slot (regs c 6) i) = v"
      unfolding assms(1) x64_initialize_def Let_def by (rule load_store_slots) (use that in auto)
    with x64_switch_target [OF assms(2), of i] that show ?thesis by auto
  qed
  have r: "pc (x64_run x64_switch c) = wrap_main" "regs (x64_run x64_switch c) 4 = ?high"
    "regs (x64_run x64_switch c) 12 = start" "regs (x64_run x64_switch c) 13 = thread"
    using x64_switch_loads [of c] by (simp_all add: t x64_thread_stack_def upt_rec)
  have "?high = of_nat (unat base + unat sz - 136)"
    using assms(5) by (simp add: x64_stack_high_def kRedZoneSize_def of_nat_diff)
  moreover have "unat base + unat sz - 136 < 2 ^ 64" using assms(5,6) by linarith
  ultimately have high: "unat ?high = unat base + unat sz - 136"
    by (simp only: unat_of_nat_u64)
  obtain k l where "unat base = 16 * k" and "unat sz = 16 * l"
    using assms(3,4) by (elim dvdE)
  moreover from this assms(5) have "16 * k + 16 * l - 136 = 8 + 16 * (k + l - 9)" by linarith
  ultimately have "(unat base + unat sz - 136) mod 16 = 8" by simp
  with r high assms(5) show ?thesis
    by (simp add: Let_def x64_wrap_main_def)
qed

theorem x64_thread_starts_witness:
  "let c = sample_cpu\<lparr>mem := x64_initialize 0x401000 0x402000 0x2000 0x9000 0x10000 0x10000 (\<lambda>_. 0)\<rparr>;
       c2 = x64_run x64_wrap_main (x64_run x64_switch c)
   in pc c2 = 0x402000 \<and> regs c2 7 = 0x9000"
proof -
  let ?c = "sample_cpu\<lparr>mem := x64_initialize 0x401000 0x402000 0x2000 0x9000 0x10000 0x10000 (\<lambda>_. 0)\<rparr>"
  have m: "mem ?c = x64_initialize 0x401000 0x402000 (regs ?c 6) 0x9000 0x10000 0x10000 (\<lambda>_. 0)"
    and s: "separate 8 (regs ?c 7) (regs ?c 6)"
    by (simp_all add: sample_cpu_def separate_def)
  from x64_thread_starts [OF m s] show ?thesis by (simp add: Let_def)
qed

section \<open>AArch64\<close>

text \<open>Instructions of four bytes. Register 31 is the stack pointer; \<open>StpD\<close> and \<open>LdpD\<close> move the low
  halves of vector registers.\<close>

datatype arm64_asm =
    Mov nat nat            \<comment> \<open>\<open>mov d, s\<close>\<close>
  | Stp nat nat nat nat    \<comment> \<open>\<open>stp xr, xs, [xb, #d]\<close>\<close>
  | StpD nat nat nat nat
  | Ldp nat nat nat nat
  | LdpD nat nat nat nat
  | BrReg nat              \<comment> \<open>\<open>br xr\<close>\<close>

fun arm64_asm_step :: "arm64_asm \<Rightarrow> cpu \<Rightarrow> cpu" where
  "arm64_asm_step (Mov d q) c = c\<lparr>regs := (regs c)(d := regs c q)\<rparr>"
| "arm64_asm_step (Stp r q b d) c =
     c\<lparr>mem := store64 (regs c b + of_nat (d + 8)) (regs c q) (store64 (regs c b + of_nat d) (regs c r) (mem c))\<rparr>"
| "arm64_asm_step (StpD r q b d) c =
     c\<lparr>mem := store64 (regs c b + of_nat (d + 8)) (vec c q) (store64 (regs c b + of_nat d) (vec c r) (mem c))\<rparr>"
| "arm64_asm_step (Ldp r q b d) c =
     c\<lparr>regs := (regs c)(r := load64 (mem c) (regs c b + of_nat d), q := load64 (mem c) (regs c b + of_nat (d + 8)))\<rparr>"
| "arm64_asm_step (LdpD r q b d) c =
     c\<lparr>vec := (vec c)(r := load64 (mem c) (regs c b + of_nat d), q := load64 (mem c) (regs c b + of_nat (d + 8)))\<rparr>"
| "arm64_asm_step (BrReg r) c = c\<lparr>pc := regs c r\<rparr>"

text \<open>The routines jump with their last instruction, which sets the program counter.\<close>

definition arm64_run :: "arm64_asm list \<Rightarrow> cpu \<Rightarrow> cpu" where
  "arm64_run is c = fold arm64_asm_step is c"

definition arm64_switch :: "arm64_asm list" where
  "arm64_switch =
     [Mov 10 31,
      Mov 11 30,
      Stp 19 20 0 (0 * 16),
      Stp 21 22 0 (1 * 16),
      StpD 8 9 0 (7 * 16),
      Stp 23 24 0 (2 * 16),
      StpD 10 11 0 (8 * 16),
      Stp 25 26 0 (3 * 16),
      StpD 12 13 0 (9 * 16),
      Stp 27 28 0 (4 * 16),
      StpD 14 15 0 (10 * 16),
      Stp 29 30 0 (5 * 16),
      Stp 10 11 0 (6 * 16),
      Ldp 19 20 1 (0 * 16),
      Ldp 21 22 1 (1 * 16),
      LdpD 8 9 1 (7 * 16),
      Ldp 23 24 1 (2 * 16),
      LdpD 10 11 1 (8 * 16),
      Ldp 25 26 1 (3 * 16),
      LdpD 12 13 1 (9 * 16),
      Ldp 27 28 1 (4 * 16),
      LdpD 14 15 1 (10 * 16),
      Ldp 29 30 1 (5 * 16),
      Ldp 10 11 1 (6 * 16),
      Mov 31 10,
      BrReg 11]"

definition arm64_wrap_main :: "arm64_asm list" where
  "arm64_wrap_main = [Mov 0 19, Mov 30 21, BrReg 20]"

text \<open>The fields of \<open>ThreadStack\<close>: \<open>x\<close> (x19 to x30), \<open>sp\<close>, \<open>lr\<close> and \<open>d\<close> (d8 to d15).\<close>

definition arm64_thread_stack :: "cpu \<Rightarrow> u64 list" where
  "arm64_thread_stack c = map (regs c) [19..<31] @ [regs c 31, regs c 30] @ map (vec c) [8..<16]"

text \<open>The order in which the routine stores the fields.\<close>

definition arm64_order :: "nat list" where
  "arm64_order = [0, 1, 2, 3, 14, 15, 4, 5, 16, 17, 6, 7, 18, 19, 8, 9, 20, 21, 10, 11, 12, 13]"

definition arm64_saved :: "cpu \<Rightarrow> (nat \<times> u64) list" where
  "arm64_saved c = map (\<lambda>i. (i, arm64_thread_stack c ! i)) arm64_order"

lemma arm64_thread_stack_list:
  "arm64_thread_stack c = [regs c 19, regs c 20, regs c 21, regs c 22, regs c 23, regs c 24, regs c 25,
     regs c 26, regs c 27, regs c 28, regs c 29, regs c 30, regs c 31, regs c 30, vec c 8, vec c 9,
     vec c 10, vec c 11, vec c 12, vec c 13, vec c 14, vec c 15]"
  by (simp add: arm64_thread_stack_def upt_rec)

lemma arm64_switch_mem: "mem (arm64_run arm64_switch c) = store_slots (regs c 0) (arm64_saved c) (mem c)"
  by (simp add: arm64_run_def arm64_switch_def arm64_saved_def arm64_order_def arm64_thread_stack_list slot_def)

text \<open>What it loads: the same fields, but \<open>lr\<close> goes to the program counter and to x11, and x30 is
  the last of \<open>x\<close>.\<close>

lemma arm64_switch_loads:
  "arm64_thread_stack (arm64_run arm64_switch c) =
     map (\<lambda>i. load64 (mem (arm64_run arm64_switch c)) (slot (regs c 1) (if i = 13 then 11 else i))) [0..<22]"
  "pc (arm64_run arm64_switch c) = load64 (mem (arm64_run arm64_switch c)) (slot (regs c 1) 13)"
  by (simp_all add: arm64_run_def arm64_switch_def arm64_thread_stack_list slot_def upt_rec)

lemma arm64_saved_slots:
  "list_all (\<lambda>(i, v). i < 22) (arm64_saved c)" "distinct (map fst (arm64_saved c))"
  by (simp_all add: arm64_saved_def arm64_order_def comp_def)

lemma arm64_saved_mem: "i < 22 \<Longrightarrow> (i, arm64_thread_stack c ! i) \<in> set (arm64_saved c)"
proof -
  have "list_all (\<lambda>i. i \<in> set arm64_order) [0..<22]" by code_simp
  then show "i < 22 \<Longrightarrow> (i, arm64_thread_stack c ! i) \<in> set (arm64_saved c)"
    by (auto simp: list_all_iff arm64_saved_def)
qed

lemma arm64_switch_target:
  assumes "separate 22 (regs c 0) (regs c 1)" and "j < 22"
  shows "load64 (mem (arm64_run arm64_switch c)) (slot (regs c 1) j) = load64 (mem c) (slot (regs c 1) j)"
  unfolding arm64_switch_mem
  by (rule load_store_slots_other [OF assms(1) arm64_saved_slots(1) assms(2)])

lemma arm64_switch_source:
  "i < 22 \<Longrightarrow> load64 (mem (arm64_run arm64_switch c)) (slot (regs c 0) i) = arm64_thread_stack c ! i"
  unfolding arm64_switch_mem
  by (rule load_store_slots [OF arm64_saved_mem arm64_saved_slots(2)])
    (use arm64_saved_slots(1) [of c] in \<open>auto simp: list_all_iff\<close>)

text \<open>On AArch64 a switch away and back is invisible as well: control continues at the return
  address of the first call, with the stack pointer, x19 to x30 and d8 to d15 as they were, which
  are all the registers that the calling convention makes the callee save.\<close>

theorem arm64_switch_round_trip:
  assumes "\<forall>i < 22. load64 (mem c2) (slot (regs c 0) i) =
      load64 (mem (arm64_run arm64_switch c)) (slot (regs c 0) i)"
    and "regs c2 1 = regs c 0" and "separate 22 (regs c2 0) (regs c2 1)"
  shows "let c3 = arm64_run arm64_switch c2 in
    pc c3 = regs c 30 \<and> regs c3 31 = regs c 31 \<and>
    (\<forall>r. mask_test r (kGpCalleeSavedRegisters arm64_cc) \<longrightarrow> regs c3 r = regs c r) \<and>
    (\<forall>r. mask_test r (kVecCalleeSavedRegisters arm64_cc) \<longrightarrow> vec c3 r = vec c r)"
proof -
  let ?c3 = "arm64_run arm64_switch c2"
  have saved: "load64 (mem ?c3) (slot (regs c2 1) i) = arm64_thread_stack c ! i" if "i < 22" for i
    using arm64_switch_target [OF assms(3) that] arm64_switch_source [OF that, of c] assms(1,2) that
    by simp
  have "arm64_thread_stack ?c3 = map (\<lambda>i. arm64_thread_stack c ! (if i = 13 then 11 else i)) [0..<22]"
    unfolding arm64_switch_loads(1) by (intro map_cong refl saved) auto
  also have "\<dots> = arm64_thread_stack c"
    by (simp add: arm64_thread_stack_list upt_rec)
  finally have all: "arm64_thread_stack ?c3 = arm64_thread_stack c" .
  have "pc ?c3 = regs c 30"
    unfolding arm64_switch_loads(2) using saved [of 13] by (simp add: arm64_thread_stack_list)
  with all show ?thesis
    by (auto simp: Let_def arm64_thread_stack_list arm64_cc_def mask_test_of)
qed

theorem arm64_switch_round_trip_witness:
  "let c = sample_cpu\<lparr>regs := (\<lambda>r. 0x100 * of_nat r)(0 := 0x1000, 1 := 0x2000)\<rparr>;
       c2 = (arm64_run arm64_switch c)\<lparr>regs := (\<lambda>_. 7)(0 := 0x2000, 1 := 0x1000)\<rparr>;
       c3 = arm64_run arm64_switch c2
   in pc c3 = 0x1E00 \<and> regs c3 31 = 0x1F00 \<and> regs c3 19 = 0x1300"
proof -
  let ?c = "sample_cpu\<lparr>regs := (\<lambda>r. 0x100 * of_nat r)(0 := 0x1000, 1 := 0x2000)\<rparr>"
  let ?c2 = "(arm64_run arm64_switch ?c)\<lparr>regs := (\<lambda>_. 7)(0 := 0x2000, 1 := 0x1000)\<rparr>"
  have "regs ?c2 1 = regs ?c 0" and "separate 22 (regs ?c2 0) (regs ?c2 1)"
    and "mask_test 19 (kGpCalleeSavedRegisters arm64_cc)"
    by (simp_all add: separate_def arm64_cc_def mask_test_of)
  then show ?thesis
    using arm64_switch_round_trip [of ?c2 ?c] by (simp add: Let_def)
qed

definition arm64_initialize ::
    "u64 \<Rightarrow> u64 \<Rightarrow> u64 \<Rightarrow> u64 \<Rightarrow> u64 \<Rightarrow> u64 \<Rightarrow> (u64 \<Rightarrow> u8) \<Rightarrow> (u64 \<Rightarrow> u8)" where
  "arm64_initialize wrap_main start ts thread stack_base stack_size m =
     store_slots ts [(0, thread), (1, start), (2, kDummyReturnAddress),
       (12, stack_base + stack_size), (13, wrap_main)] m"

text \<open>A fresh thread starts in \<open>VMThreadStart\<close> on AArch64: with the thread as its first
  argument, the stack pointer at the end of the thread's stack (aligned to 16 bytes as it must
  always be there), and a return address that is no code.\<close>

theorem arm64_thread_starts:
  assumes "mem c = arm64_initialize wrap_main start (regs c 1) thread base sz m"
    and "separate 22 (regs c 0) (regs c 1)" and "16 dvd unat base" and "16 dvd unat sz"
    and "unat base + unat sz < 2 ^ 64"
  shows "let c1 = arm64_run arm64_switch c; c2 = arm64_run arm64_wrap_main c1 in
    pc c1 = wrap_main \<and> pc c2 = start \<and> regs c2 0 = thread \<and> regs c2 30 = kDummyReturnAddress \<and>
    unat (regs c2 31) = unat base + unat sz \<and> 16 dvd unat (regs c2 31)"
proof -
  let ?c1 = "arm64_run arm64_switch c"
  have t: "load64 (mem ?c1) (slot (regs c 1) i) = v"
    if "(i, v) \<in> {(0, thread), (1, start), (2, kDummyReturnAddress), (12, base + sz), (13, wrap_main)}" for i v
  proof -
    have "load64 (mem c) (slot (regs c 1) i) = v"
      unfolding assms(1) arm64_initialize_def by (rule load_store_slots) (use that in auto)
    with arm64_switch_target [OF assms(2), of i] that show ?thesis by auto
  qed
  have "arm64_thread_stack ?c1 ! i = load64 (mem ?c1) (slot (regs c 1) i)" if "i < 22" "i \<noteq> 13" for i
    unfolding arm64_switch_loads(1) using that by simp
  from this [of 0] this [of 1] this [of 2] this [of 12]
    t [of 0 thread] t [of 1 start] t [of 2 kDummyReturnAddress] t [of 12 "base + sz"] t [of 13 wrap_main]
  have "regs ?c1 19 = thread" "regs ?c1 20 = start" "regs ?c1 21 = kDummyReturnAddress"
    "regs ?c1 31 = base + sz" "pc ?c1 = wrap_main"
    unfolding arm64_switch_loads(2) by (simp_all add: arm64_thread_stack_list)
  moreover have "unat (base + sz) = unat base + unat sz"
    using assms(5) by (simp add: unat_plus_if_size word_size)
  ultimately show ?thesis
    using assms(3,4) by (simp add: Let_def arm64_run_def arm64_wrap_main_def)
qed

theorem arm64_thread_starts_witness:
  "let c = sample_cpu\<lparr>regs := (\<lambda>_. 0)(0 := 0x1000, 1 := 0x2000),
         mem := arm64_initialize 0x401000 0x402000 0x2000 0x9000 0x10000 0x10000 (\<lambda>_. 0)\<rparr>;
       c2 = arm64_run arm64_wrap_main (arm64_run arm64_switch c)
   in pc c2 = 0x402000 \<and> unat (regs c2 31) = 0x20000"
proof -
  let ?c = "sample_cpu\<lparr>regs := (\<lambda>_. 0)(0 := 0x1000, 1 := 0x2000),
         mem := arm64_initialize 0x401000 0x402000 0x2000 0x9000 0x10000 0x10000 (\<lambda>_. 0)\<rparr>"
  have m: "mem ?c = arm64_initialize 0x401000 0x402000 (regs ?c 1) 0x9000 0x10000 0x10000 (\<lambda>_. 0)"
    and s: "separate 22 (regs ?c 0) (regs ?c 1)"
    by (simp_all add: separate_def)
  from arm64_thread_starts [OF m s] show ?thesis by (simp add: Let_def)
qed

end
