(* ===== verification/Thread_Memory.thy ===== *)
theory Thread_Memory
  imports Function_Frame
begin

text \<open>
  The memory of a VM thread's stack (\<open>VMThread::Create\<close> and the deleter of its stack, in
  runtime/thread/thread.cc). The operating system and the allocator are parameters: the page size,
  where \<open>aligned_alloc\<close> finds a block, and whether \<open>mprotect\<close> fails. An address is a natural
  number, since a block does not wrap around the address space.
\<close>

section \<open>The address space\<close>

datatype protection = ReadWrite | ReadOnly

record address_space =
  prot :: "nat \<Rightarrow> protection"
  blocks :: "nat \<rightharpoonup> nat"
  bytes :: "nat \<Rightarrow> u8"

record os =
  getpagesize :: u64
  find_block :: "u64 \<Rightarrow> u64 \<Rightarrow> address_space \<Rightarrow> nat option"
  mprotect_fails :: "nat \<Rightarrow> u64 \<Rightarrow> protection \<Rightarrow> address_space \<Rightarrow> bool"

type_synonym 'a memory_op = "(address_space, 'a) op"

definition protect_range :: "nat \<Rightarrow> u64 \<Rightarrow> protection \<Rightarrow> address_space \<Rightarrow> address_space" where
  "protect_range a n q s = s\<lparr>prot := (\<lambda>x. if a \<le> x \<and> x < a + unat n then q else prot s x)\<rparr>"

text \<open>\<open>mprotect\<close> returns whether there was an error.\<close>

definition mprotect :: "os \<Rightarrow> nat \<Rightarrow> u64 \<Rightarrow> protection \<Rightarrow> bool memory_op" where
  "mprotect os a n q s =
     (if mprotect_fails os a n q s then (Inr True, s) else (Inr False, protect_range a n q s))"

definition memory_protect :: "os \<Rightarrow> nat \<Rightarrow> u64 \<Rightarrow> unit memory_op" where
  "memory_protect os a n =
     seq (mprotect os a n ReadOnly) (\<lambda>err.
     if err then throw (RuntimeError ''unable to protect stack guard page'') else ret ())"

definition memory_unprotect :: "os \<Rightarrow> nat \<Rightarrow> u64 \<Rightarrow> unit memory_op" where
  "memory_unprotect os a n =
     seq (mprotect os a n ReadWrite) (\<lambda>err.
     assert_that (\<not> err) ''unable to unprotect stack guard page'')"

lemma memory_protect_run:
  "memory_protect os a n s =
     (if mprotect_fails os a n ReadOnly s
      then (Inl (RuntimeError ''unable to protect stack guard page''), s)
      else (Inr (), protect_range a n ReadOnly s))"
  by (simp add: memory_protect_def mprotect_def seq_def)

lemma memory_unprotect_run:
  "memory_unprotect os a n s =
     (if mprotect_fails os a n ReadWrite s
      then (Inl (Aborted ''unable to unprotect stack guard page''), s)
      else (Inr (), protect_range a n ReadWrite s))"
  by (simp add: memory_unprotect_def mprotect_def seq_def)

text \<open>The code does not test for a null pointer, and adds the page size to it.\<close>

definition aligned_alloc :: "os \<Rightarrow> u64 \<Rightarrow> u64 \<Rightarrow> nat memory_op" where
  "aligned_alloc os alignment n s = (case find_block os alignment n s of
     None \<Rightarrow> (Inl (UndefinedBehaviour ''arithmetic on a null pointer''), s)
   | Some p \<Rightarrow> (Inr p, s\<lparr>blocks := (blocks s)(p \<mapsto> unat n)\<rparr>))"

definition free_block :: "nat \<Rightarrow> unit memory_op" where
  "free_block p s = (if p \<in> dom (blocks s) then (Inr (), s\<lparr>blocks := (blocks s)(p := None)\<rparr>)
     else (Inl (UndefinedBehaviour ''free of an address that was not allocated''), s))"

definition memset_zero :: "nat \<Rightarrow> u64 \<Rightarrow> unit memory_op" where
  "memset_zero a n = modify (\<lambda>s. s\<lparr>bytes := (\<lambda>x. if a \<le> x \<and> x < a + unat n then 0 else bytes s x)\<rparr>)"

section \<open>The stack of a thread\<close>

record thread_configuration =
  config_stack_size :: u64
  enable_guard_pages :: bool

definition default_configuration :: thread_configuration where
  "default_configuration = \<lparr>config_stack_size = 1024 * 64, enable_guard_pages = True\<rparr>"

definition kStackAlignment :: u64 where
  "kStackAlignment = 16"

text \<open>The deleter of the stack memory: \<open>std::free\<close>, or the lambda with what it captures.\<close>

datatype stack_deleter = StdFree | GuardedFree u64 u64

record stack_memory =
  stack_bottom :: nat
  stack_bytes :: u64
  deleter :: stack_deleter

definition stack_top :: "stack_memory \<Rightarrow> nat" where
  "stack_top m = stack_bottom m + unat (stack_bytes m)"

definition delete_stack :: "os \<Rightarrow> stack_memory \<Rightarrow> unit memory_op" where
  "delete_stack os m = (let p = stack_bottom m in
     case deleter m of
       StdFree \<Rightarrow> free_block p
     | GuardedFree aligned_stack_size page_size \<Rightarrow>
         seq (memory_unprotect os (p - unat page_size) page_size) (\<lambda>_.
         seq (memory_unprotect os (p + unat aligned_stack_size - unat page_size) page_size) (\<lambda>_.
         free_block (p - unat page_size))))"

text \<open>An exception destroys the local \<open>stack_mem\<close> on its way out.\<close>

definition unwinding :: "('s, unit) op \<Rightarrow> ('s, 'a) op \<Rightarrow> ('s, 'a) op" where
  "unwinding cleanup m s = (case m s of
     (Inl e, s') \<Rightarrow> seq cleanup (\<lambda>_. throw e) s'
   | (Inr x, s') \<Rightarrow> (Inr x, s'))"

definition create_stack :: "os \<Rightarrow> thread_configuration \<Rightarrow> stack_memory memory_op" where
  "create_stack os config =
     (if enable_guard_pages config then
        (let page_size = getpagesize os;
             aligned_stack_size = align_up (config_stack_size config) page_size;
             full_stack_size = aligned_stack_size + page_size * 2
         in seq (aligned_alloc os page_size full_stack_size) (\<lambda>p.
              let m = \<lparr>stack_bottom = p + unat page_size, stack_bytes = aligned_stack_size,
                       deleter = GuardedFree aligned_stack_size page_size\<rparr>
              in unwinding (delete_stack os m)
                   (seq (memory_protect os (stack_bottom m - unat page_size) page_size) (\<lambda>_.
                    seq (memory_protect os (stack_bottom m + unat aligned_stack_size) page_size) (\<lambda>_.
                    ret m)))))
      else
        (let aligned_stack_size = align_up (config_stack_size config) kStackAlignment
         in seq (aligned_alloc os kStackAlignment aligned_stack_size) (\<lambda>p.
            seq (memset_zero p aligned_stack_size) (\<lambda>_.
            ret \<lparr>stack_bottom = p, stack_bytes = aligned_stack_size, deleter = StdFree\<rparr>))))"

section \<open>Properties\<close>

text \<open>A stack with guard pages that was created: its block, and the protection that was set.\<close>

lemma unwinding_Inr: "unwinding c m s = (Inr x, s') \<longleftrightarrow> m s = (Inr x, s')"
  by (auto simp: unwinding_def seq_def split: prod.splits sum.splits)

lemma create_stack_guarded:
  assumes "create_stack os config s = (Inr m, s')" and "enable_guard_pages config"
  obtains p where "stack_bottom m = p + unat (getpagesize os)"
    and "stack_bytes m = align_up (config_stack_size config) (getpagesize os)"
    and "deleter m = GuardedFree (stack_bytes m) (getpagesize os)"
    and "find_block os (getpagesize os) (stack_bytes m + getpagesize os * 2) s = Some p"
    and "s' = protect_range (stack_top m) (getpagesize os) ReadOnly
      (protect_range p (getpagesize os) ReadOnly
        (s\<lparr>blocks := (blocks s)(p \<mapsto> unat (stack_bytes m + getpagesize os * 2))\<rparr>))"
  using assms
  by (auto simp: create_stack_def Let_def aligned_alloc_def memory_protect_run unwinding_Inr seq_Inr_iff
      stack_top_def split: option.splits if_splits)

text \<open>C35: a stack with guard pages is at least as large as asked for, and a whole number of pages;
  it is writable, the page below it and the page above it are not, and both belong to the block
  that was allocated for it.\<close>

theorem guard_pages_surround_stack:
  assumes "create_stack os config s = (Inr m, s')" and "enable_guard_pages config"
    and page: "getpagesize os = 2 ^ k" and "k < 62"
    and size: "unat (config_stack_size config) + 3 * 2 ^ k \<le> 2 ^ 64"
    and fresh: "\<And>p n x. find_block os (2 ^ k) n s = Some p \<Longrightarrow> p \<le> x \<Longrightarrow> x < p + unat n \<Longrightarrow> prot s x = ReadWrite"
  shows "unat (config_stack_size config) \<le> unat (stack_bytes m) \<and> 2 ^ k dvd unat (stack_bytes m) \<and>
    (\<forall>x. stack_bottom m \<le> x \<and> x < stack_top m \<longrightarrow> prot s' x = ReadWrite) \<and>
    (\<forall>x. stack_bottom m - 2 ^ k \<le> x \<and> x < stack_bottom m \<longrightarrow> prot s' x = ReadOnly) \<and>
    (\<forall>x. stack_top m \<le> x \<and> x < stack_top m + 2 ^ k \<longrightarrow> prot s' x = ReadOnly) \<and>
    blocks s' (stack_bottom m - 2 ^ k) = Some (unat (stack_bytes m) + 2 * 2 ^ k)"
proof -
  have pg: "unat (getpagesize os) = 2 ^ k"
  proof -
    have "(2 :: nat) ^ k < 2 ^ 64" using assms(4) by (intro power_strict_increasing) simp_all
    from unat_of_nat_u64 [OF this] show ?thesis by (simp add: page)
  qed
  from assms(1,2) obtain p where m: "stack_bottom m = p + 2 ^ k"
    "stack_bytes m = align_up (config_stack_size config) (2 ^ k)"
    and p: "find_block os (2 ^ k) (stack_bytes m + 2 ^ k * 2) s = Some p"
    and s': "s' = protect_range (stack_top m) (2 ^ k) ReadOnly (protect_range p (2 ^ k) ReadOnly
        (s\<lparr>blocks := (blocks s)(p \<mapsto> unat (stack_bytes m + 2 ^ k * 2))\<rparr>))"
    by (rule create_stack_guarded) (use pg page in simp)
  note pg' = pg [unfolded page]
  have pos: "(0 :: nat) < 2 ^ k" by simp
  with size have bound: "unat (config_stack_size config) + 2 ^ k - 1 < 2 ^ 64" by linarith
  have up: "unat (stack_bytes m) = (unat (config_stack_size config) + 2 ^ k - 1) div 2 ^ k * 2 ^ k"
    unfolding m(2) by (rule align_up_unat) (use assms(4) bound in simp_all)
  define n where "n = unat (config_stack_size config)"
  have "unat (stack_bytes m) \<le> n + 2 ^ k - 1" unfolding up n_def by (rule div_times_less_eq_dividend)
  moreover have "n + 2 ^ k - 1 < unat (stack_bytes m) + 2 ^ k"
    unfolding up n_def by (rule dividend_less_div_times [OF pos, THEN less_le_trans]) (simp add: add.commute)
  ultimately have bytes: "n \<le> unat (stack_bytes m)" "unat (stack_bytes m) + 2 * 2 ^ k < 2 ^ 64"
    using size pos unfolding n_def by linarith+
  have full: "unat (stack_bytes m + 2 ^ k * 2) = unat (stack_bytes m) + 2 * 2 ^ k"
  proof -
    have "stack_bytes m + 2 ^ k * 2 = of_nat (unat (stack_bytes m) + 2 * 2 ^ k)" by simp
    with bytes(2) show ?thesis by (simp only: unat_of_nat_u64)
  qed
  have top: "stack_top m = p + 2 ^ k + unat (stack_bytes m)" by (simp add: stack_top_def m(1))
  have pr: "prot s x = ReadWrite" if "p \<le> x" "x < p + unat (stack_bytes m) + 2 * 2 ^ k" for x
    using fresh [OF p that(1)] that(2) full by simp
  show ?thesis
    using bytes(1) up pr full
    by (auto simp: s' protect_range_def top m(1) pg' n_def)
qed

text \<open>A concrete system: pages of 4096 bytes, blocks at 65536, and \<open>mprotect\<close> that never fails.\<close>

definition sample_os :: os where
  "sample_os = \<lparr>getpagesize = 4096, find_block = (\<lambda>_ _ _. Some 65536), mprotect_fails = (\<lambda>_ _ _ _. False)\<rparr>"

definition sample_space :: address_space where
  "sample_space = \<lparr>prot = (\<lambda>_. ReadWrite), blocks = Map.empty, bytes = (\<lambda>_. 0)\<rparr>"

definition sample_stack :: "stack_memory \<times> address_space" where
  "sample_stack = (case create_stack sample_os \<lparr>config_stack_size = 5000, enable_guard_pages = True\<rparr> sample_space of
     (Inr m, s) \<Rightarrow> (m, s))"

lemma align_up_5000: "align_up (5000 :: u64) 4096 = 8192"
  by code_simp

lemma create_sample: "create_stack sample_os \<lparr>config_stack_size = 5000, enable_guard_pages = True\<rparr> sample_space =
    (Inr (fst sample_stack), snd sample_stack)"
  by (simp add: sample_stack_def create_stack_def sample_os_def aligned_alloc_def memory_protect_run
      unwinding_def seq_def Let_def)

lemma sample_stack_eq: "stack_bottom (fst sample_stack) = 69632" "stack_bytes (fst sample_stack) = 8192"
  by (simp_all add: sample_stack_def create_stack_def sample_os_def aligned_alloc_def memory_protect_run
      unwinding_def seq_def Let_def align_up_5000)

theorem guard_pages_surround_stack_witness:
  "prot (snd sample_stack) 69631 = ReadOnly \<and> prot (snd sample_stack) 69632 = ReadWrite \<and>
   prot (snd sample_stack) 77823 = ReadWrite \<and> prot (snd sample_stack) 77824 = ReadOnly"
  using guard_pages_surround_stack [OF create_sample, of 12]
  by (simp add: sample_os_def sample_space_def stack_top_def sample_stack_eq)

text \<open>C36: the deleter makes the page below the stack writable again, and the last page of the
  stack, which was; the page above the stack is left read-only in the block it gives back to the
  allocator.\<close>

theorem deleter_leaves_guard_page:
  assumes "create_stack os config s = (Inr m, s1)" and "enable_guard_pages config"
    and "delete_stack os m s1 = (Inr (), s2)"
    and "stack_top m \<le> x" and "x < stack_top m + unat (getpagesize os)"
  shows "prot s2 x = ReadOnly \<and> blocks s2 (stack_bottom m - unat (getpagesize os)) = None"
proof -
  from assms(1,2) obtain p where m: "stack_bottom m = p + unat (getpagesize os)"
    "deleter m = GuardedFree (stack_bytes m) (getpagesize os)"
    and s1: "s1 = protect_range (stack_top m) (getpagesize os) ReadOnly
      (protect_range p (getpagesize os) ReadOnly
        (s\<lparr>blocks := (blocks s)(p \<mapsto> unat (stack_bytes m + getpagesize os * 2))\<rparr>))"
    by (rule create_stack_guarded)
  have "prot s1 x = ReadOnly" using assms(4,5) by (simp add: s1 protect_range_def)
  moreover have "stack_bottom m \<le> x" using assms(4) by (simp add: stack_top_def)
  ultimately show ?thesis
    using assms(3,4)
    by (auto simp: delete_stack_def m Let_def memory_unprotect_run free_block_def protect_range_def
        stack_top_def seq_Inr_iff split: if_splits)
qed

theorem deleter_leaves_guard_page_witness:
  "prot (snd (delete_stack sample_os (fst sample_stack) (snd sample_stack))) 77824 = ReadOnly"
proof -
  let ?m = "fst sample_stack"
  have "stack_top ?m \<le> 77824" "77824 < stack_top ?m + unat (getpagesize sample_os)"
    by (simp_all add: stack_top_def sample_stack_eq sample_os_def)
  moreover have "delete_stack sample_os ?m (snd sample_stack) =
      (Inr (), snd (delete_stack sample_os ?m (snd sample_stack)))"
    by (simp add: sample_stack_def create_stack_def sample_os_def aligned_alloc_def memory_protect_run
        unwinding_def seq_def Let_def delete_stack_def memory_unprotect_run free_block_def protect_range_def)
  ultimately show ?thesis
    using deleter_leaves_guard_page [OF create_sample] by simp
qed

end
