(* ===== verification/Machine_Threads.thy ===== *)
theory Machine_Threads
  imports Vm_Thread Context_Switch Thread_Memory
begin

text \<open>
  VM threads on the processor: the operations of runtime/thread/thread.cc again, now with
  \<open>ThreadStack\<close>s that lie in memory and with the assembly of the context switch in the place where
  Vm_Thread only names the point at which control continues. The state machine of Vm_Thread is an
  abstraction of it, on both targets: the theory ends with that refinement, and with what it means
  for a thread that is suspended while others run.
\<close>

section \<open>The part that depends on the architecture\<close>

text \<open>The number of fields of a \<open>ThreadStack\<close>; the registers of the two arguments of
  \<open>WasmccSwitch\<close>; the routine; what a call of it saves, and what the code that it continues finds, as
  lists of fields; and \<open>InitializeVMThreadStackState\<close> with the fields it sets.\<close>

record stack_switch =
  slots :: nat
  from_arg :: nat
  to_arg :: nat
  wasmcc_switch :: "cpu \<Rightarrow> cpu"
  saved_context :: "cpu \<Rightarrow> u64 list"
  loaded_context :: "cpu \<Rightarrow> u64 list"
  initialize_stack_state :: "u64 \<Rightarrow> u64 \<Rightarrow> u64 \<Rightarrow> u64 \<Rightarrow> (u64 \<Rightarrow> u8) \<Rightarrow> (u64 \<Rightarrow> u8)"
  entry_fields :: "u64 \<Rightarrow> u64 \<Rightarrow> u64 \<Rightarrow> (nat \<times> u64) list"

definition x64_stack_switch :: "u64 \<Rightarrow> u64 \<Rightarrow> stack_switch" where
  "x64_stack_switch wrap_main start =
     \<lparr>slots = 8, from_arg = 7, to_arg = 6, wasmcc_switch = x64_run x64_switch,
      saved_context = (\<lambda>c. x64_resume_pc c # map (regs c) x64_thread_stack),
      loaded_context = (\<lambda>c. pc c # map (regs c) x64_thread_stack),
      initialize_stack_state = x64_initialize wrap_main start,
      entry_fields = (\<lambda>thread base sz.
        [(0, wrap_main), (1, x64_stack_high base sz), (4, start), (5, thread)])\<rparr>"

definition arm64_stack_switch :: "u64 \<Rightarrow> u64 \<Rightarrow> stack_switch" where
  "arm64_stack_switch wrap_main start =
     \<lparr>slots = 22, from_arg = 0, to_arg = 1, wasmcc_switch = arm64_run arm64_switch,
      saved_context = arm64_thread_stack,
      loaded_context = (\<lambda>c. (arm64_thread_stack c)[13 := pc c]),
      initialize_stack_state = arm64_initialize wrap_main start,
      entry_fields = (\<lambda>thread base sz.
        [(0, thread), (1, start), (2, kDummyReturnAddress), (12, base + sz), (13, wrap_main)])\<rparr>"

section \<open>State\<close>

text \<open>A thread with its addresses: the object, its stack, and its two \<open>ThreadStack\<close>s.\<close>

record machine_thread =
  mt_state :: thread_state
  mt_object :: u64
  mt_stack_memory :: u64
  mt_stack_size :: u64
  mt_my_thread_state :: u64
  mt_main_thread_state :: u64

record machine_threads =
  m_current :: "thread_id option"
  m_threads :: "thread_id \<rightharpoonup> machine_thread"
  m_cpu :: cpu

type_synonym machine_thread_op = "(machine_threads, unit) op"

section \<open>Operations\<close>

definition m_with_thread :: "thread_id \<Rightarrow> (machine_thread \<Rightarrow> machine_thread_op) \<Rightarrow> machine_thread_op" where
  "m_with_thread t f s = (case m_threads s t of
     None \<Rightarrow> (Inl (UndefinedBehaviour ''thread is not alive''), s)
   | Some th \<Rightarrow> f th s)"

definition m_set_state :: "thread_id \<Rightarrow> thread_state \<Rightarrow> machine_thread_op" where
  "m_set_state t st = m_with_thread t (\<lambda>th.
     modify (\<lambda>s. s\<lparr>m_threads := (m_threads s)(t \<mapsto> th\<lparr>mt_state := st\<rparr>)\<rparr>))"

definition change_memory :: "((u64 \<Rightarrow> u8) \<Rightarrow> (u64 \<Rightarrow> u8)) \<Rightarrow> machine_thread_op" where
  "change_memory f = modify (\<lambda>s. s\<lparr>m_cpu := (m_cpu s)\<lparr>mem := f (mem (m_cpu s))\<rparr>\<rparr>)"

text \<open>A call of \<open>WasmccSwitch\<close>, up to the point at which the other side continues.\<close>

definition call_switch :: "stack_switch \<Rightarrow> u64 \<Rightarrow> u64 \<Rightarrow> cpu \<Rightarrow> cpu" where
  "call_switch S from to c = c\<lparr>regs := (regs c)(from_arg S := from, to_arg S := to)\<rparr>"

definition m_switch :: "stack_switch \<Rightarrow> u64 \<Rightarrow> u64 \<Rightarrow> machine_thread_op" where
  "m_switch S from to =
     modify (\<lambda>s. s\<lparr>m_cpu := wasmcc_switch S (call_switch S from to (m_cpu s))\<rparr>)"

definition m_trampoline_into_vm :: "stack_switch \<Rightarrow> thread_id \<Rightarrow> machine_thread_op" where
  "m_trampoline_into_vm S t =
     seq (modify (\<lambda>s. s\<lparr>m_current := Some t\<rparr>)) (\<lambda>_. m_with_thread t (\<lambda>th.
       m_switch S (mt_main_thread_state th) (mt_my_thread_state th)))"

definition m_trampoline_out_of_vm :: "stack_switch \<Rightarrow> thread_id \<Rightarrow> machine_thread_op" where
  "m_trampoline_out_of_vm S t =
     seq (modify (\<lambda>s. s\<lparr>m_current := None\<rparr>)) (\<lambda>_. m_with_thread t (\<lambda>th.
       m_switch S (mt_my_thread_state th) (mt_main_thread_state th)))"

text \<open>\<open>CreateUninitializedStackState\<close>: \<open>new ThreadStack()\<close> clears the fields.\<close>

definition zero_fields :: "stack_switch \<Rightarrow> u64 \<Rightarrow> (u64 \<Rightarrow> u8) \<Rightarrow> (u64 \<Rightarrow> u8)" where
  "zero_fields S a = store_slots a (map (\<lambda>i. (i, 0)) [0..<slots S])"

definition m_create :: "stack_switch \<Rightarrow> thread_id \<Rightarrow> machine_thread \<Rightarrow> machine_thread_op" where
  "m_create S t th =
     seq (change_memory (zero_fields S (mt_my_thread_state th))) (\<lambda>_.
     seq (change_memory (zero_fields S (mt_main_thread_state th))) (\<lambda>_.
     modify (\<lambda>s. s\<lparr>m_threads := (m_threads s)(t \<mapsto> th\<lparr>mt_state := kStopped\<rparr>)\<rparr>)))"

definition m_destroy :: "thread_id \<Rightarrow> machine_thread_op" where
  "m_destroy t = m_with_thread t (\<lambda>th. seq (gets m_current) (\<lambda>current.
     seq (assert_that (current \<noteq> Some t \<and> mt_state th \<noteq> kRunning)
            ''VMThreads cannot be destroyed while running'') (\<lambda>_.
     modify (\<lambda>s. s\<lparr>m_threads := (m_threads s)(t := None)\<rparr>))))"

definition m_resume :: "stack_switch \<Rightarrow> thread_id \<Rightarrow> machine_thread_op" where
  "m_resume S t s =
     (if m_current s \<noteq> None
      then (Inl (RuntimeError ''VMThread does not support calling into another VMThread''), s)
      else m_with_thread t (\<lambda>th.
        seq (if mt_state th = kStopped
             then change_memory (initialize_stack_state S (mt_my_thread_state th) (mt_object th)
                    (mt_stack_memory th) (mt_stack_size th))
             else ret ()) (\<lambda>_.
        seq (m_set_state t kRunning) (\<lambda>_. m_trampoline_into_vm S t))) s)"

definition m_stop :: "thread_id \<Rightarrow> machine_thread_op" where
  "m_stop t = m_with_thread t (\<lambda>th.
     if mt_state th = kRunning then throw (RuntimeError ''attempting to stop a running VMThread'')
     else m_set_state t kStopped)"

definition m_yield :: "stack_switch \<Rightarrow> machine_thread_op" where
  "m_yield S s = (case m_current s of
     None \<Rightarrow> (Inl (RuntimeError ''attempting to yield when there is no VMThread''), s)
   | Some t \<Rightarrow> seq (m_set_state t kSuspended) (\<lambda>_. m_trampoline_out_of_vm S t) s)"

definition m_returns :: "stack_switch \<Rightarrow> thread_id \<Rightarrow> machine_thread_op" where
  "m_returns S t = seq (m_set_state t kStopped) (\<lambda>_. m_trampoline_out_of_vm S t)"

lemmas m_ops = m_with_thread_def m_set_state_def change_memory_def m_switch_def m_trampoline_into_vm_def
  m_trampoline_out_of_vm_def m_create_def m_destroy_def m_resume_def m_stop_def m_yield_def m_returns_def

text \<open>The memory in which \<open>Resume\<close> calls the switch.\<close>

definition prepared :: "stack_switch \<Rightarrow> machine_thread \<Rightarrow> cpu \<Rightarrow> cpu" where
  "prepared S th c = (if mt_state th = kStopped
     then c\<lparr>mem := initialize_stack_state S (mt_my_thread_state th) (mt_object th) (mt_stack_memory th)
            (mt_stack_size th) (mem c)\<rparr>
     else c)"

lemma m_resume_runs:
  assumes "m_current s = None" and "m_threads s t = Some th"
  shows "m_resume S t s = (Inr (), s\<lparr>m_current := Some t,
    m_threads := (m_threads s)(t \<mapsto> th\<lparr>mt_state := kRunning\<rparr>),
    m_cpu := wasmcc_switch S (call_switch S (mt_main_thread_state th) (mt_my_thread_state th)
      (prepared S th (m_cpu s)))\<rparr>)"
  using assms by (cases "mt_state th = kStopped") (simp_all add: m_ops seq_def prepared_def)

lemma m_resume_refused: "m_current s \<noteq> None \<Longrightarrow> m_resume S t s =
    (Inl (RuntimeError ''VMThread does not support calling into another VMThread''), s)"
  by (simp add: m_resume_def)

lemma m_leaves_runs:
  assumes "m_threads s t = Some th"
  shows "seq (m_set_state t st) (\<lambda>_. m_trampoline_out_of_vm S t) s = (Inr (), s\<lparr>m_current := None,
    m_threads := (m_threads s)(t \<mapsto> th\<lparr>mt_state := st\<rparr>),
    m_cpu := wasmcc_switch S (call_switch S (mt_my_thread_state th) (mt_main_thread_state th) (m_cpu s))\<rparr>)"
  using assms by (simp add: m_ops seq_def)

lemma m_yield_refused: "m_current s = None \<Longrightarrow> m_yield S s =
    (Inl (RuntimeError ''attempting to yield when there is no VMThread''), s)"
  by (simp add: m_yield_def)

lemma m_stop_runs:
  assumes "m_threads s t = Some th"
  shows "m_stop t s = (if mt_state th = kRunning
    then (Inl (RuntimeError ''attempting to stop a running VMThread''), s)
    else (Inr (), s\<lparr>m_threads := (m_threads s)(t \<mapsto> th\<lparr>mt_state := kStopped\<rparr>)\<rparr>))"
  using assms by (simp add: m_ops)

lemma m_destroy_runs:
  assumes "m_threads s t = Some th"
  shows "m_destroy t s = (if m_current s = Some t \<or> mt_state th = kRunning
    then (Inl (Aborted ''VMThreads cannot be destroyed while running''), s)
    else (Inr (), s\<lparr>m_threads := (m_threads s)(t := None)\<rparr>))"
  using assms by (simp add: m_ops)

lemma m_create_runs:
  "m_create S t th s = (Inr (), s\<lparr>m_threads := (m_threads s)(t \<mapsto> th\<lparr>mt_state := kStopped\<rparr>),
     m_cpu := (m_cpu s)\<lparr>mem := zero_fields S (mt_main_thread_state th)
       (zero_fields S (mt_my_thread_state th) (mem (m_cpu s)))\<rparr>\<rparr>)"
  by (simp add: m_ops seq_def)

section \<open>Steps\<close>

definition ts_fields :: "stack_switch \<Rightarrow> u64 \<Rightarrow> (u64 \<Rightarrow> u8) \<Rightarrow> u64 list" where
  "ts_fields S a m = map (\<lambda>i. load64 m (slot a i)) [0..<slots S]"

text \<open>A block of \<open>n\<close> slots that does not overlap the block of \<open>sz\<close> bytes at \<open>base\<close>.\<close>

definition outside :: "nat \<Rightarrow> u64 \<Rightarrow> u64 \<Rightarrow> u64 \<Rightarrow> bool" where
  "outside n base sz b \<longleftrightarrow> unat sz \<le> unat (b - base) \<and> 8 * n \<le> unat (base - b)"

text \<open>What the allocator guarantees of the live threads: their \<open>ThreadStack\<close>s do not overlap, nor do
  they overlap stacks. A stack has at least 136 bytes, which the code does not check.\<close>

definition placed :: "stack_switch \<Rightarrow> bool \<Rightarrow> machine_thread \<Rightarrow> machine_thread \<Rightarrow> bool" where
  "placed S different th uh \<longleftrightarrow>
     136 \<le> unat (mt_stack_size th) \<and>
     separate (slots S) (mt_my_thread_state th) (mt_main_thread_state uh) \<and>
     separate (slots S) (mt_main_thread_state th) (mt_my_thread_state uh) \<and>
     (different \<longrightarrow> separate (slots S) (mt_my_thread_state th) (mt_my_thread_state uh) \<and>
        separate (slots S) (mt_main_thread_state th) (mt_main_thread_state uh)) \<and>
     outside (slots S) (mt_stack_memory th) (mt_stack_size th) (mt_my_thread_state uh) \<and>
     outside (slots S) (mt_stack_memory th) (mt_stack_size th) (mt_main_thread_state uh)"

definition layout_ok :: "stack_switch \<Rightarrow> (thread_id \<rightharpoonup> machine_thread) \<Rightarrow> bool" where
  "layout_ok S threads \<longleftrightarrow> (\<forall>t th u uh.
     threads t = Some th \<longrightarrow> threads u = Some uh \<longrightarrow> placed S (t \<noteq> u) th uh)"

text \<open>Code that runs between two calls of the interface, the host's or a thread's, may do anything
  to the processor and the memory but write to a \<open>ThreadStack\<close>.\<close>

definition keeps_thread_stacks :: "stack_switch \<Rightarrow> (thread_id \<rightharpoonup> machine_thread) \<Rightarrow> cpu \<Rightarrow> cpu \<Rightarrow> bool" where
  "keeps_thread_stacks S threads c c' \<longleftrightarrow>
     (\<forall>th \<in> ran threads. \<forall>a \<in> {mt_my_thread_state th, mt_main_thread_state th}.
        ts_fields S a (mem c') = ts_fields S a (mem c))"

inductive machine_step :: "stack_switch \<Rightarrow> machine_threads \<Rightarrow> machine_threads \<Rightarrow> bool" for S where
  Create: "m_threads s t = None \<Longrightarrow> layout_ok S ((m_threads s)(t \<mapsto> th)) \<Longrightarrow>
    m_create S t th s = (Inr (), s') \<Longrightarrow> machine_step S s s'"
| Destroy: "t \<in> dom (m_threads s) \<Longrightarrow> m_destroy t s = (Inr (), s') \<Longrightarrow> machine_step S s s'"
| Stop: "t \<in> dom (m_threads s) \<Longrightarrow> m_stop t s = (r, s') \<Longrightarrow> machine_step S s s'"
| Resume: "t \<in> dom (m_threads s) \<Longrightarrow> m_resume S t s = (r, s') \<Longrightarrow> machine_step S s s'"
| Yield: "m_yield S s = (r, s') \<Longrightarrow> machine_step S s s'"
| Return: "m_current s = Some t \<Longrightarrow> m_returns S t s = (Inr (), s') \<Longrightarrow> machine_step S s s'"
| Code: "keeps_thread_stacks S (m_threads s) (m_cpu s) c \<Longrightarrow> machine_step S s (s\<lparr>m_cpu := c\<rparr>)"

definition no_machine_threads :: "cpu \<Rightarrow> machine_threads" where
  "no_machine_threads c = \<lparr>m_current = None, m_threads = Map.empty, m_cpu = c\<rparr>"

definition machine_reachable :: "stack_switch \<Rightarrow> machine_threads \<Rightarrow> bool" where
  "machine_reachable S s \<longleftrightarrow> (\<exists>c. (machine_step S)\<^sup>*\<^sup>* (no_machine_threads c) s)"

section \<open>The abstraction\<close>

text \<open>What the fields of a \<open>ThreadStack\<close>, or the processor after a switch to it, hold when Vm_Thread
  has the point \<open>p\<close> there.\<close>

definition holds_point :: "stack_switch \<Rightarrow> machine_thread \<Rightarrow> u64 list thread_point \<Rightarrow> u64 list \<Rightarrow> bool" where
  "holds_point S th p ctx \<longleftrightarrow> (case p of
     Point k \<Rightarrow> ctx = k
   | Entry \<Rightarrow> \<forall>(i, v) \<in> set (entry_fields S (mt_object th) (mt_stack_memory th) (mt_stack_size th)). ctx ! i = v
   | _ \<Rightarrow> True)"

definition thread_rep ::
    "stack_switch \<Rightarrow> (u64 \<Rightarrow> u8) \<Rightarrow> (u64 list, u64 list) vm_thread \<Rightarrow> machine_thread \<Rightarrow> bool" where
  "thread_rep S m th mt \<longleftrightarrow> thread_state th = mt_state mt \<and>
     holds_point S mt (my_thread_state th) (ts_fields S (mt_my_thread_state mt) m) \<and>
     (\<forall>h. main_thread_state th = Some h \<longrightarrow> ts_fields S (mt_main_thread_state mt) m = h)"

definition control_rep :: "stack_switch \<Rightarrow> (u64 list, u64 list) control \<Rightarrow> machine_threads \<Rightarrow> bool" where
  "control_rep S ctl s \<longleftrightarrow> (case ctl of
     Host h \<Rightarrow> loaded_context S (m_cpu s) = h
   | Thread p \<Rightarrow> \<forall>t th. m_current s = Some t \<longrightarrow> m_threads s t = Some th \<longrightarrow>
       holds_point S th p (loaded_context S (m_cpu s)))"

definition represents :: "stack_switch \<Rightarrow> (u64 list, u64 list) threads \<Rightarrow> machine_threads \<Rightarrow> bool" where
  "represents S a s \<longleftrightarrow> current_vm_thread a = m_current s \<and>
     (\<forall>t. rel_option (thread_rep S (mem (m_cpu s))) (live_threads a t) (m_threads s t)) \<and>
     control_rep S (control a) s \<and> layout_ok S (m_threads s)"

section \<open>What an architecture promises\<close>

locale stack_switching =
  fixes S :: stack_switch
  assumes few_slots: "slots S < 2 ^ 16"
    and two_args: "from_arg S \<noteq> to_arg S"
    and saves: "ts_fields S (regs c (from_arg S)) (mem (wasmcc_switch S c)) = saved_context S c"
    and keeps: "separate (slots S) (regs c (from_arg S)) b \<Longrightarrow>
      ts_fields S b (mem (wasmcc_switch S c)) = ts_fields S b (mem c)"
    and loads: "separate (slots S) (regs c (from_arg S)) (regs c (to_arg S)) \<Longrightarrow>
      loaded_context S (wasmcc_switch S c) = ts_fields S (regs c (to_arg S)) (mem c)"
    and context_no_memory: "loaded_context S (c\<lparr>mem := m\<rparr>) = loaded_context S c"
    and enters: "(i, v) \<in> set (entry_fields S thread base sz) \<Longrightarrow>
      ts_fields S a (initialize_stack_state S a thread base sz m) ! i = v"
    and initialize_keeps: "136 \<le> unat sz \<Longrightarrow> separate (slots S) a b \<Longrightarrow> outside (slots S) base sz b \<Longrightarrow>
      ts_fields S b (initialize_stack_state S a thread base sz m) = ts_fields S b m"
begin

lemma zero_keeps: "separate (slots S) a b \<Longrightarrow> ts_fields S b (zero_fields S a m) = ts_fields S b m"
  unfolding ts_fields_def zero_fields_def
  by (intro map_cong refl load_store_slots_other [where n = "slots S"])
    (auto simp: list_all_iff)

lemma call_switch_args [simp]:
  "regs (call_switch S a b c) (from_arg S) = a" "regs (call_switch S a b c) (to_arg S) = b"
  "mem (call_switch S a b c) = mem c"
  using two_args by (simp_all add: call_switch_def)

lemma switched:
  "ts_fields S a (mem (wasmcc_switch S (call_switch S a b c))) = saved_context S (call_switch S a b c)"
  "separate (slots S) a x \<Longrightarrow> ts_fields S x (mem (wasmcc_switch S (call_switch S a b c))) = ts_fields S x (mem c)"
  "separate (slots S) a b \<Longrightarrow> loaded_context S (wasmcc_switch S (call_switch S a b c)) = ts_fields S b (mem c)"
  using saves [of "call_switch S a b c"] keeps [of "call_switch S a b c"] loads [of "call_switch S a b c"]
  by simp_all

end

section \<open>The two architectures\<close>

lemma length_fields [simp]: "length (ts_fields S a m) = slots S"
  by (simp add: ts_fields_def)

lemma nth_fields [simp]: "i < slots S \<Longrightarrow> ts_fields S a m ! i = load64 m (slot a i)"
  by (simp add: ts_fields_def)

lemma outside_clear:
  assumes "outside n base sz b" and "off + 8 \<le> unat sz" and "j < n"
  shows "clear_of (base + of_nat off) (slot b j)"
  unfolding clear_of_def
proof (intro allI impI)
  fix k l :: nat assume k: "k < 8" "l < 8"
  have "base + of_nat (off + k) \<noteq> b + of_nat (8 * j + l)"
    by (rule blocks_apart [of "unat sz" _ _ "8 * n"]) (use assms k in \<open>simp_all add: outside_def\<close>)
  then show "base + of_nat off + of_nat k \<noteq> slot b j + of_nat l" by (simp add: slot_def add.assoc)
qed

lemma x64_stack_high_offset:
  assumes "136 \<le> unat sz"
  shows "x64_stack_high base sz = base + of_nat (unat sz - 136)"
  using assms by (simp add: x64_stack_high_def kRedZoneSize_def of_nat_diff)

lemma length_x64_thread_stack: "length x64_thread_stack = 7"
  by (simp add: x64_thread_stack_def)

lemma x64_fields_source:
  "i < 8 \<Longrightarrow> load64 (mem (x64_run x64_switch c)) (slot (regs c 7) i)
     = (x64_resume_pc c # map (regs c) x64_thread_stack) ! i"
  by (rule x64_switch_source) (cases i, simp_all add: x64_saved_def in_set_enumerate_eq length_x64_thread_stack)

interpretation x64_threads: stack_switching "x64_stack_switch wrap_main start"
proof
  fix c :: cpu and b :: u64
  let ?S = "x64_stack_switch wrap_main start"
  show "ts_fields ?S (regs c (from_arg ?S)) (mem (wasmcc_switch ?S c)) = saved_context ?S c"
    by (rule nth_equalityI) (simp_all add: x64_stack_switch_def x64_fields_source length_x64_thread_stack)
  show "separate (slots ?S) (regs c (from_arg ?S)) b \<Longrightarrow> ts_fields ?S b (mem (wasmcc_switch ?S c)) = ts_fields ?S b (mem c)"
    by (rule nth_equalityI) (simp_all add: x64_stack_switch_def x64_switch_mem
      load_store_slots_other [OF _ x64_saved_slots(1)])
  assume sep: "separate (slots ?S) (regs c (from_arg ?S)) (regs c (to_arg ?S))"
  then have t: "load64 (mem (x64_run x64_switch c)) (slot (regs c 6) j) = load64 (mem c) (slot (regs c 6) j)"
    if "j < 8" for j
    using x64_switch_target [OF _ that] by (simp add: x64_stack_switch_def)
  show "loaded_context ?S (wasmcc_switch ?S c) = ts_fields ?S (regs c (to_arg ?S)) (mem c)"
    by (simp add: x64_stack_switch_def ts_fields_def x64_switch_loads t upt_rec)
next
  show "loaded_context (x64_stack_switch wrap_main start) (c\<lparr>mem := m\<rparr>) =
    loaded_context (x64_stack_switch wrap_main start) c" for c m
    by (simp add: x64_stack_switch_def)
next
  show "slots (x64_stack_switch wrap_main start) < 2 ^ 16"
    "from_arg (x64_stack_switch wrap_main start) \<noteq> to_arg (x64_stack_switch wrap_main start)"
    by (simp_all add: x64_stack_switch_def)
next
  let ?S = "x64_stack_switch wrap_main start"
  fix i :: nat and v thread base sz a :: u64 and m
  assume "(i, v) \<in> set (entry_fields ?S thread base sz)"
  then have iv: "(i, v) \<in> set [(0, wrap_main), (1, x64_stack_high base sz), (4, start), (5, thread)]" and "i < 8"
    by (auto simp: x64_stack_switch_def)
  then show "ts_fields ?S a (initialize_stack_state ?S a thread base sz m) ! i = v"
    using load_store_slots [OF iv, of a] by (simp add: x64_stack_switch_def x64_initialize_def Let_def)
next
  let ?S = "x64_stack_switch wrap_main start"
  fix sz a b base thread :: u64 and m
  assume sz: "136 \<le> unat sz" and sep: "separate (slots ?S) a b" and out: "outside (slots ?S) base sz b"
  show "ts_fields ?S b (initialize_stack_state ?S a thread base sz m) = ts_fields ?S b m"
  proof (rule nth_equalityI)
    fix i assume "i < length (ts_fields ?S b (initialize_stack_state ?S a thread base sz m))"
    then have i: "i < 8" by (simp add: x64_stack_switch_def)
    from sep out have *: "separate 8 a b" "outside 8 base sz b" by (simp_all add: x64_stack_switch_def)
    have "clear_of (x64_stack_high base sz) (slot b i)"
      unfolding x64_stack_high_offset [OF sz] by (rule outside_clear [OF *(2) _ i]) (use sz in simp)
    then show "ts_fields ?S b (initialize_stack_state ?S a thread base sz m) ! i = ts_fields ?S b m ! i"
      using i load_store_slots_other [OF *(1) _ i]
      by (simp add: x64_stack_switch_def x64_initialize_def Let_def load64_store64_clear del: store_slots_simps)
  qed simp
qed

lemma length_arm64_thread_stack [simp]: "length (arm64_thread_stack c) = 22"
  by (simp add: arm64_thread_stack_def)

interpretation arm64_threads: stack_switching "arm64_stack_switch wrap_main start"
proof
  fix c :: cpu and b :: u64
  let ?S = "arm64_stack_switch wrap_main start"
  show "ts_fields ?S (regs c (from_arg ?S)) (mem (wasmcc_switch ?S c)) = saved_context ?S c"
    by (rule nth_equalityI) (simp_all add: arm64_stack_switch_def arm64_switch_source)
  show "separate (slots ?S) (regs c (from_arg ?S)) b \<Longrightarrow> ts_fields ?S b (mem (wasmcc_switch ?S c)) = ts_fields ?S b (mem c)"
    by (rule nth_equalityI) (simp_all add: arm64_stack_switch_def arm64_switch_mem
      load_store_slots_other [OF _ arm64_saved_slots(1)])
  assume sep: "separate (slots ?S) (regs c (from_arg ?S)) (regs c (to_arg ?S))"
  then have t: "load64 (mem (arm64_run arm64_switch c)) (slot (regs c 1) j) = load64 (mem c) (slot (regs c 1) j)"
    if "j < 22" for j
    using arm64_switch_target [OF _ that] by (simp add: arm64_stack_switch_def)
  show "loaded_context ?S (wasmcc_switch ?S c) = ts_fields ?S (regs c (to_arg ?S)) (mem c)"
    by (rule nth_equalityI)
      (auto simp: arm64_stack_switch_def arm64_switch_loads t [simplified] nth_list_update)
next
  show "loaded_context (arm64_stack_switch wrap_main start) (c\<lparr>mem := m\<rparr>) =
    loaded_context (arm64_stack_switch wrap_main start) c" for c m
    by (simp add: arm64_stack_switch_def arm64_thread_stack_list)
next
  show "slots (arm64_stack_switch wrap_main start) < 2 ^ 16"
    "from_arg (arm64_stack_switch wrap_main start) \<noteq> to_arg (arm64_stack_switch wrap_main start)"
    by (simp_all add: arm64_stack_switch_def)
next
  let ?S = "arm64_stack_switch wrap_main start"
  fix i :: nat and v thread base sz a :: u64 and m
  assume "(i, v) \<in> set (entry_fields ?S thread base sz)"
  then have iv: "(i, v) \<in> set [(0, thread), (1, start), (2, kDummyReturnAddress), (12, base + sz), (13, wrap_main)]"
    and "i < 22"
    by (auto simp: arm64_stack_switch_def)
  then show "ts_fields ?S a (initialize_stack_state ?S a thread base sz m) ! i = v"
    using load_store_slots [OF iv, of a] by (simp add: arm64_stack_switch_def arm64_initialize_def)
next
  let ?S = "arm64_stack_switch wrap_main start"
  fix sz a b base thread :: u64 and m
  assume "separate (slots ?S) a b"
  then show "ts_fields ?S b (initialize_stack_state ?S a thread base sz m) = ts_fields ?S b m"
    by (intro nth_equalityI) (simp_all add: arm64_stack_switch_def arm64_initialize_def
      load_store_slots_other del: store_slots_simps)
qed

section \<open>The simulation\<close>

lemma layout_okD:
  "layout_ok S threads \<Longrightarrow> threads t = Some th \<Longrightarrow> threads u = Some uh \<Longrightarrow> d = (t \<noteq> u) \<Longrightarrow> placed S d th uh"
  by (simp add: layout_ok_def)

lemma placed_state [simp]:
  "placed S d (th\<lparr>mt_state := st\<rparr>) uh = placed S d th uh"
  "placed S d th (uh\<lparr>mt_state := st\<rparr>) = placed S d th uh"
  by (simp_all add: placed_def)

lemma layout_ok_state:
  "layout_ok S threads \<Longrightarrow> threads t = Some th \<Longrightarrow> layout_ok S (threads(t \<mapsto> th\<lparr>mt_state := st\<rparr>))"
  unfolding layout_ok_def [of S "threads(t \<mapsto> th\<lparr>mt_state := st\<rparr>)"]
  by (auto split: if_splits intro: layout_okD)

lemma layout_ok_remove: "layout_ok S threads \<Longrightarrow> layout_ok S (threads(t := None))"
  unfolding layout_ok_def by (auto split: if_splits)

definition same_fields :: "stack_switch \<Rightarrow> machine_thread \<Rightarrow> (u64 \<Rightarrow> u8) \<Rightarrow> (u64 \<Rightarrow> u8) \<Rightarrow> bool" where
  "same_fields S mt m m' \<longleftrightarrow>
     ts_fields S (mt_my_thread_state mt) m' = ts_fields S (mt_my_thread_state mt) m \<and>
     ts_fields S (mt_main_thread_state mt) m' = ts_fields S (mt_main_thread_state mt) m"

lemma rep_same_fields:
  assumes "rel_option (thread_rep S m) x y" and "\<And>mt. y = Some mt \<Longrightarrow> same_fields S mt m m'"
  shows "rel_option (thread_rep S m') x y"
  using assms by (cases x; cases y) (auto simp: thread_rep_def same_fields_def)

lemma reps_update:
  assumes "\<forall>u. rel_option (thread_rep S m) (L u) (T u)" and "thread_rep S m' th mt"
    and "\<And>u uh. u \<noteq> t \<Longrightarrow> T u = Some uh \<Longrightarrow> same_fields S uh m m'"
  shows "\<forall>u. rel_option (thread_rep S m') ((L(t \<mapsto> th)) u) ((T(t \<mapsto> mt)) u)"
  using assms by (auto intro: rep_same_fields)

lemma representsD:
  assumes "represents S a s"
  shows "current_vm_thread a = m_current s"
    and "\<forall>t. rel_option (thread_rep S (mem (m_cpu s))) (live_threads a t) (m_threads s t)"
    and "control_rep S (control a) s" and "layout_ok S (m_threads s)"
  using assms by (simp_all add: represents_def)

lemma represented_thread:
  assumes "represents S a s" and "m_threads s t = Some mt"
  obtains th where "live_threads a t = Some th" and "thread_rep S (mem (m_cpu s)) th mt"
  using representsD(2) [OF assms(1), THEN spec, of t] assms(2) by (auto simp: option_rel_Some2)

lemma holds_point_state [simp]: "holds_point S (th\<lparr>mt_state := st\<rparr>) p ctx = holds_point S th p ctx"
  by (simp add: holds_point_def split: thread_point.split)

context stack_switching
begin

text \<open>Initialising a thread's state and switching leave the \<open>ThreadStack\<close>s of the others alone.\<close>

lemma prepared_keeps:
  assumes "placed S True th uh"
  shows "same_fields S uh (mem c) (mem (prepared S th c))"
  using assms initialize_keeps
  by (simp add: prepared_def same_fields_def placed_def)

lemma switch_keeps:
  assumes "placed S True th uh"
  shows "same_fields S uh (mem c)
      (mem (wasmcc_switch S (call_switch S (mt_main_thread_state th) (mt_my_thread_state th) c)))"
    and "same_fields S uh (mem c)
      (mem (wasmcc_switch S (call_switch S (mt_my_thread_state th) (mt_main_thread_state th) c)))"
  using assms by (simp_all add: same_fields_def placed_def switched(2))

lemma same_fields_trans: "same_fields S uh m m' \<Longrightarrow> same_fields S uh m' m'' \<Longrightarrow> same_fields S uh m m''"
  by (simp add: same_fields_def)

lemma prepared_point:
  assumes "thread_rep S (mem c) th mt"
  shows "holds_point S mt (resume_point th) (ts_fields S (mt_my_thread_state mt) (mem (prepared S mt c)))"
  using assms enters
  by (auto simp: thread_rep_def resume_point_def prepared_def holds_point_def)

lemma resume_simulated:
  assumes rep: "represents S a s" and ok: "threads_ok a" and mt: "m_threads s t = Some mt"
  shows "\<exists>h a'. resume t h a = (fst (m_resume S t s), a') \<and> represents S a' (snd (m_resume S t s))"
proof (cases "m_current s")
  case None
  obtain th where th: "live_threads a t = Some th" and r: "thread_rep S (mem (m_cpu s)) th mt"
    using rep mt by (rule represented_thread)
  have cur: "current_vm_thread a = None" using representsD(1) [OF rep] None by simp
  have point: "resume_point th \<noteq> Zeroed" using resume_point_ok [OF ok cur th] by auto
  let ?c = "call_switch S (mt_main_thread_state mt) (mt_my_thread_state mt) (prepared S mt (m_cpu s))"
  note run = resume_runs [OF cur th point, of "saved_context S ?c"] m_resume_runs [OF None mt, of S]
  have own: "separate (slots S) (mt_main_thread_state mt) (mt_my_thread_state mt)"
    using layout_okD [OF representsD(4) [OF rep] mt mt refl] by (simp add: placed_def)
  have fields: "ts_fields S (mt_main_thread_state mt) (mem (wasmcc_switch S ?c)) = saved_context S ?c"
    "ts_fields S (mt_my_thread_state mt) (mem (wasmcc_switch S ?c))
       = ts_fields S (mt_my_thread_state mt) (mem (prepared S mt (m_cpu s)))"
    "loaded_context S (wasmcc_switch S ?c)
       = ts_fields S (mt_my_thread_state mt) (mem (prepared S mt (m_cpu s)))"
    using switched(1) switched(2,3) [OF own] by blast+
  have others: "same_fields S uh (mem (m_cpu s)) (mem (wasmcc_switch S ?c))"
    if "u \<noteq> t" "m_threads s u = Some uh" for u uh
  proof -
    have "placed S True mt uh" using layout_okD [OF representsD(4) [OF rep] mt that(2)] that(1) by simp
    from same_fields_trans [OF prepared_keeps [OF this] switch_keeps(1) [OF this]] show ?thesis .
  qed
  have "represents S (snd (resume t (saved_context S ?c) a)) (snd (m_resume S t s))"
    unfolding run snd_conv represents_def
    using reps_update [OF representsD(2) [OF rep], of "mem (wasmcc_switch S ?c)"
        "th\<lparr>thread_state := kRunning, my_thread_state := resume_point th, main_thread_state := Some (saved_context S ?c)\<rparr>"
        "mt\<lparr>mt_state := kRunning\<rparr>" t] others
      prepared_point [OF r] fields layout_ok_state [OF representsD(4) [OF rep] mt]
    by (auto simp: thread_rep_def control_rep_def)
  then show ?thesis using run by (metis fst_conv prod.collapse)
next
  case (Some u)
  then have "current_vm_thread a \<noteq> None" using representsD(1) [OF rep] by simp
  with Some rep show ?thesis by (simp add: resume_refused m_resume_refused)
qed

text \<open>What \<open>Yield\<close> and the end of \<open>VMThreadStart\<close> share.\<close>

lemma leave_simulated:
  assumes rep: "represents S a s" and ok: "threads_ok a" and cur: "m_current s = Some t"
    and p: "p = Point (saved_context S (call_switch S (mt_my_thread_state mt) (mt_main_thread_state mt) (m_cpu s))) \<or>
      p = AtExit"
    and mt: "m_threads s t = Some mt"
  shows "\<exists>a'. seq (set_state t st) (\<lambda>_. trampoline_out_of_vm t p) a = (Inr (), a') \<and>
    represents S a' (snd (seq (m_set_state t st) (\<lambda>_. m_trampoline_out_of_vm S t) s))"
proof -
  let ?c = "call_switch S (mt_my_thread_state mt) (mt_main_thread_state mt) (m_cpu s)"
  have "current_vm_thread a = Some t" using representsD(1) [OF rep] cur by simp
  from threads_ok_current [OF ok this] obtain th h
    where th: "live_threads a t = Some th" "main_thread_state th = Some h" by metis
  have r: "thread_rep S (mem (m_cpu s)) th mt" using represented_thread [OF rep mt] th(1) by auto
  note run = leaves_runs [OF th, of st p] m_leaves_runs [OF mt, of st S]
  have own: "separate (slots S) (mt_my_thread_state mt) (mt_main_thread_state mt)"
    using layout_okD [OF representsD(4) [OF rep] mt mt refl] by (simp add: placed_def)
  have fields: "ts_fields S (mt_my_thread_state mt) (mem (wasmcc_switch S ?c)) = saved_context S ?c"
    "ts_fields S (mt_main_thread_state mt) (mem (wasmcc_switch S ?c)) = h"
    "loaded_context S (wasmcc_switch S ?c) = h"
    using switched(1) switched(2,3) [OF own] r th(2) by (auto simp: thread_rep_def)
  have others: "same_fields S uh (mem (m_cpu s)) (mem (wasmcc_switch S ?c))"
    if "u \<noteq> t" "m_threads s u = Some uh" for u uh
    using switch_keeps(2) layout_okD [OF representsD(4) [OF rep] mt that(2)] that(1) by simp
  have new: "thread_rep S (mem (wasmcc_switch S ?c)) (th\<lparr>thread_state := st, my_thread_state := p\<rparr>) (mt\<lparr>mt_state := st\<rparr>)"
    using p fields(1,2) th(2) by (auto simp: thread_rep_def holds_point_def)
  have "represents S (snd (seq (set_state t st) (\<lambda>_. trampoline_out_of_vm t p) a))
      (snd (seq (m_set_state t st) (\<lambda>_. m_trampoline_out_of_vm S t) s))"
    using reps_update [OF representsD(2) [OF rep] new others] fields(3)
      layout_ok_state [OF representsD(4) [OF rep] mt]
    by (simp add: run represents_def control_rep_def)
  then show ?thesis using run(1) by simp
qed

lemma represented_current:
  assumes "represents S a s" and "threads_ok a" and "m_current s = Some t"
  obtains mt where "m_threads s t = Some mt"
proof -
  have "current_vm_thread a = Some t" using representsD(1) [OF assms(1)] assms(3) by simp
  from threads_ok_current [OF assms(2) this] obtain th where "live_threads a t = Some th" by metis
  with representsD(2) [OF assms(1), THEN spec, of t] that show ?thesis by (auto simp: option_rel_Some1)
qed

lemma yield_simulated:
  assumes rep: "represents S a s" and ok: "threads_ok a"
  shows "\<exists>k a'. yield_thread k a = (fst (m_yield S s), a') \<and> represents S a' (snd (m_yield S s))"
proof (cases "m_current s")
  case None
  then have "current_vm_thread a = None" using representsD(1) [OF rep] by simp
  with None rep show ?thesis by (simp add: yield_refused m_yield_refused)
next
  case (Some t)
  then have cur: "current_vm_thread a = Some t" using representsD(1) [OF rep] by simp
  obtain mt where mt: "m_threads s t = Some mt" using represented_current [OF rep ok Some] .
  from leave_simulated [OF rep ok Some disjI1 [OF refl] mt, of kSuspended] m_leaves_runs [OF mt, of kSuspended S]
  show ?thesis unfolding m_yield_def yield_thread_def cur Some option.case by (metis fst_conv)
qed

lemma return_simulated:
  assumes "represents S a s" and "threads_ok a" and "m_current s = Some t"
  shows "\<exists>a'. thread_returns t a = (fst (m_returns S t s), a') \<and> represents S a' (snd (m_returns S t s))"
proof -
  obtain mt where mt: "m_threads s t = Some mt" using represented_current [OF assms] .
  from leave_simulated [OF assms disjI2 [OF refl] mt, of kStopped] m_leaves_runs [OF mt, of kStopped S]
  show ?thesis unfolding thread_returns_def m_returns_def by (metis fst_conv)
qed

lemma stop_simulated:
  assumes rep: "represents S a s" and mt: "m_threads s t = Some mt"
  shows "\<exists>a'. stop t a = (fst (m_stop t s), a') \<and> represents S a' (snd (m_stop t s))"
proof -
  obtain th where th: "live_threads a t = Some th" and r: "thread_rep S (mem (m_cpu s)) th mt"
    using rep mt by (rule represented_thread)
  show ?thesis
    using rep th r layout_ok_state [OF representsD(4) [OF rep] mt]
      reps_update [OF representsD(2) [OF rep], of "mem (m_cpu s)" "th\<lparr>thread_state := kStopped\<rparr>"
        "mt\<lparr>mt_state := kStopped\<rparr>" t]
    by (auto simp: stop_runs [OF th] m_stop_runs [OF mt] represents_def thread_rep_def same_fields_def
        control_rep_def mt split: control.splits)
qed

lemma destroy_simulated:
  assumes rep: "represents S a s" and mt: "m_threads s t = Some mt"
  shows "\<exists>a'. destroy_thread t a = (fst (m_destroy t s), a') \<and> represents S a' (snd (m_destroy t s))"
proof -
  obtain th where th: "live_threads a t = Some th" and r: "thread_rep S (mem (m_cpu s)) th mt"
    using rep mt by (rule represented_thread)
  show ?thesis
    using rep r layout_ok_remove
    by (auto simp: destroy_runs [OF th] m_destroy_runs [OF mt] represents_def thread_rep_def
        control_rep_def split: control.splits)
qed

lemma create_simulated:
  assumes rep: "represents S a s" and ok: "threads_ok a" and free: "m_threads s t = None"
    and lay: "layout_ok S ((m_threads s)(t \<mapsto> mt))"
  shows "live_threads a t = None \<and> represents S (snd (create_thread t f a)) (snd (m_create S t mt s))"
proof -
  have free': "live_threads a t = None" using representsD(2) [OF rep, THEN spec, of t] free by simp
  then have cur: "m_current s \<noteq> Some t"
    using ok representsD(1) [OF rep] by (auto simp: threads_ok_def)
  let ?m = "zero_fields S (mt_main_thread_state mt) (zero_fields S (mt_my_thread_state mt) (mem (m_cpu s)))"
  have others: "same_fields S uh (mem (m_cpu s)) ?m" if "u \<noteq> t" "m_threads s u = Some uh" for u uh
  proof -
    have "placed S True mt uh" using layout_okD [OF lay, of t mt u uh True] that by simp
    then show ?thesis by (simp add: placed_def same_fields_def zero_keeps)
  qed
  have new: "thread_rep S ?m (new_vm_thread f) (mt\<lparr>mt_state := kStopped\<rparr>)"
    by (simp add: thread_rep_def new_vm_thread_def holds_point_def)
  have "layout_ok S ((m_threads s)(t \<mapsto> mt\<lparr>mt_state := kStopped\<rparr>))"
    using layout_ok_state [OF lay, of t mt] by simp
  moreover have "control_rep S (control a) s" using representsD(3) [OF rep] .
  ultimately have "represents S (snd (create_thread t f a)) (snd (m_create S t mt s))"
    using reps_update [OF representsD(2) [OF rep] new others] representsD(1) [OF rep] cur
    by (auto simp: create_runs m_create_runs represents_def control_rep_def context_no_memory
        split: control.splits)
  with free' show ?thesis by simp
qed

lemma code_simulated:
  assumes rep: "represents S a s" and keep: "keeps_thread_stacks S (m_threads s) (m_cpu s) c"
  shows "\<exists>a'. thread_step a a' \<and> represents S a' (s\<lparr>m_cpu := c\<rparr>)"
proof -
  have reps: "rel_option (thread_rep S (mem c)) (live_threads a u) (m_threads s u)" for u
    by (rule rep_same_fields [OF representsD(2) [OF rep, THEN spec]])
      (use keep in \<open>auto simp: keeps_thread_stacks_def same_fields_def ran_def\<close>)
  show ?thesis
  proof (cases "control a")
    case (Host h)
    from thread_step.HostCode [OF this, of "loaded_context S c"] reps rep show ?thesis
      by (auto simp: represents_def control_rep_def)
  next
    case (Thread p)
    from thread_step.ThreadCode [OF this, of "loaded_context S c"] reps rep show ?thesis
      by (auto simp: represents_def control_rep_def holds_point_def)
  qed
qed

lemma step_simulated:
  assumes rep: "represents S a s" and ok: "threads_ok a" and step: "machine_step S s s'"
  shows "\<exists>a'. thread_step a a' \<and> represents S a' s'"
  using step
proof cases
  case (Create t th)
  have run: "create_thread t [] a = (Inr (), snd (create_thread t [] a))" by (simp add: create_runs)
  from create_simulated [OF rep ok Create(1,2), of "[]"] Create(3)
  have "live_threads a t = None" "represents S (snd (create_thread t [] a)) s'" by simp_all
  with thread_step.Create [OF _ run] show ?thesis by blast
next
  case (Destroy t)
  then obtain mt where mt: "m_threads s t = Some mt" by blast
  from destroy_simulated [OF rep mt] represented_thread [OF rep mt] Destroy(2)
  show ?thesis by (metis domI fst_conv snd_conv thread_step.Destroy)
next
  case (Stop t r)
  then obtain mt where mt: "m_threads s t = Some mt" by blast
  from stop_simulated [OF rep mt] represented_thread [OF rep mt] Stop(2)
  show ?thesis by (metis domI snd_conv thread_step.Stop)
next
  case (Resume t r)
  then obtain mt where mt: "m_threads s t = Some mt" by blast
  from resume_simulated [OF rep ok mt] represented_thread [OF rep mt] Resume(2)
  show ?thesis by (metis domI snd_conv thread_step.Resume)
next
  case (Yield r)
  with yield_simulated [OF rep ok] show ?thesis by (metis snd_conv thread_step.Yield)
next
  case (Return t)
  have cur: "current_vm_thread a = Some t" using representsD(1) [OF rep] Return(1) by simp
  then obtain p where "control a = Thread p" using ok by (cases "control a") (auto simp: threads_ok_def)
  with return_simulated [OF rep ok Return(1)] Return(2) cur
  show ?thesis by (metis fst_conv snd_conv thread_step.Return)
next
  case (Code c)
  with code_simulated [OF rep] show ?thesis by blast
qed

lemma reachable_simulated:
  assumes "machine_reachable S s"
  shows "\<exists>a. reachable a \<and> represents S a s"
proof -
  from assms obtain c where "(machine_step S)\<^sup>*\<^sup>* (no_machine_threads c) s"
    by (auto simp: machine_reachable_def)
  then show ?thesis
  proof (induction rule: rtranclp_induct)
    case base
    have "reachable (no_threads (loaded_context S c) :: (u64 list, u64 list) threads)"
      unfolding reachable_def by blast
    moreover have "represents S (no_threads (loaded_context S c)) (no_machine_threads c)"
      by (simp add: represents_def no_threads_def no_machine_threads_def control_rep_def layout_ok_def)
    ultimately show ?case by blast
  next
    case (step s s')
    then obtain a where a: "reachable a" "represents S a s" by blast
    from step_simulated [OF a(2) reachable_ok [OF a(1)] step(2)] reachable_step [OF a(1)]
    show ?case by blast
  qed
qed

text \<open>While a thread is suspended, no step of the others, or of the host, touches what it saved.\<close>

lemma other_step_keeps:
  assumes rep: "represents S a s" and ok: "threads_ok a" and step: "machine_step S s s'"
    and mt: "m_threads s t = Some mt" "m_threads s' t = Some mt" "mt_state mt = kSuspended"
  shows "same_fields S mt (mem (m_cpu s)) (mem (m_cpu s'))"
proof -
  have lay: "placed S True uh mt" if "u \<noteq> t" "m_threads s u = Some uh" for u uh
    using layout_okD [OF representsD(4) [OF rep] that(2) mt(1)] that(1) by simp
  have left: "same_fields S mt (mem (m_cpu s)) (mem (m_cpu (snd (seq (m_set_state u st) (\<lambda>_. m_trampoline_out_of_vm S u) s))))"
    if u: "m_current s = Some u" for u st
  proof -
    obtain uh where uh: "m_threads s u = Some uh" using represented_current [OF rep ok u] .
    obtain th where th: "live_threads a t = Some th" "thread_rep S (mem (m_cpu s)) th mt"
      using rep mt(1) by (rule represented_thread)
    then have "thread_state th = kSuspended" using mt(3) by (simp add: thread_rep_def)
    with threads_okD(1) [OF ok th(1)] have "current_vm_thread a \<noteq> Some t" by simp
    with u representsD(1) [OF rep] have "u \<noteq> t" by auto
    from switch_keeps(2) [OF lay [OF this uh]] show ?thesis by (simp add: m_leaves_runs [OF uh])
  qed
  show ?thesis
    using step
  proof cases
    case (Create u th)
    with mt(1) have "u \<noteq> t" by auto
    then have "placed S True th mt" using layout_okD [OF Create(2), of u th t mt True] mt(1) by simp
    then show ?thesis using Create(3) by (auto simp: m_create_runs placed_def same_fields_def zero_keeps)
  next
    case (Destroy u)
    then obtain uh where "m_threads s u = Some uh" by blast
    from Destroy(2) show ?thesis by (auto simp: m_destroy_runs [OF \<open>m_threads s u = Some uh\<close>] same_fields_def split: if_splits)
  next
    case (Stop u r)
    then obtain uh where "m_threads s u = Some uh" by blast
    from Stop(2) show ?thesis by (auto simp: m_stop_runs [OF \<open>m_threads s u = Some uh\<close>] same_fields_def split: if_splits)
  next
    case (Resume u r)
    then obtain uh where uh: "m_threads s u = Some uh" by blast
    show ?thesis
    proof (cases "m_current s")
      case None
      note run = m_resume_runs [OF None uh, of S]
      have "u \<noteq> t"
      proof
        assume "u = t"
        then have "m_threads s' t = Some (mt\<lparr>mt_state := kRunning\<rparr>)" using run Resume(2) uh mt(1) by auto
        with mt(2,3) have "mt_state (mt\<lparr>mt_state := kRunning\<rparr>) = kSuspended" by simp
        then show False by simp
      qed
      note p = lay [OF this uh]
      from same_fields_trans [OF prepared_keeps [OF p] switch_keeps(1) [OF p]] run Resume(2) show ?thesis by auto
    qed (use Resume(2) in \<open>auto simp: m_resume_refused same_fields_def\<close>)
  next
    case (Yield r)
    then show ?thesis
      using left [of _ kSuspended] by (cases "m_current s") (auto simp: m_yield_def same_fields_def)
  next
    case (Return u)
    with left [OF Return(1), of kStopped] show ?thesis by (simp add: m_returns_def)
  next
    case (Code c)
    with mt(1) show ?thesis by (auto simp: keeps_thread_stacks_def same_fields_def ran_def)
  qed
qed

lemma machine_reachable_step: "machine_reachable S s \<Longrightarrow> machine_step S s s' \<Longrightarrow> machine_reachable S s'"
  unfolding machine_reachable_def by (blast intro: rtranclp.rtrancl_into_rtrancl)

lemma others_keep:
  assumes "(\<lambda>x y. machine_step S x y \<and> m_threads y t = m_threads x t)\<^sup>*\<^sup>* s s'"
    and "machine_reachable S s" and "m_threads s t = Some mt" and "mt_state mt = kSuspended"
  shows "machine_reachable S s' \<and> m_threads s' t = Some mt \<and>
    same_fields S mt (mem (m_cpu s)) (mem (m_cpu s'))"
  using assms(1)
proof (induction rule: rtranclp_induct)
  case base
  with assms show ?case by (simp add: same_fields_def)
next
  case (step x y)
  then obtain a where "reachable a" "represents S a x" using reachable_simulated by blast
  with step assms(4) other_step_keeps [OF \<open>represents S a x\<close> reachable_ok, of y t mt]
  show ?case by (auto intro: machine_reachable_step same_fields_trans)
qed

lemma suspended_continues:
  assumes reach: "machine_reachable S s" and cur: "m_current s = Some t" and mt: "m_threads s t = Some mt"
    and yield: "m_yield S s = (r, s1)"
    and others: "(\<lambda>x y. machine_step S x y \<and> m_threads y t = m_threads x t)\<^sup>*\<^sup>* s1 s2"
    and idle: "m_current s2 = None" and resume: "m_resume S t s2 = (r', s3)"
  shows "r = Inr () \<and> r' = Inr () \<and> loaded_context S (m_cpu s3) =
    saved_context S (call_switch S (mt_my_thread_state mt) (mt_main_thread_state mt) (m_cpu s))"
proof -
  let ?c = "call_switch S (mt_my_thread_state mt) (mt_main_thread_state mt) (m_cpu s)"
  let ?mt = "mt\<lparr>mt_state := kSuspended\<rparr>"
  have s1: "r = Inr ()" "m_threads s1 t = Some ?mt" "m_cpu s1 = wasmcc_switch S ?c"
    using yield cur m_leaves_runs [OF mt, of kSuspended S] by (auto simp: m_yield_def)
  have "machine_reachable S s1" by (rule machine_reachable_step [OF reach machine_step.Yield [OF yield]])
  from others_keep [OF others this s1(2)]
  have s2: "machine_reachable S s2" "m_threads s2 t = Some ?mt" "same_fields S ?mt (mem (m_cpu s1)) (mem (m_cpu s2))"
    by simp_all
  obtain a where "represents S a s2" using reachable_simulated [OF s2(1)] by blast
  from layout_okD [OF representsD(4) [OF this] s2(2,2) refl]
  have "separate (slots S) (mt_main_thread_state mt) (mt_my_thread_state mt)" by (simp add: placed_def)
  from switched(3) [OF this, of "m_cpu s2"] resume m_resume_runs [OF idle s2(2), of S] s1 s2(3) switched(1)
  show ?thesis by (auto simp: prepared_def same_fields_def)
qed

end

section \<open>Properties\<close>

lemma both_targets:
  "S \<in> {x64_stack_switch wrap_main start, arm64_stack_switch wrap_main start} \<Longrightarrow> stack_switching S"
  using x64_threads.stack_switching_axioms arm64_threads.stack_switching_axioms by blast

text \<open>C14: on both processors the threads in memory, with the assembly of the context switch, refine the
  state machine of Vm_Thread. Whatever state calls of the interface lead to, in any order and with
  any code of the host and of the threads between them that does not write to a \<open>ThreadStack\<close>,
  a reachable state of the abstract machine represents it: the same threads in the same states, the
  saved points in the fields of their \<open>ThreadStack\<close>s, and the processor in the context at which control is.\<close>

theorem processor_refines_threads:
  assumes "S \<in> {x64_stack_switch wrap_main start, arm64_stack_switch wrap_main start}"
    and "machine_reachable S s"
  shows "\<exists>a. reachable a \<and> represents S a s"
  using stack_switching.reachable_simulated [OF both_targets [OF assms(1)] assms(2)] .

text \<open>A thread is created on x86-64, started, and yields at once.\<close>

definition sample_switch :: stack_switch where
  "sample_switch = x64_stack_switch 0x401000 0x402000"

definition sample_thread :: machine_thread where
  "sample_thread = \<lparr>mt_state = kStopped, mt_object = 0x9000, mt_stack_memory = 0x10000,
     mt_stack_size = 0x1000, mt_my_thread_state = 0x1000, mt_main_thread_state = 0x2000\<rparr>"

definition sample_created :: machine_threads where
  "sample_created = snd (m_create sample_switch 1 sample_thread (no_machine_threads sample_cpu))"

definition sample_running :: machine_threads where
  "sample_running = snd (m_resume sample_switch 1 sample_created)"

definition sample_yielded :: machine_threads where
  "sample_yielded = snd (m_yield sample_switch sample_running)"

lemma sample_created_eq: "m_current sample_created = None" "m_threads sample_created = [1 \<mapsto> sample_thread]"
  by (simp_all add: sample_created_def m_create_runs no_machine_threads_def sample_thread_def)

lemma sample_running_eq: "m_resume sample_switch 1 sample_created = (Inr (), sample_running)"
  "m_current sample_running = Some 1" "m_threads sample_running 1 = Some (sample_thread\<lparr>mt_state := kRunning\<rparr>)"
  using m_resume_runs [OF sample_created_eq(1), of 1 sample_thread sample_switch]
  by (simp_all add: sample_running_def sample_created_eq)

lemma sample_yielded_eq: "m_yield sample_switch sample_running = (Inr (), sample_yielded)"
  "m_current sample_yielded = None" "m_threads sample_yielded 1 = Some (sample_thread\<lparr>mt_state := kSuspended\<rparr>)"
  using m_leaves_runs [OF sample_running_eq(3), of kSuspended sample_switch] sample_running_eq(2)
  by (simp_all add: sample_yielded_def m_yield_def)

lemma sample_reachable: "machine_reachable sample_switch sample_running"
proof -
  have "placed sample_switch False sample_thread sample_thread"
    by (simp add: placed_def outside_def separate_def sample_switch_def x64_stack_switch_def sample_thread_def)
  then have "layout_ok sample_switch ((m_threads (no_machine_threads sample_cpu))(1 \<mapsto> sample_thread))"
    by (simp add: layout_ok_def no_machine_threads_def)
  then have "machine_step sample_switch (no_machine_threads sample_cpu) sample_created"
    by (intro machine_step.Create [where t = 1 and th = sample_thread])
      (simp_all add: no_machine_threads_def sample_created_def m_create_runs)
  moreover have "machine_step sample_switch sample_created sample_running"
    by (rule machine_step.Resume [OF _ sample_running_eq(1)]) (simp add: sample_created_eq)
  ultimately show ?thesis
    unfolding machine_reachable_def by (meson rtranclp.rtrancl_into_rtrancl rtranclp.rtrancl_refl)
qed

lemma sample_switch_target:
  "sample_switch \<in> {x64_stack_switch 0x401000 0x402000, arm64_stack_switch 0x401000 0x402000}"
  by (simp add: sample_switch_def)

theorem processor_refines_threads_witness:
  "\<exists>a :: (u64 list, u64 list) threads. reachable a \<and> current_vm_thread a = Some 1 \<and>
     (\<exists>th. live_threads a 1 = Some th \<and> thread_state th = kRunning)"
proof -
  obtain a where a: "reachable a" "represents sample_switch a sample_running"
    using processor_refines_threads [OF sample_switch_target sample_reachable] by blast
  have cur: "current_vm_thread a = Some 1" using representsD(1) [OF a(2)] sample_running_eq(2) by simp
  obtain th where th: "live_threads a 1 = Some th"
    using represented_thread [OF a(2) sample_running_eq(3)] by blast
  from threads_okD(1) [OF reachable_ok [OF a(1)] th] cur th a(1) show ?thesis by blast
qed

text \<open>C15: a suspended thread continues where it yielded, on both processors. After any number of steps of
  the host and of other threads, which may be created, run, suspended, stopped and destroyed, a
  \<open>Resume\<close> succeeds and puts the processor into the context that the thread's call of the switch had
  saved: the return address, the stack pointer and all registers that a callee must keep.\<close>

theorem suspended_threads_continue:
  assumes "S \<in> {x64_stack_switch wrap_main start, arm64_stack_switch wrap_main start}"
    and "machine_reachable S s" and "m_current s = Some t" and "m_threads s t = Some mt"
    and "m_yield S s = (r, s1)"
    and "(\<lambda>x y. machine_step S x y \<and> m_threads y t = m_threads x t)\<^sup>*\<^sup>* s1 s2"
    and "m_current s2 = None" and "m_resume S t s2 = (r', s3)"
  shows "r = Inr () \<and> r' = Inr () \<and> loaded_context S (m_cpu s3) =
    saved_context S (call_switch S (mt_my_thread_state mt) (mt_main_thread_state mt) (m_cpu s))"
  using stack_switching.suspended_continues [OF both_targets [OF assms(1)] assms(2-8)] .

theorem suspended_threads_continue_witness:
  "loaded_context sample_switch (m_cpu (snd (m_resume sample_switch 1 sample_yielded))) =
     saved_context sample_switch (call_switch sample_switch 0x1000 0x2000 (m_cpu sample_running))"
proof -
  obtain r' s3 where "m_resume sample_switch 1 sample_yielded = (r', s3)" by fastforce
  with suspended_threads_continue [OF sample_switch_target sample_reachable sample_running_eq(2,3)
      sample_yielded_eq(1) rtranclp.rtrancl_refl sample_yielded_eq(2)]
  show ?thesis by (simp add: sample_thread_def)
qed

section \<open>Stacks that are too small\<close>



end
