(* ===== verification/Vm_Coroutine.thy ===== *)
theory Vm_Coroutine
  imports Vm_Thread
begin

text \<open>
  VM threads as their user sees them: a call of \<open>Resume\<close> runs the thread's function up to its
  next \<open>Yield\<close> or its end and then returns. The code of the functions is a parameter \<open>code\<close>,
  which says for every point of a function what happens to the data of the program until the next
  \<open>Yield\<close> (and at which point the function is then) or until the function returns. This is the
  specification the operations of the theory Vm_Thread are shown to implement.
\<close>

section \<open>Executing a thread's function\<close>

type_synonym ('w, 'k) thread_code = "'k \<Rightarrow> ('w, 'k option) op"

type_synonym ('h, 'k, 'w, 'a) vm_op = "(('h, 'k) threads \<times> 'w, 'a) op"

fun code_point :: "('h, 'k) vm_thread \<Rightarrow> 'k thread_point \<Rightarrow> 'k option" where
  "code_point th Entry = Some (thread_func th)"
| "code_point th (Point k) = Some k"
| "code_point th _ = None"

text \<open>An exception that the function does not catch has nowhere to go on the thread's stack: the
  process is terminated.\<close>

fun terminate :: "exn \<Rightarrow> exn" where
  "terminate (Aborted m) = Aborted m"
| "terminate (UndefinedBehaviour m) = UndefinedBehaviour m"
| "terminate e = Aborted ''terminate called after throwing an exception''"

text \<open>The processor executes the current thread, from \<open>VMThreadStart\<close> or from where it continues,
  until control is back in the host.\<close>

definition run_thread :: "('w, 'k) thread_code \<Rightarrow> ('h, 'k, 'w, unit) vm_op" where
  "run_thread code = (\<lambda>(s, w).
     case (current_vm_thread s, control s) of
       (Some t, Thread p) \<Rightarrow>
         (case Option.bind (live_threads s t) (\<lambda>th. code_point th p) of
            None \<Rightarrow> (Inl (UndefinedBehaviour ''no code''), (s, w))
          | Some k \<Rightarrow>
              (case code k w of
                 (Inl e, w') \<Rightarrow> (Inl (terminate e), (s, w'))
               | (Inr (Some k'), w') \<Rightarrow> on_fst (yield_thread k') (s, w')
               | (Inr None, w') \<Rightarrow> on_fst (thread_returns t) (s, w')))
     | _ \<Rightarrow> (Inr (), (s, w)))"

definition resume_and_run :: "('w, 'k) thread_code \<Rightarrow> thread_id \<Rightarrow> 'h \<Rightarrow> ('h, 'k, 'w, unit) vm_op" where
  "resume_and_run code t h = seq (on_fst (resume t h)) (\<lambda>_. run_thread code)"

section \<open>The specification\<close>

datatype 'k coroutine = Ready | Paused 'k

text \<open>What is left of a coroutine with function \<open>f\<close> after it has run to its next pause.\<close>

definition continue_at :: "'k \<Rightarrow> 'k coroutine \<Rightarrow> 'k" where
  "continue_at f c = (case c of Ready \<Rightarrow> f | Paused k \<Rightarrow> k)"

definition continue_with :: "'k option \<Rightarrow> 'k coroutine" where
  "continue_with r = (case r of None \<Rightarrow> Ready | Some k \<Rightarrow> Paused k)"

definition coroutine_of :: "('h, 'k) vm_thread \<Rightarrow> 'k coroutine" where
  "coroutine_of th = (case resume_point th of Point k \<Rightarrow> Paused k | _ \<Rightarrow> Ready)"

text \<open>The host can resume a thread: no thread is running and the invariant holds.\<close>

definition host_runs :: "'h \<Rightarrow> ('h, 'k) threads \<Rightarrow> bool" where
  "host_runs h s \<longleftrightarrow> threads_ok s \<and> control s = Host h"

lemma host_runs_none: "host_runs h s \<Longrightarrow> current_vm_thread s = None"
  by (simp add: host_runs_def threads_ok_def)

lemma host_runs_state: "host_runs h s \<Longrightarrow> live_threads s t = Some th \<Longrightarrow> thread_state th \<noteq> kRunning"
  by (auto simp: threads_okD host_runs_none host_runs_def)

lemma code_point_resumed:
  assumes "host_runs h s" and "live_threads s t = Some th"
  shows "code_point th (resume_point th) = Some (continue_at (thread_func th) (coroutine_of th))"
proof -
  have "resume_point th = Entry \<or> (\<exists>k. resume_point th = Point k)"
    using resume_point_ok [OF _ host_runs_none [OF assms(1)] assms(2)] assms(1) by (simp add: host_runs_def)
  then show ?thesis by (auto simp: continue_at_def coroutine_of_def)
qed

text \<open>The thread after it has been resumed from \<open>h\<close> and has paused or ended.\<close>

definition paused_thread :: "'h \<Rightarrow> 'k option \<Rightarrow> ('h, 'k) vm_thread \<Rightarrow> ('h, 'k) vm_thread" where
  "paused_thread h r th = th\<lparr>main_thread_state := Some h,
     thread_state := (case r of None \<Rightarrow> kStopped | Some k \<Rightarrow> kSuspended),
     my_thread_state := (case r of None \<Rightarrow> AtExit | Some k \<Rightarrow> Point k)\<rparr>"

lemma paused_thread_simps [simp]:
  "coroutine_of (paused_thread h r th) = continue_with r"
  "thread_func (paused_thread h r th) = thread_func th"
  "thread_state (paused_thread h r th) = (if r = None then kStopped else kSuspended)"
  by (auto simp: coroutine_of_def resume_point_def paused_thread_def continue_with_def split: option.split)

lemma resume_and_run_eq:
  assumes s: "host_runs h0 s" and th: "live_threads s t = Some th"
  shows "resume_and_run code t h (s, w) =
    (case code (continue_at (thread_func th) (coroutine_of th)) w of
       (Inl e, w') \<Rightarrow> (Inl (terminate e), (snd (resume t h s), w'))
     | (Inr r, w') \<Rightarrow> (Inr (), (s\<lparr>live_threads := (live_threads s)(t \<mapsto> paused_thread h r th),
         control := Host h\<rparr>, w')))"
proof -
  let ?p = "resume_point th"
  let ?th = "th\<lparr>thread_state := kRunning, my_thread_state := ?p, main_thread_state := Some h\<rparr>"
  define s1 where "s1 = s\<lparr>current_vm_thread := Some t, live_threads := (live_threads s)(t \<mapsto> ?th),
    control := Thread ?p\<rparr>"
  have none: "current_vm_thread s = None" using s by (rule host_runs_none)
  note point = code_point_resumed [OF s th]
  then have "?p \<noteq> Zeroed" by auto
  from resume_runs [OF none th this] have r: "resume t h s = (Inr (), s1)" by (simp add: s1_def)
  have s1: "current_vm_thread s1 = Some t" "live_threads s1 t = Some ?th" "main_thread_state ?th = Some h"
    "control s1 = Thread ?p" by (simp_all add: s1_def)
  have "code_point ?th ?p = code_point th ?p" by (cases ?p) simp_all
  with point have k: "Option.bind (live_threads s1 t) (\<lambda>th. code_point th ?p) =
      Some (continue_at (thread_func th) (coroutine_of th))"
    by (simp add: s1)
  have outside: "s1\<lparr>current_vm_thread := None,
      live_threads := (live_threads s1)(t \<mapsto> th\<lparr>main_thread_state := Some h, thread_state := st,
      my_thread_state := p\<rparr>), control := Host h\<rparr> =
    s\<lparr>live_threads := (live_threads s)(t \<mapsto> th\<lparr>main_thread_state := Some h, thread_state := st,
      my_thread_state := p\<rparr>), control := Host h\<rparr>" for st p
    using none by (cases s; cases th) (simp add: s1_def)
  note leave = yield_runs [OF s1(1-3)] returns_runs [OF s1(2,3)]
  show ?thesis
    using k
    by (simp add: resume_and_run_def run_thread_def seq_def on_fst_run r s1(1,4) leave outside
        paused_thread_def split: prod.split sum.split option.split)
qed

lemma host_runs_after:
  assumes "host_runs h0 s" and "live_threads s t = Some th"
  shows "host_runs h (s\<lparr>live_threads := (live_threads s)(t \<mapsto> paused_thread h r th), control := Host h\<rparr>)"
  using assms host_runs_none [OF assms(1)]
  by (auto simp: host_runs_def threads_ok_def paused_thread_def split: option.split)

section \<open>Properties\<close>

text \<open>C10: threads are coroutines. Resuming a live thread from the host at \<open>h\<close> runs its function
  from where it paused last, or from the start if it never did, to its next \<open>Yield\<close> or its end,
  and then continues the host at \<open>h\<close>, with no thread running and every other thread as it was;
  only an exception that the function does not catch ends the process.\<close>

theorem resume_refines_coroutine:
  assumes "host_runs h0 s" and "live_threads s t = Some th"
  shows "case code (continue_at (thread_func th) (coroutine_of th)) w of
      (Inl e, w') \<Rightarrow> fst (resume_and_run code t h (s, w)) = Inl (terminate e)
    | (Inr r, w') \<Rightarrow> (\<exists>s' th'. resume_and_run code t h (s, w) = (Inr (), (s', w')) \<and>
        host_runs h s' \<and> live_threads s' = (live_threads s)(t \<mapsto> th') \<and>
        coroutine_of th' = continue_with r \<and> thread_func th' = thread_func th \<and>
        (thread_state th' = kStopped \<longleftrightarrow> r = None))"
proof -
  note run = resume_and_run_eq [OF assms, where code = code and h = h and w = w]
  obtain o' w' where c: "code (continue_at (thread_func th) (coroutine_of th)) w = (o', w')" by fastforce
  show ?thesis
  proof (cases o')
    case (Inl e)
    with run c show ?thesis by simp
  next
    case (Inr r)
    with run c have "resume_and_run code t h (s, w) = (Inr (), (s\<lparr>live_threads :=
        (live_threads s)(t \<mapsto> paused_thread h r th), control := Host h\<rparr>, w'))" by simp
    moreover note host_runs_after [OF assms, of h r]
    ultimately show ?thesis using c Inr
      by (auto split: option.split if_splits intro!: exI [of _ "paused_thread h r th"])
  qed
qed

text \<open>A function that counts to three in the data of the program, and yields after every step.\<close>

definition counting :: "(nat, nat) thread_code" where
  "counting k w = (Inr (if k < 2 then Some (k + 1) else None), w + 1)"

theorem resume_refines_coroutine_witness:
  "let s = \<lparr>current_vm_thread = None, live_threads = [1 \<mapsto> new_vm_thread 0], control = Host ()\<rparr>
   in \<exists>s' th'. resume_and_run counting 1 () (s, 10) = (Inr (), (s', 11)) \<and> host_runs () s' \<and>
     live_threads s' 1 = Some th' \<and> coroutine_of th' = Paused 1"
proof -
  let ?s = "\<lparr>current_vm_thread = None, live_threads = [1 \<mapsto> new_vm_thread 0], control = Host ()\<rparr>
    :: (unit, nat) threads"
  have "host_runs () ?s" by (auto simp: host_runs_def threads_ok_def new_vm_thread_def)
  from resume_refines_coroutine [OF this, of 1 "new_vm_thread 0" counting "()" 10] show ?thesis
    by (fastforce simp: counting_def continue_at_def coroutine_of_def resume_point_def new_vm_thread_def
        continue_with_def)
qed

section \<open>Functions that end\<close>

text \<open>From the point \<open>k\<close> and the data \<open>w\<close> the function yields \<open>n\<close> times and then returns.\<close>

inductive returns_after :: "('w, 'k) thread_code \<Rightarrow> nat \<Rightarrow> 'k \<Rightarrow> 'w \<Rightarrow> 'w \<Rightarrow> bool"
  for code where
  Returns: "code k w = (Inr None, w') \<Longrightarrow> returns_after code 0 k w w'"
| Yields: "code k w = (Inr (Some k'), w1) \<Longrightarrow> returns_after code n k' w1 w' \<Longrightarrow>
    returns_after code (Suc n) k w w'"

inductive_cases returns_after_0: "returns_after code 0 k w w'"
inductive_cases returns_after_Suc: "returns_after code (Suc n) k w w'"

section \<open>What users of threads rely on\<close>

text \<open>\<open>VMThread::state\<close>, and that the host at \<open>h\<close> can resume the thread \<open>t\<close>, which has the function
  \<open>f\<close> and is at \<open>c\<close>.\<close>

definition state_of :: "thread_id \<Rightarrow> ('h, 'k) threads \<Rightarrow> thread_state option" where
  "state_of t s = map_option thread_state (live_threads s t)"

definition thread_at :: "'h \<Rightarrow> thread_id \<Rightarrow> 'k \<Rightarrow> 'k coroutine \<Rightarrow> ('h, 'k) threads \<Rightarrow> bool" where
  "thread_at h t f c s \<longleftrightarrow> host_runs h s \<and>
     (\<exists>th. live_threads s t = Some th \<and> thread_func th = f \<and> coroutine_of th = c)"

locale coroutine_threads =
  fixes at :: "'h \<Rightarrow> thread_id \<Rightarrow> 'k \<Rightarrow> 'k coroutine \<Rightarrow> 's \<Rightarrow> bool"
    and state :: "thread_id \<Rightarrow> 's \<Rightarrow> thread_state option"
    and resume_thread :: "('w, 'k) thread_code \<Rightarrow> thread_id \<Rightarrow> 'h \<Rightarrow> ('s \<times> 'w, unit) op"
    and stop_thread :: "thread_id \<Rightarrow> ('s, unit) op"
  assumes state_law: "at h t f c s \<Longrightarrow> state t s = Some (if c = Ready then kStopped else kSuspended)"
    and resume_law: "at h0 t f c s \<Longrightarrow> code (continue_at f c) w = (Inr r, w') \<Longrightarrow>
      \<exists>s'. resume_thread code t h (s, w) = (Inr (), (s', w')) \<and> at h t f (continue_with r) s'"
    and exception_law: "at h0 t f c s \<Longrightarrow> code (continue_at f c) w = (Inl e, w') \<Longrightarrow>
      fst (resume_thread code t h (s, w)) = Inl (terminate e)"
    and stop_law: "at h t f c s \<Longrightarrow> \<exists>s'. stop_thread t s = (Inr (), s') \<and> at h t f Ready s'"
begin

text \<open>A function that yields \<open>n\<close> times has returned after \<open>n + 1\<close> calls of \<open>Resume\<close>.\<close>

lemma resume_until_returned:
  "returns_after code n k w w' \<Longrightarrow> at h t f c s \<Longrightarrow> continue_at f c = k \<Longrightarrow>
     \<exists>s'. repeat_op (Suc n) (resume_thread code t h) (s, w) = (Inr (), (s', w')) \<and> at h t f Ready s'"
proof (induction arbitrary: s c rule: returns_after.induct)
  case (Returns k w w')
  with resume_law [of h t f c s code w None w' h] show ?case
    by (auto simp: continue_with_def seq_def)
next
  case (Yields k w k' w1 n w')
  then obtain s1 where 1: "resume_thread code t h (s, w) = (Inr (), (s1, w1))"
    and "at h t f (Paused k') s1"
    using resume_law [of h t f c s code w "Some k'" w1 h] by (auto simp: continue_with_def)
  with Yields.IH [of "Paused k'" s1] show ?case
    by (auto simp: continue_at_def seq_run_Inr)
qed

text \<open>A stopped thread starts anew, wherever it was.\<close>

lemma stop_then_resume:
  assumes "at h t f c s" and "code f w = (Inr r, w')"
  shows "\<exists>s' s''. stop_thread t s = (Inr (), s') \<and> resume_thread code t h (s', w) = (Inr (), (s'', w')) \<and>
    at h t f (continue_with r) s''"
  using stop_law [OF assms(1)] resume_law [where c = Ready and code = code] assms(2)
  by (fastforce simp: continue_at_def)

end

lemma coroutine_state:
  assumes "host_runs h s" and "live_threads s t = Some th"
  shows "thread_state th = (if coroutine_of th = Ready then kStopped else kSuspended)"
proof -
  have "thread_state th \<noteq> kRunning" using assms by (rule host_runs_state)
  moreover have "thread_state th = kSuspended \<Longrightarrow> \<exists>k. my_thread_state th = Point k"
    using threads_okD(3) assms by (auto simp: host_runs_def)
  ultimately show ?thesis
    by (cases "thread_state th") (auto simp: coroutine_of_def resume_point_def)
qed

lemma thread_at_resume:
  assumes at: "thread_at h0 t f c s" and code: "code (continue_at f c) w = (Inr r, w')"
  shows "\<exists>s'. resume_and_run code t h (s, w) = (Inr (), (s', w')) \<and> thread_at h t f (continue_with r) s'"
proof -
  obtain th where s: "host_runs h0 s" and th: "live_threads s t = Some th" "thread_func th = f" "coroutine_of th = c"
    using at by (auto simp: thread_at_def)
  let ?s = "s\<lparr>live_threads := (live_threads s)(t \<mapsto> paused_thread h r th), control := Host h\<rparr>"
  have "resume_and_run code t h (s, w) = (Inr (), (?s, w'))"
    using resume_and_run_eq [OF s th(1), where code = code and h = h] code th(2,3) by simp
  moreover have "thread_at h t f (continue_with r) ?s"
    using host_runs_after [OF s th(1), of h r] th(2) by (simp add: thread_at_def)
  ultimately show ?thesis by blast
qed

lemma thread_at_stop:
  assumes "thread_at h t f c s"
  shows "\<exists>s'. stop t s = (Inr (), s') \<and> thread_at h t f Ready s'"
proof -
  obtain th where s: "host_runs h s" and th: "live_threads s t = Some th" "thread_func th = f"
    using assms by (auto simp: thread_at_def)
  have run: "thread_state th \<noteq> kRunning" using s th(1) by (rule host_runs_state)
  let ?s = "s\<lparr>live_threads := (live_threads s)(t \<mapsto> th\<lparr>thread_state := kStopped\<rparr>)\<rparr>"
  have "stop t s = (Inr (), ?s)" using th(1) run by (simp add: stop_runs)
  moreover have "thread_at h t f Ready ?s"
    using s th run threads_ok_stop [of s t th]
    by (simp add: thread_at_def host_runs_def coroutine_of_def resume_point_def)
  ultimately show ?thesis by blast
qed

interpretation vm_threads: coroutine_threads thread_at state_of resume_and_run stop
proof
  show "state_of t s = Some (if c = Ready then kStopped else kSuspended)" if "thread_at h t f c s"
    for h :: 'a and t f c and s :: "('a, 'b) threads"
    using that by (auto simp: thread_at_def state_of_def coroutine_state)
  show "fst (resume_and_run code t h (s, w)) = Inl (terminate e)"
    if "thread_at h0 t f c s" "code (continue_at f c) w = (Inl e, w')"
    for h0 h :: 'a and t f c and s :: "('a, 'b) threads" and code and w w' :: 'c and e
    using that by (auto simp: thread_at_def resume_and_run_eq)
qed (rule thread_at_resume, assumption+, erule thread_at_stop)

end
