(* ===== verification/Compiled_Module.thy ===== *)
theory Compiled_Module
  imports Machine
begin

text \<open>
  Whole modules: \<open>CompilerImpl\<close> of compiler/compiler.cc with its one code holder for all
  functions, and the data of compiler/module.h. Of asmjit these things are parameters: which
  instructions the assembler refuses to encode, and with which message; what of the holder's
  contents stays in front of the code that a new assembler emits; where the JIT runtime places a
  block of code; and the errors that its functions return, with their texts.
\<close>

section \<open>Compiled modules\<close>

record compiled_function =
  code_ptr :: u64
  compiled_meta :: function_metadata

text \<open>\<open>CompiledFunction::get\<close> and \<open>metadata\<close>.\<close>

definition compiled_get :: "compiled_function \<Rightarrow> u64" where
  [simp]: "compiled_get c = code_ptr c"

definition compiled_metadata :: "compiled_function \<Rightarrow> function_metadata" where
  [simp]: "compiled_metadata c = compiled_meta c"

record compiled_module =
  compiled_functions :: "compiled_function list"
  compiled_exports :: "name \<rightharpoonup> func_idx"

section \<open>The compiler of modules\<close>

text \<open>\<open>place_code\<close> gives the error and the pointer of \<open>JitRuntime::add\<close>; the error 0 is none.\<close>

record 'i asmjit =
  emit_error :: "'i \<Rightarrow> string option"
  kept_code :: "'i list \<Rightarrow> 'i list"
  init_error :: u32
  place_code :: "(u64 \<rightharpoonup> 'i list) \<Rightarrow> 'i list \<Rightarrow> u32 \<times> u64"
  error_as_string :: "u32 \<Rightarrow> string"

record 'i compiler_impl =
  jit_runtime :: "u64 \<rightharpoonup> 'i list"
  code_holder :: "'i list"

definition new_compiler_impl :: "'i compiler_impl" where
  "new_compiler_impl = \<lparr>jit_runtime = Map.empty, code_holder = []\<rparr>"

text \<open>\<open>Check\<close> and \<open>ThrowingErrorHandler\<close> of compiler/common/util.cc.\<close>

definition check :: "'i asmjit \<Rightarrow> u32 \<Rightarrow> ('s, unit) op" where
  "check J error =
     (if error \<noteq> 0 then throw (CompilationException (error_as_string J error)) else ret ())"

definition handle_error :: "string \<Rightarrow> exn + 'a" where
  "handle_error message = Inl (CompilationException message)"

text \<open>\<open>CompilerImpl::CompilerImpl\<close>.\<close>

definition create_compiler_impl :: "'i asmjit \<Rightarrow> exn + 'i compiler_impl" where
  "create_compiler_impl J = (case check J (init_error J) new_compiler_impl of
     (Inl e, s) \<Rightarrow> Inl e | (Inr _, s) \<Rightarrow> Inr s)"

text \<open>What one function emits, also when it throws half way.\<close>

definition generate_code :: "'i target \<Rightarrow> wasm_function \<Rightarrow> (exn + unit) \<times> 'i list" where
  "generate_code T f =
     (let m = meta f; fr = new_frame (t_cc T) m in
      map_prod id c_code
        (seq (prologue T fr m) (\<lambda>_. seq (for_each (compile_op T fr) (body f)) (\<lambda>_. epilogue T fr m))
          (new_compiler m)))"

lemma generate_code_function:
  "compile_function T f = (case generate_code T f of (Inl e, c) \<Rightarrow> Inl e | (Inr u, c) \<Rightarrow> Inr c)"
  by (simp add: compile_function_def generate_code_def Let_def map_prod_def split: prod.split sum.split)

text \<open>The assembler calls the error handler at the first instruction that it cannot encode, for instance
  one with an immediate that is too large. The handler throws, which ends the compilation there.\<close>

definition assemble :: "'i asmjit \<Rightarrow> (exn + unit) \<times> 'i list \<Rightarrow> (exn + unit) \<times> 'i list" where
  "assemble J = (\<lambda>(r, code).
     (case dropWhile (\<lambda>i. emit_error J i = None) code of
        [] \<Rightarrow> (r, code)
      | i # _ \<Rightarrow> (handle_error (the (emit_error J i)), takeWhile (\<lambda>i. emit_error J i = None) code)))"

lemma assemble_all: "list_all (\<lambda>i. emit_error J i = None) code \<Longrightarrow> assemble J (r, code) = (r, code)"
  by (simp add: assemble_def list_all_iff dropWhile_eq_Nil_conv [THEN iffD2])

lemma assemble_Inr:
  "assemble J (r, code) = (Inr u, code') \<longleftrightarrow>
     r = Inr u \<and> code' = code \<and> list_all (\<lambda>i. emit_error J i = None) code"
proof (cases "dropWhile (\<lambda>i. emit_error J i = None) code")
  case Nil
  then have "list_all (\<lambda>i. emit_error J i = None) code" by (simp add: dropWhile_eq_Nil_conv list_all_iff)
  then show ?thesis by (auto simp: assemble_all)
next
  case (Cons i xs)
  then have "i \<in> set code" "emit_error J i \<noteq> None"
    using hd_dropWhile [of "\<lambda>i. emit_error J i = None" code] set_dropWhileD [of i "\<lambda>i. emit_error J i = None" code]
    by auto
  with Cons show ?thesis by (auto simp: assemble_def handle_error_def list_all_iff)
qed

definition compile_to_holder :: "'i asmjit \<Rightarrow> 'i target \<Rightarrow> wasm_function \<Rightarrow> ('i compiler_impl, unit) op" where
  "compile_to_holder J T f s = (case assemble J (generate_code T f) of (r, c) \<Rightarrow>
     (r, s\<lparr>code_holder := kept_code J (code_holder s) @ c\<rparr>))"

lemma compile_to_holder_Inr:
  "compile_to_holder J T f s = (Inr (), s') \<longleftrightarrow> (\<exists>code. generate_code T f = (Inr (), code) \<and>
     list_all (\<lambda>i. emit_error J i = None) code \<and> s' = s\<lparr>code_holder := kept_code J (code_holder s) @ code\<rparr>)"
  by (cases "generate_code T f") (force simp: compile_to_holder_def assemble_Inr assemble_all split: prod.splits)

definition add_to_runtime :: "'i asmjit \<Rightarrow> ('i compiler_impl, u64) op" where
  "add_to_runtime J s = (case place_code J (jit_runtime s) (code_holder s) of (error, p) \<Rightarrow>
     seq (check J error) (\<lambda>_ s.
       (Inr p, s\<lparr>jit_runtime := (jit_runtime s)(p \<mapsto> code_holder s)\<rparr>)) s)"

lemma add_to_runtime_Inr:
  "add_to_runtime J s = (Inr p, s') \<longleftrightarrow> place_code J (jit_runtime s) (code_holder s) = (0, p) \<and>
     s' = s\<lparr>jit_runtime := (jit_runtime s)(p \<mapsto> code_holder s)\<rparr>"
  by (auto simp: add_to_runtime_def check_def seq_Inr_iff split: prod.splits if_splits)

definition compile_one :: "'i asmjit \<Rightarrow> 'i target \<Rightarrow> wasm_function \<Rightarrow> ('i compiler_impl, compiled_function) op" where
  "compile_one J T f =
     seq (compile_to_holder J T f) (\<lambda>_.
     seq (add_to_runtime J) (\<lambda>p.
     ret \<lparr>code_ptr = p, compiled_meta = meta f\<rparr>))"

primrec compile_functions ::
    "'i asmjit \<Rightarrow> 'i target \<Rightarrow> wasm_function list \<Rightarrow> ('i compiler_impl, compiled_function list) op" where
  "compile_functions J T [] = ret []"
| "compile_functions J T (f # fs) =
     seq (compile_one J T f) (\<lambda>c. seq (compile_functions J T fs) (\<lambda>cs. ret (c # cs)))"

definition compile_module :: "'i asmjit \<Rightarrow> 'i target \<Rightarrow> parsed_module \<Rightarrow> ('i compiler_impl, compiled_module) op" where
  "compile_module J T p =
     seq (compile_functions J T (module_functions p)) (\<lambda>cs.
     ret \<lparr>compiled_functions = cs, compiled_exports = exported_functions p\<rparr>)"

definition release_function :: "compiled_function \<Rightarrow> ('i compiler_impl, unit) op" where
  "release_function c = modify (\<lambda>s. s\<lparr>jit_runtime := (jit_runtime s)(compiled_get c := None)\<rparr>)"

definition release_module :: "compiled_module \<Rightarrow> ('i compiler_impl, unit) op" where
  "release_module m = for_each release_function (compiled_functions m)"

text \<open>What asmjit documents: code that has been added stays where it is until it is released, so a
  block is placed where there is none.\<close>

definition places_fresh :: "'i asmjit \<Rightarrow> bool" where
  "places_fresh J \<longleftrightarrow> (\<forall>r c p. place_code J r c = (0, p) \<longrightarrow> r p = None)"

section \<open>What ends up in the holder\<close>

text \<open>The contents of the holder after each function of a list, starting from \<open>h\<close>.\<close>

primrec holders :: "'i asmjit \<Rightarrow> 'i target \<Rightarrow> wasm_function list \<Rightarrow> 'i list \<Rightarrow> 'i list list" where
  "holders J T [] h = []"
| "holders J T (f # fs) h =
     (let h' = kept_code J h @ snd (generate_code T f) in h' # holders J T fs h')"

lemma compile_one_Inr:
  "compile_one J T f s = (Inr c, s') \<longleftrightarrow>
     (\<exists>code p. compile_function T f = Inr code \<and> list_all (\<lambda>i. emit_error J i = None) code \<and>
        place_code J (jit_runtime s) (kept_code J (code_holder s) @ code) = (0, p) \<and>
        c = \<lparr>code_ptr = p, compiled_meta = meta f\<rparr> \<and>
        s' = \<lparr>jit_runtime = (jit_runtime s)(p \<mapsto> kept_code J (code_holder s) @ code),
              code_holder = kept_code J (code_holder s) @ code\<rparr>)"
  by (cases s)
    (auto simp: compile_one_def compile_to_holder_Inr add_to_runtime_Inr generate_code_function seq_Inr_iff
      split: prod.splits sum.splits)

lemma compile_functions_runtime:
  assumes "places_fresh J" and "compile_functions J T fs s = (Inr cs, s')"
  shows "\<forall>p. jit_runtime s p \<noteq> None \<longrightarrow> jit_runtime s' p = jit_runtime s p"
  using assms(2)
proof (induction fs arbitrary: s cs)
  case (Cons f fs)
  then obtain c s1 cs' where 1: "compile_one J T f s = (Inr c, s1)"
    and 2: "compile_functions J T fs s1 = (Inr cs', s')" by (auto simp: seq_Inr_iff)
  from 1 assms(1) have "\<forall>p. jit_runtime s p \<noteq> None \<longrightarrow> jit_runtime s1 p = jit_runtime s p"
    unfolding compile_one_Inr places_fresh_def by fastforce
  with Cons.IH [OF 2] show ?case by metis
qed simp

lemma compile_functions_meta:
  "compile_functions J T fs s = (Inr cs, s') \<Longrightarrow> map compiled_meta cs = map meta fs"
  by (induction fs arbitrary: s cs) (auto simp: seq_Inr_iff compile_one_Inr)

lemma compile_module_meta:
  assumes "compile_module J T p s = (Inr m, s')"
  shows "map compiled_meta (compiled_functions m) = map meta (module_functions p)"
    and "compiled_exports m = exported_functions p"
  using assms by (auto simp: compile_module_def seq_Inr_iff compile_functions_meta)

lemma compile_functions_holders:
  assumes "places_fresh J" and "compile_functions J T fs s = (Inr cs, s')"
  shows "map compiled_meta cs = map meta fs \<and>
    list_all2 (\<lambda>c h. jit_runtime s' (code_ptr c) = Some h) cs (holders J T fs (code_holder s)) \<and>
    list_all (\<lambda>f. compile_function T f = Inr (snd (generate_code T f))) fs"
  using assms(2)
proof (induction fs arbitrary: s cs)
  case (Cons f fs)
  then obtain c s1 cs' where 1: "compile_one J T f s = (Inr c, s1)"
    and 2: "compile_functions J T fs s1 = (Inr cs', s')" and cs: "cs = c # cs'"
    by (auto simp: seq_Inr_iff)
  from 1 obtain code p where c: "compile_function T f = Inr code"
      "c = \<lparr>code_ptr = p, compiled_meta = meta f\<rparr>"
    and s1: "s1 = \<lparr>jit_runtime = (jit_runtime s)(p \<mapsto> kept_code J (code_holder s) @ code),
        code_holder = kept_code J (code_holder s) @ code\<rparr>"
    unfolding compile_one_Inr by blast
  from c(1) have code: "snd (generate_code T f) = code"
    by (auto simp: generate_code_function split: prod.splits sum.splits)
  have "jit_runtime s' p = Some (kept_code J (code_holder s) @ code)"
    using compile_functions_runtime [OF assms(1) 2] s1 by auto
  with Cons.IH [OF 2] show ?case by (simp add: cs c code s1 Let_def)
qed simp

lemma compiled_code:
  assumes "places_fresh J" and "compile_module J T p s = (Inr m, s')" and "i < length (module_functions p)"
  shows "jit_runtime s' (code_ptr (compiled_functions m ! i)) =
    Some (holders J T (module_functions p) (code_holder s) ! i)"
proof -
  from assms(2) have "compile_functions J T (module_functions p) s = (Inr (compiled_functions m), s')"
    by (auto simp: compile_module_def seq_Inr_iff)
  note h = compile_functions_holders [OF assms(1) this]
  then have "length (compiled_functions m) = length (module_functions p)" by (metis length_map)
  with h assms(3) show ?thesis by (simp add: list_all2_conv_all_nth)
qed

lemma compiled_functions_compile:
  assumes "places_fresh J" and "compile_module J T p s = (Inr m, s')" and "f \<in> set (module_functions p)"
  obtains code where "compile_function T f = Inr code"
proof -
  from assms(2) have "compile_functions J T (module_functions p) s = (Inr (compiled_functions m), s')"
    by (auto simp: compile_module_def seq_Inr_iff)
  from compile_functions_holders [OF assms(1) this] assms(3) show thesis
    by (auto simp: list_all_iff intro: that)
qed

text \<open>A code block that starts with a function's code runs that function.\<close>

lemma dropWhile_append_tail:
  "dropWhile P xs = y # ys \<Longrightarrow> dropWhile P (xs @ zs) = y # ys @ zs"
  by (induction xs) auto

lemma run_code_append: "run_code T step c m = Some m' \<Longrightarrow> run_code T step (c @ d) m = Some m'"
proof (induction T step c m rule: run_code.induct)
  case (2 T step i "is" m)
  consider (ret) "i = t_return T" | (jump) "i \<noteq> t_return T" "i = t_jump_exit T"
    | (bind) "i \<noteq> t_return T" "i \<noteq> t_jump_exit T" "i = t_bind_exit T"
    | (other) "i \<noteq> t_return T" "i \<noteq> t_jump_exit T" "i \<noteq> t_bind_exit T" by blast
  then show ?case
  proof cases
    case ret
    with 2(4) show ?thesis by simp
  next
    case jump
    with 2(4) have run: "run_code T step (dropWhile (\<lambda>j. j \<noteq> t_bind_exit T) is) m = Some m'"
      by (simp split: if_splits)
    then obtain x xs where "dropWhile (\<lambda>j. j \<noteq> t_bind_exit T) is = x # xs"
      by (cases "dropWhile (\<lambda>j. j \<noteq> t_bind_exit T) is") simp_all
    with 2(1) [OF jump run] jump show ?thesis by (simp add: dropWhile_append_tail)
  next
    case bind
    with 2(4) have "run_code T step is m = Some m'" by (simp split: if_splits)
    with 2(2) [OF bind this] bind show ?thesis by simp
  next
    case other
    with 2(4) have "run_code T step is (step i m) = Some m'" by (simp split: if_splits)
    with 2(3) [OF other this] other show ?thesis by simp
  qed
qed simp

text \<open>\<open>CodeHolder\<close> keeps the code of the section, and a new assembler emits at its end.\<close>

lemma holders_prefix:
  assumes "\<And>h. kept_code J h = h" and "i < length fs"
  shows "holders J T fs h ! i = h @ concat (map (snd \<circ> generate_code T) (take (Suc i) fs))"
  using assms(2)
proof (induction fs arbitrary: h i)
  case (Cons f fs)
  then show ?case by (cases i) (auto simp: assms(1) Let_def)
qed simp

section \<open>Properties\<close>

text \<open>C26: a module that compiles has its functions in order, with their metadata, and the exports of
  the parsed module; every function was compiled, and every pointer is one at which the JIT runtime
  holds what was in the code holder then; the first function compiled by a fresh compiler has
  exactly its own code, and code of other modules stays as it was.\<close>

theorem compiled_module_installed:
  assumes "places_fresh J" and "compile_module J T p s = (Inr m, s')"
  shows "map compiled_meta (compiled_functions m) = map meta (module_functions p) \<and>
    compiled_exports m = exported_functions p \<and>
    (\<forall>i < length (module_functions p).
      compile_function T (module_functions p ! i) = Inr (snd (generate_code T (module_functions p ! i))) \<and>
      jit_runtime s' (code_ptr (compiled_functions m ! i)) =
        Some (holders J T (module_functions p) (code_holder s) ! i)) \<and>
    (\<forall>q. jit_runtime s q \<noteq> None \<longrightarrow> jit_runtime s' q = jit_runtime s q)"
proof -
  let ?fs = "module_functions p" and ?cs = "compiled_functions m"
  from assms(2) have run: "compile_functions J T ?fs s = (Inr ?cs, s')"
    and m: "compiled_exports m = exported_functions p"
    by (auto simp: compile_module_def seq_Inr_iff)
  note h = compile_functions_holders [OF assms(1) run]
  have "length ?cs = length ?fs" using h by (metis length_map)
  with h have "\<forall>i < length ?fs. compile_function T (?fs ! i) = Inr (snd (generate_code T (?fs ! i))) \<and>
      jit_runtime s' (code_ptr (?cs ! i)) = Some (holders J T ?fs (code_holder s) ! i)"
    by (auto simp: list_all2_conv_all_nth list_all_length)
  with h m compile_functions_runtime [OF assms(1) run] show ?thesis by simp
qed

text \<open>An assembler that encodes everything, with a JIT runtime that has room for two blocks, and a
  module of two functions that return constants.\<close>

definition sample_jit :: "'i asmjit" where
  "sample_jit = \<lparr>emit_error = Map.empty, kept_code = (\<lambda>h. h), init_error = 0,
     place_code = (\<lambda>r c. if r 0x1000 = None then (0, 0x1000) else if r 0x2000 = None then (0, 0x2000) else (1, 0)),
     error_as_string = (\<lambda>e. ''OutOfMemory'')\<rparr>"

lemma sample_jit_run:
  "kept_code sample_jit h = h" "assemble sample_jit x = x"
  "add_to_runtime sample_jit s =
     (if jit_runtime s 0x1000 = None then (Inr 0x1000, s\<lparr>jit_runtime := (jit_runtime s)(0x1000 \<mapsto> code_holder s)\<rparr>)
      else if jit_runtime s 0x2000 = None then (Inr 0x2000, s\<lparr>jit_runtime := (jit_runtime s)(0x2000 \<mapsto> code_holder s)\<rparr>)
      else (Inl (CompilationException ''OutOfMemory''), s))"
  by (cases x; simp add: sample_jit_def assemble_all list_all_iff add_to_runtime_def check_def seq_def)+

definition constant_function :: "u32 \<Rightarrow> wasm_function" where
  "constant_function n =
     \<lparr>meta = \<lparr>signature = \<lparr>parameter_types = [], result_types = [kI32]\<rparr>, locals = [],
              max_stack_size_bytes = 4, max_stack_elements = 1\<rparr>, body = [ConstI32 (value_U32 n)]\<rparr>"

definition two_constants :: parsed_module where
  "two_constants = \<lparr>module_functions = [constant_function 1, constant_function 2],
     exported_functions = [[0x61] \<mapsto> 0, [0x62] \<mapsto> 1]\<rparr>"

definition two_constants_compiled :: "compiled_module \<times> arm64_instr compiler_impl" where
  "two_constants_compiled = (case compile_module sample_jit arm64_target two_constants new_compiler_impl of
     (Inr m, s) \<Rightarrow> (m, s))"

lemma sample_places_fresh: "places_fresh sample_jit"
  by (simp add: places_fresh_def sample_jit_def)

lemma constant_code:
  "generate_code arm64_target (constant_function 1) = (Inr (),
     [A_SubSp 16, A_Ldr (R32 0) 4, A_MovImm (R32 0) 1, A_Bind, A_AddSp 16, A_Ret (R64 30)])"
  "generate_code arm64_target (constant_function 2) = (Inr (),
     [A_SubSp 16, A_Ldr (R32 0) 4, A_MovImm (R32 0) 2, A_Bind, A_AddSp 16, A_Ret (R64 30)])"
  by code_simp+

lemma two_constants_compiles:
  "compile_module sample_jit arm64_target two_constants new_compiler_impl =
     (Inr (fst two_constants_compiled), snd two_constants_compiled)"
  "compiled_functions (fst two_constants_compiled) =
     [\<lparr>code_ptr = 0x1000, compiled_meta = meta (constant_function 1)\<rparr>,
      \<lparr>code_ptr = 0x2000, compiled_meta = meta (constant_function 2)\<rparr>]"
  by (simp_all add: two_constants_compiled_def compile_module_def two_constants_def compile_one_def
      compile_to_holder_def constant_code sample_jit_run new_compiler_impl_def seq_def)

theorem compiled_module_installed_witness:
  "jit_runtime (snd two_constants_compiled) 0x1000 =
     Some [A_SubSp 16, A_Ldr (R32 0) 4, A_MovImm (R32 0) 1, A_Bind, A_AddSp 16, A_Ret (R64 30)]"
proof -
  have "jit_runtime (snd two_constants_compiled) (code_ptr (compiled_functions (fst two_constants_compiled) ! 0)) =
      Some (holders sample_jit arm64_target (module_functions two_constants) (code_holder new_compiler_impl) ! 0)"
    using compiled_module_installed [OF sample_places_fresh two_constants_compiles(1)]
    by (simp add: two_constants_def)
  then show ?thesis
    by (simp add: two_constants_compiles(2) two_constants_def constant_code sample_jit_def
        new_compiler_impl_def Let_def)
qed

text \<open>C27: one code holder serves every function and is never reset. asmjit's assembler emits at the
  end of the section, so the code that is added to the JIT runtime for a function starts with the
  code of every function before it: a call of any function of a module runs the module's first
  function.\<close>

theorem later_functions_run_first:
  assumes "places_fresh J" and kept: "\<And>h. kept_code J h = h"
    and "compile_module J T p new_compiler_impl = (Inr m, s')" and i: "i < length (module_functions p)"
    and first: "compile_function T (hd (module_functions p)) = Inr first_code"
    and returns: "run_code T step first_code c = Some c'"
  shows "\<exists>code. jit_runtime s' (code_ptr (compiled_functions m ! i)) = Some code \<and>
    run_code T step code c = Some c'"
proof -
  let ?fs = "module_functions p"
  from assms(3) have run: "compile_functions J T ?fs new_compiler_impl = (Inr (compiled_functions m), s')"
    by (auto simp: compile_module_def seq_Inr_iff)
  note h = compile_functions_holders [OF assms(1) run]
  have len: "length (compiled_functions m) = length ?fs" using h by (metis length_map)
  have "holders J T ?fs [] ! i = concat (map (snd \<circ> generate_code T) (take (Suc i) ?fs))"
    using holders_prefix [OF kept i] by simp
  moreover have "concat (map (snd \<circ> generate_code T) (take (Suc i) ?fs)) =
      first_code @ concat (map (snd \<circ> generate_code T) (take i (tl ?fs)))"
    using i first h by (cases ?fs) simp_all
  ultimately have "holders J T ?fs [] ! i = first_code @ concat (map (snd \<circ> generate_code T) (take i (tl ?fs)))"
    by simp
  with h i len run_code_append [OF returns] show ?thesis
    by (fastforce simp: list_all2_conv_all_nth new_compiler_impl_def)
qed

theorem later_functions_run_first_witness:
  "let c = \<lparr>regs = (\<lambda>_. 0)(31 := 0x8000), mem = (\<lambda>_. 0), carry = False\<rparr>;
       second = compiled_functions (fst two_constants_compiled) ! 1
   in \<exists>code c'. jit_runtime (snd two_constants_compiled) (code_ptr second) = Some code \<and>
     run_code arm64_target arm64_step code c = Some c' \<and> low c' 0 = 1"
proof -
  let ?c = "\<lparr>regs = (\<lambda>_. 0)(31 := 0x8000), mem = (\<lambda>_. 0), carry = False\<rparr>"
  let ?code = "[A_SubSp 16, A_Ldr (R32 0) 4, A_MovImm (R32 0) 1, A_Bind, A_AddSp 16, A_Ret (R64 30)]"
  obtain c' where run: "run_code arm64_target arm64_step ?code ?c = Some c'" and r: "low c' 0 = 1"
    by (simp add: arm64_target_def low_def)
  have "compile_function arm64_target (hd (module_functions two_constants)) = Inr ?code"
    by (simp add: two_constants_def generate_code_function constant_code)
  from later_functions_run_first [OF sample_places_fresh _ two_constants_compiles(1) _ this run, of 1] r
  show ?thesis by (simp add: two_constants_def sample_jit_def Let_def) blast
qed

end
