(* ===== verification/Virtual_Machine.thy ===== *)
theory Virtual_Machine
  imports Vm_Coroutine Compiled_Module
begin

text \<open>
  The virtual machine: runtime/vm.cc, runtime/vm.h, runtime/function_handle.cc and
  runtime/signature_converter.h. A VM has a compiled module, one VM thread and the function that
  is to be started (\<open>_current_fn\<close>). What a C++ closure does when it is called is a parameter
  \<open>call\<close>, code with points as in the theory Vm_Coroutine.
\<close>

section \<open>Native signatures\<close>

text \<open>The types of C++ arguments and results that matter; another type does not compile.\<close>

datatype native_type = Int32 | UInt32 | Int64 | UInt64 | Float | Double | Unsupported

fun native_to_wasm :: "native_type \<Rightarrow> val_type option" where
  "native_to_wasm Int32 = Some kI32"
| "native_to_wasm UInt32 = Some kI32"
| "native_to_wasm Int64 = Some kI64"
| "native_to_wasm UInt64 = Some kI64"
| "native_to_wasm Float = Some kF32"
| "native_to_wasm Double = Some kF64"
| "native_to_wasm Unsupported = None"

fun append_converted_wasm_type :: "native_type list \<Rightarrow> val_type list \<Rightarrow> val_type list option" where
  "append_converted_wasm_type [] out = Some out"
| "append_converted_wasm_type (t # ts) out =
     (case native_to_wasm t of None \<Rightarrow> None | Some v \<Rightarrow> append_converted_wasm_type ts (out @ [v]))"

definition convert_native_signature :: "native_type list \<Rightarrow> val_type list option" where
  "convert_native_signature ts = append_converted_wasm_type ts []"

text \<open>The arguments and the result (\<open>None\<close> is \<open>void\<close>) of a native function type.\<close>

definition signature_from_native :: "native_type list \<Rightarrow> native_type option \<Rightarrow> block_type option" where
  "signature_from_native args res =
     (case (convert_native_signature args,
            case res of None \<Rightarrow> Some [] | Some r \<Rightarrow> convert_native_signature [r]) of
        (Some ps, Some rs) \<Rightarrow> Some \<lparr>parameter_types = ps, result_types = rs\<rparr>
      | _ \<Rightarrow> None)"

lemma append_converted: "append_converted_wasm_type ts out =
    map_option (\<lambda>vs. out @ vs) (those (map native_to_wasm ts))"
  by (induction ts arbitrary: out)
    (auto simp: option.map_comp comp_def split: option.split intro: option.map_cong)

section \<open>Looking up a function\<close>

definition lookup_function_handle_dynamic ::
    "compiled_module \<Rightarrow> name \<Rightarrow> block_type \<Rightarrow> exn + compiled_function option" where
  "lookup_function_handle_dynamic m nm sig =
     (case compiled_exports m nm of
        None \<Rightarrow> Inr None
      | Some i \<Rightarrow>
          if unat i < length (compiled_functions m)
          then let c = compiled_functions m ! unat i
               in if signature (compiled_metadata c) \<noteq> sig then Inr None else Inr (Some c)
          else Inl (UndefinedBehaviour ''vector index out of range''))"

section \<open>Computations\<close>

text \<open>The points of the VM thread's function \<open>RunInternal\<close>: its start, and where it is after the
  \<open>Yield\<close>, with the closure in the local \<open>fn\<close>.\<close>

datatype 'f vm_point = RunInternal | Invoke 'f

type_synonym ('f, 'w) vm_data = "'f option \<times> 'w"

fun vm_code :: "('w, 'f) thread_code \<Rightarrow> (('f, 'w) vm_data, 'f vm_point) thread_code" where
  "vm_code call RunInternal (current_fn, w) =
     (case current_fn of
        None \<Rightarrow> abort_with ''run_internal called without anything to run'' (None, w)
      | Some fn \<Rightarrow> (Inr (Some (Invoke fn)), (None, w)))"
| "vm_code call (Invoke fn) (current_fn, w) =
     (case call fn w of (r, w') \<Rightarrow> (map_sum id (map_option Invoke) r, (current_fn, w')))"

text \<open>\<open>VMImpl::VMImpl\<close>.\<close>

definition create_vm :: "thread_id \<Rightarrow> ('h, 'f vm_point) thread_op" where
  "create_vm t = create_thread t RunInternal"

definition invoke_dynamic ::
    "('w, 'f) thread_code \<Rightarrow> thread_id \<Rightarrow> 'f \<Rightarrow> 'h \<Rightarrow> ('h, 'f vm_point, ('f, 'w) vm_data, unit) vm_op" where
  "invoke_dynamic call t fn h x =
     (if fst (snd x) \<noteq> None \<or> state_of t (fst x) \<noteq> Some kStopped
      then (Inl (RuntimeError ''cannot run a function when one is already executing.''), x)
      else resume_and_run (vm_code call) t h (fst x, (Some fn, snd (snd x))))"

definition execute ::
    "('w, 'f) thread_code \<Rightarrow> thread_id \<Rightarrow> 'h \<Rightarrow> ('h, 'f vm_point, ('f, 'w) vm_data, unit) vm_op" where
  "execute call t h x =
     (if state_of t (fst x) = Some kSuspended then resume_and_run (vm_code call) t h x else (Inr (), x))"

definition cancel :: "thread_id \<Rightarrow> ('h, 'f vm_point, ('f, 'w) vm_data, unit) vm_op" where
  "cancel t x = (if state_of t (fst x) = Some kSuspended then on_fst (stop t) x else (Inr (), x))"

definition is_done :: "thread_id \<Rightarrow> (('h, 'k) threads \<times> 'w) \<Rightarrow> bool" where
  "is_done t x \<longleftrightarrow> state_of t (fst x) = Some kStopped"

text \<open>What \<open>FunctionHandle\<close> and \<open>Computation\<close> ask of their user: execute until it is done.\<close>

partial_function (option) execute_until_done ::
    "('w, 'f) thread_code \<Rightarrow> thread_id \<Rightarrow> 'h \<Rightarrow> (('h, 'f vm_point) threads \<times> ('f, 'w) vm_data) \<Rightarrow>
      ((exn + unit) \<times> (('h, 'f vm_point) threads \<times> ('f, 'w) vm_data)) option" where
  "execute_until_done call t h x =
     (if is_done t x then Some (Inr (), x)
      else case execute call t h x of
        (Inl e, y) \<Rightarrow> Some (Inl e, y)
      | (Inr u, y) \<Rightarrow> execute_until_done call t h y)"

section \<open>The life of a computation\<close>

text \<open>The abstract view of a VM whose host is executing: idle, or with a computation at some point.\<close>

definition vm_at :: "'h \<Rightarrow> thread_id \<Rightarrow> 'f vm_point coroutine \<Rightarrow> 'f option \<Rightarrow> 'w \<Rightarrow>
    (('h, 'f vm_point) threads \<times> ('f, 'w) vm_data) \<Rightarrow> bool" where
  "vm_at h t c cur w x \<longleftrightarrow> thread_at h t RunInternal c (fst x) \<and> snd x = (cur, w)"

lemma vm_at_state: "vm_at h t c cur w x \<Longrightarrow> state_of t (fst x) = Some (if c = Ready then kStopped else kSuspended)"
  unfolding vm_at_def by (rule vm_threads.state_law) blast

lemma vm_at_done: "vm_at h t c cur w x \<Longrightarrow> is_done t x \<longleftrightarrow> c = Ready"
  by (simp add: is_done_def vm_at_state)

lemma vm_resume:
  assumes "vm_at h0 t c cur w x" and "vm_code call (continue_at RunInternal c) (cur', w) = (Inr r, (cur2, w2))"
  obtains x2 where "resume_and_run (vm_code call) t h (fst x, (cur', w)) = (Inr (), x2)"
    and "vm_at h t (continue_with r) cur2 w2 x2"
proof -
  have "thread_at h0 t RunInternal c (fst x)" using assms(1) by (simp add: vm_at_def)
  from vm_threads.resume_law [where code = "vm_code call" and h = h, OF this assms(2)] obtain s'
    where "resume_and_run (vm_code call) t h (fst x, (cur', w)) = (Inr (), (s', (cur2, w2)))"
      and "thread_at h t RunInternal (continue_with r) s'" by blast
  then show thesis by (intro that [of "(s', (cur2, w2))"]) (simp_all add: vm_at_def)
qed

lemma vm_resume_error:
  assumes "vm_at h0 t c cur w x" and "vm_code call (continue_at RunInternal c) (cur', w) = (Inl e, w2)"
  shows "fst (resume_and_run (vm_code call) t h (fst x, (cur', w))) = Inl (terminate e)"
proof -
  have "thread_at h0 t RunInternal c (fst x)" using assms(1) by (simp add: vm_at_def)
  then show ?thesis using assms(2) by (rule vm_threads.exception_law)
qed

lemma vm_at_fst: "vm_at h t c cur w x \<Longrightarrow> x = (fst x, (cur, w))"
  by (cases x) (simp add: vm_at_def)

lemma invoke_idle:
  assumes "vm_at h0 t Ready None w x"
  obtains x2 where "invoke_dynamic call t fn h x = (Inr (), x2)" and "vm_at h t (Paused (Invoke fn)) None w x2"
proof -
  have code: "vm_code call (continue_at RunInternal Ready) (Some fn, w) = (Inr (Some (Invoke fn)), (None, w))"
    by (simp add: continue_at_def)
  obtain x2 where "resume_and_run (vm_code call) t h (fst x, (Some fn, w)) = (Inr (), x2)"
    and "vm_at h t (continue_with (Some (Invoke fn))) None w x2"
    by (rule vm_resume [OF assms code])
  moreover have "state_of t (fst x) = Some kStopped" "snd x = (None, w)"
    using vm_at_state [OF assms] assms by (simp_all add: vm_at_def)
  ultimately show thesis
    by (intro that [of x2]) (simp_all add: invoke_dynamic_def continue_with_def)
qed

lemma execute_paused:
  assumes "vm_at h0 t (Paused (Invoke f)) cur w x" and "call f w = (Inr r, w2)"
  obtains x2 where "execute call t h x = (Inr (), x2)"
    and "vm_at h t (continue_with (map_option Invoke r)) cur w2 x2"
proof -
  have code: "vm_code call (continue_at RunInternal (Paused (Invoke f))) (cur, w) =
      (Inr (map_option Invoke r), (cur, w2))"
    using assms(2) by (simp add: continue_at_def)
  obtain x2 where x2: "resume_and_run (vm_code call) t h (fst x, (cur, w)) = (Inr (), x2)"
    "vm_at h t (continue_with (map_option Invoke r)) cur w2 x2"
    by (rule vm_resume [OF assms(1) code])
  moreover have "state_of t (fst x) = Some kSuspended" using vm_at_state [OF assms(1)] by simp
  ultimately have "execute call t h x = (Inr (), x2)"
    using vm_at_fst [OF assms(1)] by (simp add: execute_def)
  then show thesis using x2(2) by (rule that)
qed

lemma cancel_paused:
  assumes "vm_at h t c cur w x"
  obtains x2 where "cancel t x = (Inr (), x2)" and "vm_at h t Ready cur w x2"
proof (cases "c = Ready")
  case True
  with that assms vm_at_state [OF assms] show thesis by (simp add: cancel_def)
next
  case False
  have x: "thread_at h t RunInternal c (fst x)" "x = (fst x, (cur, w))"
    using assms vm_at_fst [OF assms] by (simp_all add: vm_at_def)
  from vm_threads.stop_law [OF x(1)] obtain s' where s': "stop t (fst x) = (Inr (), s')"
    "thread_at h t RunInternal Ready s'" by blast
  have "state_of t (fst x) = Some kSuspended" using False vm_at_state [OF assms] by simp
  then have "cancel t x = on_fst (stop t) (fst x, (cur, w))" using x(2) by (simp add: cancel_def)
  then have "cancel t x = (Inr (), (s', (cur, w)))" by (simp add: on_fst_run s'(1))
  then show thesis using s'(2) by (intro that [of "(s', (cur, w))"]) (simp_all add: vm_at_def)
qed

section \<open>Properties\<close>

lemma execute_until_done_returns:
  assumes "returns_after call n f w w'" and "vm_at h t (Paused (Invoke f)) cur w x"
  shows "\<exists>x'. execute_until_done call t h x = Some (Inr (), x') \<and> vm_at h t Ready cur w' x'"
  using assms
proof (induction arbitrary: x rule: returns_after.induct)
  case (Returns f w w')
  obtain x2 where "execute call t h x = (Inr (), x2)"
    and "vm_at h t (continue_with (map_option Invoke None)) cur w' x2"
    using execute_paused [where call = call, OF Returns(2,1)] by blast
  with Returns(2) show ?case
    by (intro exI [of _ x2])
      (simp add: execute_until_done.simps [of _ _ _ x] execute_until_done.simps [of _ _ _ x2]
        vm_at_done continue_with_def)
next
  case (Yields f w f' w1 n w')
  obtain x2 where 1: "execute call t h x = (Inr (), x2)"
    and "vm_at h t (continue_with (map_option Invoke (Some f'))) cur w1 x2"
    using execute_paused [where call = call, OF Yields.prems Yields.hyps(1)] by blast
  then have "vm_at h t (Paused (Invoke f')) cur w1 x2" by (simp add: continue_with_def)
  from Yields.IH [OF this] 1 Yields.prems show ?case
    by (simp add: execute_until_done.simps [of _ _ _ x] vm_at_done)
qed

lemma create_vm_at:
  assumes "host_runs h s" and "live_threads s t = None"
  shows "vm_at h t Ready None w (snd (create_vm t s), (None, w))"
  using assms threads_ok_create [of s t RunInternal]
  by (auto simp: create_vm_def create_runs vm_at_def thread_at_def host_runs_def new_vm_thread_def coroutine_of_def
      resume_point_def)

lemma computation_returns:
  assumes "vm_at h0 t Ready None w x" and "returns_after call n fn w w'"
  shows "\<exists>x1 x2. invoke_dynamic call t fn h x = (Inr (), x1) \<and> \<not> is_done t x1 \<and> snd (snd x1) = w \<and>
    execute_until_done call t h x1 = Some (Inr (), x2) \<and> is_done t x2 \<and> vm_at h t Ready None w' x2"
proof -
  obtain x1 where 1: "invoke_dynamic call t fn h x = (Inr (), x1)" "vm_at h t (Paused (Invoke fn)) None w x1"
    using assms(1) by (rule invoke_idle)
  from execute_until_done_returns [OF assms(2) 1(2)] obtain x2
    where 2: "execute_until_done call t h x1 = Some (Inr (), x2)" "vm_at h t Ready None w' x2" by blast
  from 1 2 vm_at_done [OF 1(2)] vm_at_done [OF 2(2)] show ?thesis
    by (intro exI [of _ x1] exI [of _ x2]) (simp add: vm_at_def)
qed

text \<open>C11: a computation ends when its function does. On an idle VM \<open>InvokeDynamic\<close> succeeds without
  running any of the function; if the function, from the data as it is, returns after some number
  of yields, then executing the computation until it is done terminates, with the data that the
  function left, and the VM is idle again.\<close>

theorem computation_terminates:
  assumes "vm_at h0 t Ready None w x" and "returns_after call n fn w w'"
  shows "\<exists>x1 x2. invoke_dynamic call t fn h x = (Inr (), x1) \<and> \<not> is_done t x1 \<and> snd (snd x1) = w \<and>
    execute_until_done call t h x1 = Some (Inr (), x2) \<and> is_done t x2 \<and> vm_at h t Ready None w' x2"
  using assms by (rule computation_returns)

lemma counting_returns: "returns_after counting 2 0 w (w + 3)"
proof -
  have "returns_after counting 0 2 (w + 2) (w + 3)" by (rule returns_after.Returns) (simp add: counting_def)
  then have "returns_after counting (Suc 0) 1 (w + 1) (w + 3)"
    by (rule returns_after.Yields [rotated]) (simp add: counting_def)
  then have "returns_after counting (Suc (Suc 0)) 0 w (w + 3)"
    by (rule returns_after.Yields [rotated]) (simp add: counting_def)
  then show ?thesis by (simp add: numeral_2_eq_2)
qed

definition sample_vm :: "(unit, nat vm_point) threads \<times> (nat, nat) vm_data" where
  "sample_vm = (snd (create_vm 1 (no_threads ())), (None, 10))"

lemma sample_vm_at: "vm_at () 1 Ready None 10 sample_vm"
  unfolding sample_vm_def
  by (rule create_vm_at) (simp_all add: host_runs_def threads_ok_none, simp_all add: no_threads_def)

theorem computation_terminates_witness:
  "\<exists>x1 x2. invoke_dynamic counting 1 0 () sample_vm = (Inr (), x1) \<and>
     execute_until_done counting 1 () x1 = Some (Inr (), x2) \<and> is_done 1 x2 \<and> snd (snd x2) = 13"
  using computation_terminates [OF sample_vm_at counting_returns, of "()"] by (auto simp: vm_at_def)

text \<open>What the host can do with a VM: the calls that return, in any order.\<close>

inductive vm_reachable ::
    "('w, 'f) thread_code \<Rightarrow> thread_id \<Rightarrow> (('h, 'f vm_point) threads \<times> ('f, 'w) vm_data) \<Rightarrow> bool"
  for call t where
  Create: "host_runs h s \<Longrightarrow> live_threads s t = None \<Longrightarrow> create_vm t s = (Inr (), s') \<Longrightarrow>
    vm_reachable call t (s', (None, w))"
| InvokeDynamic: "vm_reachable call t x \<Longrightarrow> invoke_dynamic call t fn h x = (Inr (), x') \<Longrightarrow> vm_reachable call t x'"
| Execute: "vm_reachable call t x \<Longrightarrow> execute call t h x = (Inr (), x') \<Longrightarrow> vm_reachable call t x'"
| Cancel: "vm_reachable call t x \<Longrightarrow> cancel t x = (Inr (), x') \<Longrightarrow> vm_reachable call t x'"

lemma vm_reachable_at:
  "vm_reachable call t x \<Longrightarrow> \<exists>h c w. vm_at h t c None w x \<and> c \<noteq> Paused RunInternal"
proof (induction rule: vm_reachable.induct)
  case (Create h s s' w)
  with create_vm_at [of h s t w] show ?case by fastforce
next
  case (InvokeDynamic x fn h x')
  then obtain h0 c w where at: "vm_at h0 t c None w x" by blast
  then have "c = Ready" using InvokeDynamic.hyps vm_at_state [OF at]
    by (auto simp: invoke_dynamic_def split: if_splits)
  with at have "vm_at h0 t Ready None w x" by simp
  then obtain x2 where "invoke_dynamic call t fn h x = (Inr (), x2)" "vm_at h t (Paused (Invoke fn)) None w x2"
    by (rule invoke_idle)
  with InvokeDynamic.hyps show ?case by auto
next
  case (Execute x h x')
  then obtain h0 c w where at: "vm_at h0 t c None w x" and c: "c \<noteq> Paused RunInternal" by blast
  show ?case
  proof (cases c)
    case Ready
    with at Execute.hyps vm_at_state [OF at] show ?thesis by (auto simp: execute_def)
  next
    case (Paused p)
    with c obtain f where p: "p = Invoke f" by (cases p) auto
    obtain r w2 where call: "call f w = (r, w2)" by fastforce
    show ?thesis
    proof (cases r)
      case (Inr q)
      with call have "call f w = (Inr q, w2)" by simp
      with at [unfolded Paused p] obtain x2 where "execute call t h x = (Inr (), x2)"
        "vm_at h t (continue_with (map_option Invoke q)) None w2 x2" by (rule execute_paused)
      with Execute.hyps show ?thesis by (cases q) (auto simp: continue_with_def)
    next
      case (Inl e)
      with call have "vm_code call (continue_at RunInternal c) (None, w) = (Inl e, (None, w2))"
        by (simp add: Paused p continue_at_def)
      from vm_resume_error [OF at this, of h] vm_at_fst [OF at] vm_at_state [OF at] Execute.hyps Paused
      show ?thesis by (simp add: execute_def)
    qed
  qed
next
  case (Cancel x x')
  then obtain h c w where "vm_at h t c None w x" by blast
  then obtain x2 where "cancel t x = (Inr (), x2)" "vm_at h t Ready None w x2" by (rule cancel_paused)
  with Cancel.hyps show ?case by auto
qed


lemma sample_vm_reachable: "vm_reachable counting 1 sample_vm"
  unfolding sample_vm_def
  by (rule vm_reachable.Create [where s = "no_threads ()"])
    (simp_all add: host_runs_def threads_ok_none, simp_all add: no_threads_def create_vm_def create_runs)


text \<open>C37: \<open>InvokeDynamic\<close> is not safe against its own failure. Called on an idle VM while some other
  VM thread is running, it throws out of \<open>Resume\<close>, but the function stays in \<open>_current_fn\<close>: from
  then on, whatever state the threads are in, the VM is done, refuses every function, and neither
  \<open>Execute\<close> nor \<open>Cancel\<close> changes that.\<close>

theorem failed_invoke_blocks_vm:
  assumes "current_vm_thread s = Some u" and "state_of t s = Some kStopped"
    and "invoke_dynamic call t fn h (s, (None, w)) = (r, x)"
  shows "r = Inl (RuntimeError ''VMThread does not support calling into another VMThread'') \<and>
    snd x = (Some fn, w) \<and>
    (\<forall>s'. state_of t s' = Some kStopped \<longrightarrow>
       is_done t (s', snd x) \<and>
       execute call t h (s', snd x) = (Inr (), (s', snd x)) \<and> cancel t (s', snd x) = (Inr (), (s', snd x)) \<and>
       (\<forall>g. invoke_dynamic call t g h (s', snd x) =
          (Inl (RuntimeError ''cannot run a function when one is already executing.''), (s', snd x))))"
proof -
  have "invoke_dynamic call t fn h (s, (None, w)) =
      (Inl (RuntimeError ''VMThread does not support calling into another VMThread''), (s, (Some fn, w)))"
    using assms(1,2)
    by (simp add: invoke_dynamic_def resume_and_run_def seq_def on_fst_run resume_refused)
  with assms(3) show ?thesis
    by (auto simp: is_done_def execute_def cancel_def invoke_dynamic_def)
qed

theorem failed_invoke_blocks_vm_witness:
  "let s = \<lparr>current_vm_thread = Some 2, live_threads = [1 \<mapsto> new_vm_thread RunInternal], control = Host ()\<rparr>;
       x = snd (invoke_dynamic counting 1 0 () (s, (None, 10)))
   in is_done 1 (fst sample_vm, snd x) \<and>
     invoke_dynamic counting 1 5 () (fst sample_vm, snd x) =
       (Inl (RuntimeError ''cannot run a function when one is already executing.''), (fst sample_vm, snd x))"
proof -
  let ?s = "\<lparr>current_vm_thread = Some 2, live_threads = [1 \<mapsto> new_vm_thread RunInternal], control = Host ()\<rparr>
    :: (unit, nat vm_point) threads"
  let ?i = "invoke_dynamic counting 1 0 () (?s, (None, 10))"
  have "current_vm_thread ?s = Some 2" and "state_of 1 ?s = Some kStopped"
    by (simp_all add: state_of_def new_vm_thread_def)
  moreover have "?i = (fst ?i, snd ?i)" by simp
  moreover have "state_of 1 (fst sample_vm) = Some kStopped"
    by (simp add: sample_vm_def create_vm_def create_runs no_threads_def state_of_def new_vm_thread_def)
  ultimately show ?thesis
    unfolding Let_def using failed_invoke_blocks_vm [where s = ?s and u = 2 and t = 1 and w = 10 and call = counting and fn = 0 and
        r = "fst ?i" and x = "snd ?i" and h = "()"]
    by blast
qed

end
