(* ===== verification/Function_Handle.thy ===== *)
theory Function_Handle
  imports Virtual_Machine
begin

text \<open>
  The typed interface of the virtual machine: \<open>VM::LookupFunctionHandle\<close> (runtime/vm.h),
  \<open>FunctionHandle\<close> and \<open>Computation\<close> (runtime/function_handle.h). Computations are objects with an
  address each, to which the closure that runs on the VM thread keeps a pointer.
\<close>

section \<open>Handles and computations\<close>

text \<open>What the closures of a handle hold: the compiled function, the arguments, and the pointer to the
  computation that gets the result.\<close>

record invocation =
  invoked :: compiled_function
  arguments :: "u32 list"
  computation :: nat

text \<open>The memory of the machine, and the \<open>_result\<close> of every computation that exists. The pointer
  \<open>_dyn\<close> is the one thread of the VM.\<close>

record native_world =
  native_machine :: machine
  computations :: "nat \<rightharpoonup> u32"
  next_computation :: nat

type_synonym 'h typed_vm = "('h, invocation vm_point) threads \<times> (invocation, native_world) vm_data"

definition on_world :: "(native_world \<Rightarrow> native_world) \<Rightarrow> 'h typed_vm \<Rightarrow> 'h typed_vm" where
  "on_world f x = (fst x, (fst (snd x), f (snd (snd x))))"

text \<open>\<open>new Computation()\<close>, with a result of zero, and its destruction.\<close>

definition new_computation :: "('h typed_vm, nat) op" where
  "new_computation x = (let n = next_computation (snd (snd x)) in
     (Inr n, on_world (\<lambda>w. w\<lparr>computations := (computations w)(n \<mapsto> 0), next_computation := n + 1\<rparr>) x))"

definition destroy_computation :: "nat \<Rightarrow> 'h typed_vm \<Rightarrow> 'h typed_vm" where
  "destroy_computation n = on_world (\<lambda>w. w\<lparr>computations := (computations w)(n := None)\<rparr>)"

definition lookup_function_handle ::
    "compiled_module \<Rightarrow> name \<Rightarrow> native_type list \<Rightarrow> native_type option \<Rightarrow>
      (exn + compiled_function option) option" where
  "lookup_function_handle m nm args res =
     map_option (lookup_function_handle_dynamic m nm) (signature_from_native args res)"

text \<open>The closure that is given to \<open>InvokeDynamic\<close>. It calls the function's pointer,
  \<open>CompiledFunction::apply\<close>, and stores the result in the computation. The C++ compiler's code for
  that call is the parameter \<open>enter\<close>, which puts the arguments in place; what is at the pointer
  is the JIT runtime's memory \<open>code_at\<close>.\<close>

definition apply_compiled ::
    "'i target \<Rightarrow> ('i \<Rightarrow> machine \<Rightarrow> machine) \<Rightarrow> (u64 \<rightharpoonup> 'i list) \<Rightarrow>
      (u32 list \<Rightarrow> machine \<Rightarrow> machine) \<Rightarrow> (native_world, invocation) thread_code" where
  "apply_compiled T step code_at enter fn w =
     (case Option.bind (code_at (compiled_get (invoked fn)))
             (\<lambda>code. run_code T step code (enter (arguments fn) (native_machine w))) of
        None \<Rightarrow> (Inl (UndefinedBehaviour ''call of an address without code''), w)
      | Some m \<Rightarrow>
          if computations w (computation fn) = None
          then (Inl (UndefinedBehaviour ''write to a destroyed computation''), w\<lparr>native_machine := m\<rparr>)
          else (Inr None, w\<lparr>native_machine := m,
                   computations := (computations w)(computation fn \<mapsto> low m 0)\<rparr>))"

text \<open>\<open>FunctionHandle::Invoke\<close>, which calls the closure of the handle for the function \<open>c\<close>. When
  \<open>InvokeDynamic\<close> throws, the computation is destroyed.\<close>

definition invoke_handle ::
    "(native_world, invocation) thread_code \<Rightarrow> thread_id \<Rightarrow> compiled_function \<Rightarrow> u32 list \<Rightarrow> 'h \<Rightarrow>
      ('h typed_vm, nat) op" where
  "invoke_handle call t c args h =
     seq new_computation (\<lambda>n y.
       (case invoke_dynamic call t \<lparr>invoked = c, arguments = args, computation = n\<rparr> h y of
          (Inl e, z) \<Rightarrow> (Inl e, destroy_computation n z)
        | (Inr _, z) \<Rightarrow> (Inr n, z)))"

text \<open>The members of \<open>Computation\<close>.\<close>

definition computation_execute ::
    "(native_world, invocation) thread_code \<Rightarrow> thread_id \<Rightarrow> 'h \<Rightarrow> ('h typed_vm, unit) op" where
  "computation_execute call t h = execute call t h"

definition computation_cancel :: "thread_id \<Rightarrow> ('h typed_vm, unit) op" where
  "computation_cancel t = cancel t"

definition computation_is_done :: "thread_id \<Rightarrow> 'h typed_vm \<Rightarrow> bool" where
  "computation_is_done t x = is_done t x"

definition get_result :: "nat \<Rightarrow> ('h typed_vm, u32) op" where
  "get_result n x = (case computations (snd (snd x)) n of
     None \<Rightarrow> (Inl (UndefinedBehaviour ''computation is destroyed''), x)
   | Some r \<Rightarrow> (Inr r, x))"

section \<open>Calls through handles\<close>

lemma new_computation_at:
  assumes "vm_at h t c cur w x" and "n = next_computation w"
  obtains y where "new_computation x = (Inr n, y)"
    and "vm_at h t c cur (w\<lparr>computations := (computations w)(n \<mapsto> 0), next_computation := n + 1\<rparr>) y"
proof (rule that)
  show "new_computation x = (Inr n, on_world (\<lambda>w. w\<lparr>computations := (computations w)(n \<mapsto> 0),
      next_computation := n + 1\<rparr>) x)"
    using assms by (simp add: new_computation_def vm_at_def Let_def)
qed (use assms in \<open>simp add: on_world_def vm_at_def\<close>)

text \<open>A call that returns: the computation is done after one execution, and its result is what the
  code left in the first result register. Computations that were there before keep theirs.\<close>

lemma handle_returns:
  assumes "vm_at h0 t Ready None w x" and "code_at (code_ptr c) = Some code"
    and "run_code T step code (enter args (native_machine w)) = Some m'"
  shows "\<exists>n w' x1 x2. invoke_handle (apply_compiled T step code_at enter) t c args h x = (Inr n, x1) \<and>
    execute_until_done (apply_compiled T step code_at enter) t h x1 = Some (Inr (), x2) \<and>
    vm_at h t Ready None w' x2 \<and> native_machine w' = m' \<and> computations w' n = Some (low m' 0) \<and>
    n < next_computation w' \<and> next_computation w \<le> next_computation w' \<and>
    (\<forall>k < next_computation w. computations w' k = computations w k)"
proof -
  let ?call = "apply_compiled T step code_at enter" and ?n = "next_computation w"
  let ?w = "w\<lparr>computations := (computations w)(?n \<mapsto> 0), next_computation := ?n + 1\<rparr>"
  let ?w' = "?w\<lparr>native_machine := m', computations := (computations ?w)(?n \<mapsto> low m' 0)\<rparr>"
  let ?f = "\<lparr>invoked = c, arguments = args, computation = ?n\<rparr>"
  obtain y where y: "new_computation x = (Inr ?n, y)" "vm_at h0 t Ready None ?w y"
    by (rule new_computation_at [OF assms(1) refl])
  have "returns_after ?call 0 ?f ?w ?w'"
    by (rule returns_after.Returns) (simp add: apply_compiled_def assms(2,3))
  from computation_returns [OF y(2) this, of h] obtain x1 x2 where x:
    "invoke_dynamic ?call t ?f h y = (Inr (), x1)" "execute_until_done ?call t h x1 = Some (Inr (), x2)"
    "vm_at h t Ready None ?w' x2" by blast
  moreover have "invoke_handle ?call t c args h x = (Inr ?n, x1)"
    using y(1) x(1) by (simp add: invoke_handle_def seq_run_Inr)
  ultimately show ?thesis by (intro exI [of _ ?n] exI [of _ ?w'] exI [of _ x1] exI [of _ x2]) simp
qed

text \<open>A host that calls the function of a handle again and again, each time executing the computation
  until it is done. It keeps the computations.\<close>

fun run_calls ::
    "(native_world, invocation) thread_code \<Rightarrow> thread_id \<Rightarrow> compiled_function \<Rightarrow> 'h \<Rightarrow> u32 list list \<Rightarrow>
      'h typed_vm \<Rightarrow> ((exn + nat list) \<times> 'h typed_vm) option" where
  "run_calls call t c h [] x = Some (Inr [], x)"
| "run_calls call t c h (args # rest) x =
     (case invoke_handle call t c args h x of
        (Inl e, y) \<Rightarrow> Some (Inl e, y)
      | (Inr n, y) \<Rightarrow> Option.bind (execute_until_done call t h y) (\<lambda>(r, z). case r of
          Inl e \<Rightarrow> Some (Inl e, z)
        | Inr _ \<Rightarrow> map_option (map_prod (map_sum id ((#) n)) id) (run_calls call t c h rest z)))"

text \<open>The result of a computation that is done.\<close>

definition result_is :: "'h typed_vm \<Rightarrow> nat \<Rightarrow> u32 \<Rightarrow> bool" where
  "result_is x n r \<longleftrightarrow> get_result n x = (Inr r, x)"

lemma result_is_iff: "vm_at h t c cur w x \<Longrightarrow> result_is x n r \<longleftrightarrow> computations w n = Some r"
  by (auto simp: result_is_def get_result_def vm_at_def split: option.split)

text \<open>If the code returns from every machine state in which it may be called, and leaves one, then any
  number of calls return, each with its own result.\<close>

lemma calls_return:
  assumes "code_at (code_ptr c) = Some code"
    and "\<And>args m. args \<in> set argss \<Longrightarrow> I m \<Longrightarrow>
      \<exists>m'. run_code T step code (enter args m) = Some m' \<and> I m' \<and> R args (low m' 0)"
    and "vm_at h0 t Ready None w x" and "I (native_machine w)"
  shows "\<exists>ns x'. run_calls (apply_compiled T step code_at enter) t c h argss x = Some (Inr ns, x') \<and>
    is_done t x' \<and> list_all2 (\<lambda>args n. \<exists>r. result_is x' n r \<and> R args r) argss ns \<and>
    (\<forall>k < next_computation w. computations (snd (snd x')) k = computations w k)"
  using assms(2-)
proof (induction argss arbitrary: h0 w x)
  case Nil
  then show ?case by (auto simp: vm_at_done) (simp add: vm_at_def)
next
  case (Cons args rest)
  let ?call = "apply_compiled T step code_at enter"
  obtain m' where m': "run_code T step code (enter args (native_machine w)) = Some m'" "I m'" "R args (low m' 0)"
    using Cons.prems(1) [of args "native_machine w"] Cons.prems(3) by auto
  from handle_returns [where code_at = code_at and h = h and enter = enter and args = args, OF Cons.prems(2) assms(1) m'(1)] obtain n w1 x1 x2
    where 1: "invoke_handle ?call t c args h x = (Inr n, x1)" "execute_until_done ?call t h x1 = Some (Inr (), x2)"
      "vm_at h t Ready None w1 x2" "native_machine w1 = m'" "computations w1 n = Some (low m' 0)"
      "n < next_computation w1" "next_computation w \<le> next_computation w1"
      "\<forall>k < next_computation w. computations w1 k = computations w k" by blast
  from Cons.IH [OF _ 1(3)] Cons.prems(1) m'(2) 1(4) obtain ns x' where
    2: "run_calls ?call t c h rest x2 = Some (Inr ns, x')" "is_done t x'"
      "list_all2 (\<lambda>args n. \<exists>r. result_is x' n r \<and> R args r) rest ns"
      "\<forall>k < next_computation w1. computations (snd (snd x')) k = computations w1 k" by auto
  have "result_is x' n (low m' 0)" using 1(5,6) 2(4) by (simp add: result_is_def get_result_def)
  with 1 2 m'(3) show ?case by (auto intro!: exI [of _ "n # ns"])
qed

lemma signature_from_native_result:
  "signature_from_native args (Some r) = Some sig \<Longrightarrow> result_types sig \<noteq> []"
  by (cases "native_to_wasm r")
    (auto simp: signature_from_native_def convert_native_signature_def split: option.splits)

section \<open>The life of a VM and of a computation\<close>

text \<open>\<open>VM::Create\<close>, and the destructor, which destroys the members of \<open>VMImpl\<close>: the thread first.\<close>

definition vm_create :: "thread_id \<Rightarrow> ('h, 'f vm_point) thread_op" where
  "vm_create t = create_vm t"

definition destroy_vm :: "thread_id \<Rightarrow> ('h, 'f vm_point) thread_op" where
  "destroy_vm t = destroy_thread t"

text \<open>Between two calls of the host a VM can always be destroyed, also with a computation that has
  not finished, which is dropped where it is.\<close>

lemma destroy_vm_at:
  assumes "vm_at h t c cur w x"
  shows "fst (destroy_vm t (fst x)) = Inr ()"
proof -
  obtain th where s: "host_runs h (fst x)" and th: "live_threads (fst x) t = Some th"
    using assms by (auto simp: vm_at_def thread_at_def)
  then show ?thesis
    using host_runs_none [OF s] host_runs_state [OF s th] by (simp add: destroy_vm_def destroy_runs [OF th])
qed

text \<open>A computation that is destroyed before it is done, without a \<open>Cancel\<close>, leaves its VM
  suspended: there is nothing left by which it could be resumed or stopped, and \<open>Invoke\<close> is refused
  for ever. The comment in \<open>InvokeDynamic\<close> says that it can be thrown away.\<close>

lemma discarded_computation_blocks_vm:
  assumes "vm_at h0 t (Paused p) cur w x"
  shows "fst (invoke_handle call t c args h (destroy_computation n x)) =
    Inl (RuntimeError ''cannot run a function when one is already executing.'')"
proof -
  have "state_of t (fst x) = Some kSuspended" using vm_at_state [OF assms] by simp
  then show ?thesis
    by (simp add: invoke_handle_def new_computation_def destroy_computation_def on_world_def seq_run_Inr
        invoke_dynamic_def Let_def)
qed

text \<open>With \<open>Cancel\<close> before, the next \<open>Invoke\<close> succeeds.\<close>

lemma cancelled_computation_leaves_vm:
  assumes "vm_at h t c cur w x" and "cur = None"
  shows "\<exists>x1 x2 n'. computation_cancel t x = (Inr (), x1) \<and>
    invoke_handle call t c' args h' (destroy_computation n x1) = (Inr n', x2)"
proof -
  obtain x1 where 1: "computation_cancel t x = (Inr (), x1)" "vm_at h t Ready None w x1"
    using cancel_paused [OF assms(1)] assms(2) by (metis computation_cancel_def)
  let ?w = "w\<lparr>computations := (computations w)(n := None)\<rparr>"
  have "vm_at h t Ready None ?w (destroy_computation n x1)"
    using 1(2) by (simp add: vm_at_def destroy_computation_def on_world_def)
  from new_computation_at [OF this refl] obtain y where
    y: "new_computation (destroy_computation n x1) = (Inr (next_computation ?w), y)"
      "vm_at h t Ready None (?w\<lparr>computations := (computations ?w)(next_computation ?w \<mapsto> 0),
         next_computation := next_computation ?w + 1\<rparr>) y" by blast
  obtain x2 where "invoke_dynamic call t \<lparr>invoked = c', arguments = args, computation = next_computation ?w\<rparr> h' y = (Inr (), x2)"
    by (rule invoke_idle [OF y(2)])
  with 1(1) y(1) show ?thesis by (cases x2) (simp add: invoke_handle_def seq_run_Inr)
qed

end
