(* ===== verification/Vm_Schedule.thy ===== *)
theory Vm_Schedule
  imports Virtual_Machine "HOL-Library.Infinite_Set"
begin

text \<open>
  Several virtual machines on one host thread. Every VM has its own VM thread and its own
  \<open>_current_fn\<close>; the data that functions work on are shared, so between two executions of one VM
  the others may have changed them. The host calls \<open>Execute\<close> on the VMs in some order.
\<close>

section \<open>Threads that take turns\<close>

text \<open>From the point \<open>k\<close> the function returns after at most \<open>n\<close> executions, whatever the data are
  when it is executed.\<close>

fun returns_within :: "('w, 'k) thread_code \<Rightarrow> nat \<Rightarrow> 'k \<Rightarrow> bool" where
  "returns_within code 0 k = False"
| "returns_within code (Suc n) k = (\<forall>w. \<exists>r w'. code k w = (Inr r, w') \<and>
     (case r of None \<Rightarrow> True | Some k' \<Rightarrow> returns_within code n k'))"

definition coroutine_within :: "('w, 'k) thread_code \<Rightarrow> nat \<Rightarrow> 'k coroutine \<Rightarrow> bool" where
  "coroutine_within code n c = (case c of Ready \<Rightarrow> True | Paused k \<Rightarrow> returns_within code n k)"

lemma coroutine_within_simps [simp]:
  "coroutine_within code n Ready" "coroutine_within code n (Paused k) = returns_within code n k"
  "coroutine_within code 0 c \<longleftrightarrow> c = Ready"
  by (auto simp: coroutine_within_def split: coroutine.split)

text \<open>What a user of several threads relies on besides the laws of one: a thread that is resumed
  leaves the others where they were.\<close>

locale coroutine_system = coroutine_threads at state resume_thread stop_thread
  for at :: "'h \<Rightarrow> thread_id \<Rightarrow> 'k \<Rightarrow> 'k coroutine \<Rightarrow> 's \<Rightarrow> bool"
    and state :: "thread_id \<Rightarrow> 's \<Rightarrow> thread_state option"
    and resume_thread :: "('w, 'k) thread_code \<Rightarrow> thread_id \<Rightarrow> 'h \<Rightarrow> ('s \<times> 'w, unit) op"
    and stop_thread :: "thread_id \<Rightarrow> ('s, unit) op" +
  assumes others_law: "at h0 t f c s \<Longrightarrow> resume_thread code t h (s, w) = (Inr (), (s', w')) \<Longrightarrow>
      t' \<noteq> t \<Longrightarrow> at h0 t' f' c' s \<Longrightarrow> at h t' f' c' s'"
begin

text \<open>A turn: a thread that is suspended is resumed, another one is left alone.\<close>

definition take_turn :: "(thread_id \<Rightarrow> ('w, 'k) thread_code) \<Rightarrow> 'h \<Rightarrow> thread_id \<Rightarrow> ('s \<times> 'w, unit) op" where
  "take_turn code h t x =
     (if state t (fst x) = Some kSuspended then resume_thread (code t) t h x else (Inr (), x))"

definition all_within ::
    "(thread_id \<Rightarrow> ('w, 'k) thread_code) \<Rightarrow> 'h \<Rightarrow> (thread_id \<Rightarrow> 'k) \<Rightarrow> thread_id set \<Rightarrow> (thread_id \<Rightarrow> nat) \<Rightarrow> 's \<Rightarrow> bool" where
  "all_within code h f ts n s \<longleftrightarrow> (\<forall>t \<in> ts. \<exists>c. at h t (f t) c s \<and> coroutine_within (code t) (n t) c)"

lemma all_within_update:
  assumes "all_within code h f ts n s" and "at h t (f t) c s'" and "coroutine_within (code t) m c"
    and "\<And>t' f' c'. t' \<noteq> t \<Longrightarrow> at h t' f' c' s \<Longrightarrow> at h t' f' c' s'"
  shows "all_within code h f ts (n(t := m)) s'"
  unfolding all_within_def
proof
  fix u assume u: "u \<in> ts"
  show "\<exists>c. at h u (f u) c s' \<and> coroutine_within (code u) ((n(t := m)) u) c"
  proof (cases "u = t")
    case True
    with assms(2,3) show ?thesis by auto
  next
    case False
    from assms(1) u obtain c' where "at h u (f u) c' s" "coroutine_within (code u) (n u) c'"
      unfolding all_within_def by blast
    with assms(4) [OF False] False show ?thesis by auto
  qed
qed

lemma take_turn_within:
  assumes "all_within code h f ts n s" and "t \<in> ts"
  obtains s' w' where "take_turn code h t (s, w) = (Inr (), (s', w'))"
    and "all_within code h f ts (n(t := n t - 1)) s'"
proof -
  obtain c where c: "at h t (f t) c s" "coroutine_within (code t) (n t) c"
    using assms by (auto simp: all_within_def)
  show thesis
  proof (cases c)
    case Ready
    with c state_law [OF c(1)] have "take_turn code h t (s, w) = (Inr (), (s, w))"
      by (simp add: take_turn_def)
    moreover have "all_within code h f ts (n(t := n t - 1)) s"
      by (rule all_within_update [OF assms(1) c(1)]) (simp_all add: Ready)
    ultimately show thesis by (rule that)
  next
    case (Paused k)
    with c(2) obtain m where m: "n t = Suc m" "returns_within (code t) (Suc m) k" by (cases "n t") auto
    then obtain r w' where "code t k w = (Inr r, w')"
      and "case r of None \<Rightarrow> True | Some k' \<Rightarrow> returns_within (code t) m k'"
      unfolding returns_within.simps by blast
    then have r: "code t k w = (Inr r, w')" "coroutine_within (code t) m (continue_with r)"
      by (simp_all add: coroutine_within_def continue_with_def split: option.splits)
    have "code t (continue_at (f t) c) w = (Inr r, w')" using r(1) Paused by (simp add: continue_at_def)
    from resume_law [where code = "code t", OF c(1) this] obtain s' where
      s': "resume_thread (code t) t h (s, w) = (Inr (), (s', w'))" "at h t (f t) (continue_with r) s'" by blast
    have "state t s = Some kSuspended" using state_law [OF c(1)] Paused by simp
    with s'(1) have "take_turn code h t (s, w) = (Inr (), (s', w'))" by (simp add: take_turn_def)
    moreover have "all_within code h f ts (n(t := n t - 1)) s'"
      by (rule all_within_update [OF assms(1) s'(2)])
        (use r(2) m(1) in simp, rule others_law [OF c(1) s'(1)])
    ultimately show thesis by (rule that)
  qed
qed

lemma turns_within:
  assumes "all_within code h f ts n s" and "set sched \<subseteq> ts"
  shows "\<exists>s' w'. for_each (take_turn code h) sched (s, w) = (Inr (), (s', w')) \<and>
    all_within code h f ts (\<lambda>t. n t - count_list sched t) s'"
  using assms
proof (induction sched arbitrary: s w n)
  case (Cons t sched)
  then have "t \<in> ts" "set sched \<subseteq> ts" by simp_all
  from take_turn_within [OF Cons.prems(1) this(1)]
  obtain s1 w1 where 1: "take_turn code h t (s, w) = (Inr (), (s1, w1))"
    and "all_within code h f ts (n(t := n t - 1)) s1" by blast
  from Cons.IH [OF this(2) \<open>set sched \<subseteq> ts\<close>, of w1] obtain s' w' where
    2: "for_each (take_turn code h) sched (s1, w1) = (Inr (), (s', w'))"
    "all_within code h f ts (\<lambda>u. (n(t := n t - 1)) u - count_list sched u) s'" by blast
  have "(\<lambda>u. (n(t := n t - 1)) u - count_list sched u) = (\<lambda>u. n u - count_list (t # sched) u)"
    by (auto simp: fun_eq_iff)
  with 1 2 show ?case by (simp add: seq_run_Inr)
qed simp

text \<open>Enough turns for everyone, in any order, and every thread has returned.\<close>

lemma all_return:
  assumes "all_within code h f ts n s" and "set sched \<subseteq> ts" and "\<And>t. t \<in> ts \<Longrightarrow> n t \<le> count_list sched t"
  shows "\<exists>s' w'. for_each (take_turn code h) sched (s, w) = (Inr (), (s', w')) \<and>
    (\<forall>t \<in> ts. at h t (f t) Ready s')"
proof -
  obtain s' w' where 1: "for_each (take_turn code h) sched (s, w) = (Inr (), (s', w'))"
    and 2: "all_within code h f ts (\<lambda>t. n t - count_list sched t) s'"
    using turns_within [OF assms(1,2)] by blast
  have "at h t (f t) Ready s'" if t: "t \<in> ts" for t
  proof -
    from 2 t obtain c where "at h t (f t) c s'" "coroutine_within (code t) (n t - count_list sched t) c"
      unfolding all_within_def by blast
    moreover have "n t - count_list sched t = 0" using assms(3) [OF t] by simp
    ultimately show ?thesis by simp
  qed
  with 1 show ?thesis by blast
qed

end

lemma thread_at_others:
  assumes "thread_at h0 t f c s" and "resume_and_run code t h (s, w) = (Inr (), (s', w'))"
    and "t' \<noteq> t" and "thread_at h0 t' f' c' s"
  shows "thread_at h t' f' c' s'"
proof -
  obtain th where s: "host_runs h0 s" and th: "live_threads s t = Some th"
    using assms(1) by (auto simp: thread_at_def)
  obtain r where s': "s' = s\<lparr>live_threads := (live_threads s)(t \<mapsto> paused_thread h r th), control := Host h\<rparr>"
    using assms(2) by (auto simp: resume_and_run_eq [OF s th] split: prod.splits sum.splits)
  with assms(3,4) host_runs_after [OF s th, of h r] show ?thesis by (auto simp: thread_at_def)
qed

interpretation vm_system: coroutine_system thread_at state_of resume_and_run stop
  by unfold_locales (rule thread_at_others)

section \<open>Several virtual machines\<close>

text \<open>\<open>_current_fn\<close> of every VM, and the shared data.\<close>

type_synonym ('h, 'f, 'w) vms =
  "('h, 'f vm_point) threads \<times> (thread_id \<Rightarrow> 'f option) \<times> 'w"

definition on_vm ::
    "thread_id \<Rightarrow> ('h, 'f vm_point, ('f, 'w) vm_data, unit) vm_op \<Rightarrow> (('h, 'f, 'w) vms, unit) op" where
  "on_vm t m x = (case m (fst x, (fst (snd x) t, snd (snd x))) of
     (r, (s, (cur, w))) \<Rightarrow> (r, (s, ((fst (snd x))(t := cur), w))))"

definition execute_vms ::
    "('w, 'f) thread_code \<Rightarrow> 'h \<Rightarrow> thread_id list \<Rightarrow> (('h, 'f, 'w) vms, unit) op" where
  "execute_vms call h = for_each (\<lambda>t. on_vm t (execute call t h))"

text \<open>Every one of the VMs \<open>ts\<close> has been invoked with a function that returns after at most
  \<open>n t\<close> executions, or is idle.\<close>

definition vms_within ::
    "('w, 'f) thread_code \<Rightarrow> 'h \<Rightarrow> thread_id set \<Rightarrow> (thread_id \<Rightarrow> nat) \<Rightarrow> ('h, 'f, 'w) vms \<Rightarrow> bool" where
  "vms_within call h ts n x \<longleftrightarrow> (\<forall>t \<in> ts. fst (snd x) t = None \<and>
     (thread_at h t RunInternal Ready (fst x) \<or>
      (\<exists>f. thread_at h t RunInternal (Paused (Invoke f)) (fst x) \<and> returns_within call (n t) f)))"

text \<open>The code of the VM's thread, on the data of all VMs.\<close>

definition vms_code :: "('w, 'f) thread_code \<Rightarrow> thread_id \<Rightarrow>
    ((thread_id \<Rightarrow> 'f option) \<times> 'w, 'f vm_point) thread_code" where
  "vms_code call t k d = (case vm_code call k (fst d t, snd d) of
     (r, (cur, w)) \<Rightarrow> (r, ((fst d)(t := cur), w)))"

lemma on_vm_resume:
  "on_vm t (resume_and_run (vm_code call) t h) x = resume_and_run (vms_code call t) t h x"
proof -
  obtain s cur w where x: "x = (s, (cur, w))" by (cases x) auto
  have fst: "\<And>m d. on_fst (m :: ('h, 'f vm_point) thread_op) (s, d) = (case m s of (r, s') \<Rightarrow> (r, (s', d)))" for s
    by (simp add: on_fst_def split: prod.split)
  show ?thesis
    by (simp add: x on_vm_def resume_and_run_def run_thread_def seq_def fst vms_code_def fun_upd_idem
        split: prod.split sum.split option.split control.split)
qed

lemma on_vm_execute: "on_vm t (execute call t h) = vm_system.take_turn (vms_code call) h t"
proof
  fix x :: "('a, 'b, 'c) vms"
  show "on_vm t (execute call t h) x = vm_system.take_turn (vms_code call) h t x"
    using on_vm_resume [of t call h x]
    by (cases x) (simp add: on_vm_def execute_def vm_system.take_turn_def fun_upd_idem)
qed

lemma execute_vms_turns: "execute_vms call h = for_each (vm_system.take_turn (vms_code call) h)"
  by (simp add: execute_vms_def on_vm_execute)

lemma returns_within_vms: "returns_within call n f \<Longrightarrow> returns_within (vms_code call t) n (Invoke f)"
proof (induction n arbitrary: f)
  case (Suc n)
  show ?case
    unfolding returns_within.simps
  proof
    fix d :: "(thread_id \<Rightarrow> 'a option) \<times> 'b"
    obtain r w' where "call f (snd d) = (Inr r, w')"
      and "case r of None \<Rightarrow> True | Some f' \<Rightarrow> returns_within call n f'"
      using Suc.prems unfolding returns_within.simps by blast
    moreover have "vms_code call t (Invoke f) d = (case call f (snd d) of
        (r, w') \<Rightarrow> (map_sum id (map_option Invoke) r, (fst d, w')))"
      by (simp add: vms_code_def fun_upd_idem split: prod.split)
    ultimately show "\<exists>r d'. vms_code call t (Invoke f) d = (Inr r, d') \<and>
        (case r of None \<Rightarrow> True | Some k' \<Rightarrow> returns_within (vms_code call t) n k')"
      using Suc.IH by (auto split: option.splits)
  qed
qed simp

lemma vms_all_within:
  assumes "vms_within call h ts n x"
  shows "vm_system.all_within (vms_code call) h (\<lambda>_. RunInternal) ts n (fst x)"
  unfolding vm_system.all_within_def
proof
  fix t assume "t \<in> ts"
  with assms consider "thread_at h t RunInternal Ready (fst x)"
    | f where "thread_at h t RunInternal (Paused (Invoke f)) (fst x)" "returns_within call (n t) f"
    unfolding vms_within_def by blast
  then show "\<exists>c. thread_at h t RunInternal c (fst x) \<and> coroutine_within (vms_code call t) (n t) c"
  proof cases
    case 1
    then show ?thesis by (intro exI [of _ Ready]) simp
  next
    case (2 f)
    then show ?thesis by (intro exI [of _ "Paused (Invoke f)"]) (simp add: returns_within_vms)
  qed
qed

lemma executions_complete:
  assumes "vms_within call h ts n x" and "set sched \<subseteq> ts" and "\<And>t. t \<in> ts \<Longrightarrow> n t \<le> count_list sched t"
  shows "\<exists>x'. execute_vms call h sched x = (Inr (), x') \<and> (\<forall>t \<in> ts. is_done t x')"
proof -
  have "vm_system.all_within (vms_code call) h (\<lambda>_. RunInternal) ts n (fst x)"
    using assms(1) by (rule vms_all_within)
  from vm_system.all_return [OF this assms(2,3), of "snd x"] obtain s' w' where
    run: "execute_vms call h sched x = (Inr (), (s', w'))" and ready: "\<forall>t \<in> ts. thread_at h t RunInternal Ready s'"
    unfolding execute_vms_turns by auto
  have "is_done t (s', w')" if "t \<in> ts" for t
    using vm_threads.state_law [of h t RunInternal Ready s'] ready that by (simp add: is_done_def)
  with run show ?thesis by blast
qed

section \<open>Fair schedules\<close>

text \<open>The first \<open>k\<close> turns of an infinite schedule.\<close>

definition first_turns :: "nat \<Rightarrow> (nat \<Rightarrow> thread_id) \<Rightarrow> thread_id list" where
  "first_turns k sched = map sched [0..<k]"

lemma first_turns_mono: "k \<le> j \<Longrightarrow> count_list (first_turns k sched) t \<le> count_list (first_turns j sched) t"
proof -
  assume "k \<le> j"
  then have "first_turns j sched = first_turns k sched @ map sched [k..<j]"
    unfolding first_turns_def using upt_add_eq_append [of 0 k "j - k"] by simp
  then show ?thesis by simp
qed

lemma fair_count:
  assumes "infinite {i. sched i = t}"
  shows "\<exists>k. n \<le> count_list (first_turns k sched) t"
proof (induction n)
  case (Suc n)
  then obtain k where k: "n \<le> count_list (first_turns k sched) t" by blast
  obtain i where i: "k \<le> i" "sched i = t"
    using assms unfolding infinite_nat_iff_unbounded_le by blast
  have "count_list (first_turns (Suc i) sched) t = Suc (count_list (first_turns i sched) t)"
    by (simp add: first_turns_def i(2))
  with first_turns_mono [OF i(1), of sched t] k show ?case by (intro exI [of _ "Suc i"]) simp
qed (simp add: first_turns_def)

lemma fair_counts:
  assumes "finite ts" and "\<And>t. t \<in> ts \<Longrightarrow> infinite {i. sched i = t}"
  shows "\<exists>k. \<forall>j \<ge> k. \<forall>t \<in> ts. n t \<le> count_list (first_turns j sched) t"
  using assms
proof (induction ts)
  case (insert t ts)
  then obtain k where k: "\<forall>j \<ge> k. \<forall>t \<in> ts. n t \<le> count_list (first_turns j sched) t" by auto
  obtain k' where "n t \<le> count_list (first_turns k' sched) t"
    using fair_count [of sched t "n t"] insert.prems by blast
  then have "n t \<le> count_list (first_turns j sched) t" if "k' \<le> j" for j
    using first_turns_mono [OF that, of sched t] by (rule le_trans)
  with k show ?case by (intro exI [of _ "max k k'"]) auto
qed simp

text \<open>C5: every computation ends under fair scheduling. Let any finite number of VMs on one host
  thread each have a computation whose function returns after a bounded number of executions,
  however the others change the shared data in between. If the host goes on executing the VMs in
  an order in which every VM has its turn again and again, then from some time on, and for ever
  after, all computations are done; no execution fails, one of a finished computation included.\<close>

theorem fair_executions_complete:
  assumes "finite ts" and "vms_within call h ts n x" and "range sched \<subseteq> ts"
    and "\<forall>t \<in> ts. infinite {i. sched i = t}"
  shows "\<exists>k. \<forall>j \<ge> k. \<exists>x'. execute_vms call h (first_turns j sched) x = (Inr (), x') \<and>
    (\<forall>t \<in> ts. is_done t x')"
proof -
  obtain k where k: "\<And>j t. k \<le> j \<Longrightarrow> t \<in> ts \<Longrightarrow> n t \<le> count_list (first_turns j sched) t"
    using fair_counts [OF assms(1), of sched n] assms(4) by blast
  have "set (first_turns j sched) \<subseteq> ts" for j using assms(3) by (auto simp: first_turns_def)
  from executions_complete [OF assms(2) this k] show ?thesis by blast
qed

text \<open>Two VMs that count in the same data, executed in turn.\<close>

definition two_vms :: "(unit, nat vm_point) threads" where
  "two_vms = \<lparr>current_vm_thread = None, live_threads = (\<lambda>_. Some \<lparr>thread_state = kSuspended,
     thread_func = RunInternal, my_thread_state = Point (Invoke 0), main_thread_state = Some ()\<rparr>)(0 := None),
     control = Host ()\<rparr>"

lemma two_vms_within: "vms_within counting () {1, 2} (\<lambda>_. 3) (two_vms, ((\<lambda>_. None), 10))"
  by (auto simp: vms_within_def thread_at_def host_runs_def threads_ok_def two_vms_def coroutine_of_def
      resume_point_def counting_def numeral_3_eq_3)

theorem fair_executions_complete_witness:
  "\<exists>k. \<forall>j \<ge> k. \<exists>x'. execute_vms counting () (first_turns j (\<lambda>i. if even i then 1 else 2))
      (two_vms, ((\<lambda>_. None), 10)) = (Inr (), x') \<and> (\<forall>t \<in> {1, 2}. is_done t x')"
proof -
  let ?sched = "\<lambda>i :: nat. if even i then 1 else 2 :: thread_id"
  have "2 * k \<in> {i. ?sched i = 1}" "Suc (2 * k) \<in> {i. ?sched i = 2}" for k by simp_all
  then have "infinite {i. ?sched i = 1}" "infinite {i. ?sched i = 2}"
    unfolding infinite_nat_iff_unbounded_le
    by (metis le_add2 mult_2, metis le_SucI le_add2 mult_2)
  then have "\<forall>t \<in> {1, 2}. infinite {i. ?sched i = t}" by blast
  moreover have "range ?sched \<subseteq> {1, 2}" by auto
  ultimately show ?thesis using fair_executions_complete [OF _ two_vms_within, of ?sched] by blast
qed

end
