(* ===== verification/Repository_Tests.thy ===== *)
theory Repository_Tests
  imports Function_Handle Parser_Properties Coroutine
begin

text \<open>
  The unit tests of the repository as theorems: what they expect of the program on concrete inputs
  holds of the model. They are the tests of leb128/leb128_test.cc, base/stream_test.cc,
  parser/validator_test.cc, compiler/x64/runtime_stack_test.cc, register_tracker_test.cc of both
  targets, base/coro_test.cc, runtime/thread/thread_test.cc, parser/parser_test.cc and
  compiler/compiler_test.cc. The two module tests start from the binary form of their text.
\<close>

section \<open>leb128/leb128_test.cc\<close>

definition unsigned_leb_test :: "'a::len word \<times> u8 list \<Rightarrow> bool" where
  "unsigned_leb_test = (\<lambda>(v, bs). encode_unsigned v = bs \<and>
     fst (decode_unsigned read_byte (new_byte_stream bs)) = Inr v)"

definition signed_leb_test :: "'a::len itself \<Rightarrow> int \<times> u8 list \<Rightarrow> bool" where
  "signed_leb_test _ = (\<lambda>(v, bs). encode_signed v = bs \<and>
     fst (decode_signed read_byte (new_byte_stream bs)) = Inr (word_of_int v :: 'a word))"

lemma unsigned_int32_tests:
  "list_all (unsigned_leb_test :: u32 \<times> u8 list \<Rightarrow> bool)
     [(0, [0x00]), (1, [0x01]), (4, [0x04]), (16256, [0x80, 0x7f]), (624485, [0xe5, 0x8e, 0x26]),
      (165675008, [0x80, 0x80, 0x80, 0x4f]), (0xFFFFFFFF, [0xff, 0xff, 0xff, 0xff, 0xf])]"
  by code_simp

lemma unsigned_int64_tests:
  "list_all (unsigned_leb_test :: u64 \<times> u8 list \<Rightarrow> bool)
     [(0, [0x00]), (1, [0x01]), (4, [0x04]), (16256, [0x80, 0x7f]), (624485, [0xe5, 0x8e, 0x26]),
      (165675008, [0x80, 0x80, 0x80, 0x4f]), (0xFFFFFFFF, [0xff, 0xff, 0xff, 0xff, 0xf]),
      (0xFFFFFFFFFFFFFFFF, [0xff, 0xff, 0xff, 0xff, 0xff, 0xff, 0xff, 0xff, 0xff, 0x1])]"
  by code_simp

lemma signed_int32_tests:
  "list_all (signed_leb_test TYPE(32))
     [(-165675008, [0x80, 0x80, 0x80, 0xb1, 0x7f]), (-624485, [0x9b, 0xf1, 0x59]),
      (-16256, [0x80, 0x81, 0x7f]), (-4, [0x7c]), (-1, [0x7f]), (0, [0x00]), (1, [0x01]), (4, [0x04]),
      (16256, [0x80, 0xff, 0x0]), (624485, [0xe5, 0x8e, 0x26]), (165675008, [0x80, 0x80, 0x80, 0xcf, 0x0]),
      (0x7FFFFFFF, [0xff, 0xff, 0xff, 0xff, 0x7])]"
  by code_simp

lemma signed_int64_tests:
  "list_all (signed_leb_test TYPE(64))
     [(-0x7FFFFFFF, [0x81, 0x80, 0x80, 0x80, 0x78]), (-165675008, [0x80, 0x80, 0x80, 0xb1, 0x7f]),
      (-624485, [0x9b, 0xf1, 0x59]), (-16256, [0x80, 0x81, 0x7f]), (-4, [0x7c]), (-1, [0x7f]), (0, [0x00]),
      (1, [0x01]), (4, [0x04]), (16256, [0x80, 0xff, 0x0]), (624485, [0xe5, 0x8e, 0x26]),
      (165675008, [0x80, 0x80, 0x80, 0xcf, 0x0]), (0x7FFFFFFF, [0xff, 0xff, 0xff, 0xff, 0x7]),
      (0x7FFFFFFFFFFFFFFF, [0xff, 0xff, 0xff, 0xff, 0xff, 0xff, 0xff, 0xff, 0xff, 0x0])]"
  by code_simp

lemma overflow_tests:
  "fst (decode_signed read_byte (new_byte_stream (replicate 11 0xff))) = (Inl DecodeException :: exn + u64)"
  "fst (decode_unsigned read_byte (new_byte_stream (replicate 11 0xff))) = (Inl DecodeException :: exn + u64)"
  "fst (decode_signed read_byte (new_byte_stream (replicate 6 0xff))) = (Inl DecodeException :: exn + u32)"
  "fst (decode_unsigned read_byte (new_byte_stream (replicate 6 0xff))) = (Inl DecodeException :: exn + u32)"
  by code_simp+

section \<open>base/stream_test.cc\<close>

definition test_stream :: byte_stream where
  "test_stream = new_byte_stream [0x04, 0x03, 0x02, 0x01, 0x00]"

text \<open>An operation with what the test looks at afterwards.\<close>

definition observed :: "(byte_stream, 'a) op \<Rightarrow> byte_stream \<Rightarrow> (exn + 'a) \<times> bool \<times> nat" where
  "observed m s = (case m s of (r, s') \<Rightarrow> (r, has_remaining s', bytes_consumed s'))"

primrec observed_all :: "(byte_stream, 'a) op list \<Rightarrow> byte_stream \<Rightarrow> ((exn + 'a) \<times> bool \<times> nat) list" where
  "observed_all [] s = []"
| "observed_all (m # ms) s = observed m s # observed_all ms (snd (m s))"

lemma read_one_test:
  "has_remaining test_stream \<and> observed_all (replicate 6 read_byte) test_stream =
     [(Inr 4, True, 1), (Inr 3, True, 2), (Inr 2, True, 3), (Inr 1, True, 4), (Inr 0, False, 5),
      (Inl EndOfStreamException, False, 5)]"
  by code_simp

lemma read_many_test:
  "has_remaining test_stream \<and> bytes_consumed test_stream = 0 \<and>
   observed_all [read_bytes 2, read_bytes 2, read_bytes 1, read_bytes 2] test_stream =
     [(Inr [0x04, 0x03], True, 2), (Inr [0x02, 0x01], True, 4), (Inr [0x00], False, 5),
      (Inl EndOfStreamException, False, 5)]"
  by code_simp

lemma skip_test:
  "observed_all [skip 2, skip 2, skip 2, skip 1] test_stream =
     [(Inr (), True, 2), (Inr (), True, 4), (Inl EndOfStreamException, True, 4), (Inr (), False, 5)]"
  by code_simp

section \<open>parser/validator_test.cc\<close>

definition check_instructions :: "val_type list \<Rightarrow> val_type list \<Rightarrow> instruction list \<Rightarrow> exn + unit" where
  "check_instructions params results ops =
     fst (validate ops (new_validator \<lparr>parameter_types = params, result_types = results\<rparr> []))"

abbreviation c0 :: instruction where "c0 \<equiv> ConstI32 (value_U32 0)"

lemmas validator_defs = check_instructions_def validate_def new_validator_def seq_def push_def pop_def
  pop_actual_def assert_local_def assert_empty_def finalize_def pop_returns_def

lemma valid_tests:
  "check_instructions [] [] [Return] = Inr ()"
  "check_instructions [] [kI32] [c0, Return] = Inr ()"
  "check_instructions [] [kI32] [c0] = Inr ()"
  "check_instructions [kI32, kI32] [kI32] [GetLocalI32 0, GetLocalI32 1, AddI32, Return] = Inr ()"
  "check_instructions [] [kI32] [c0, c0, AddI32, Return] = Inr ()"
  by (simp_all add: validator_defs)

lemma invalid_tests:
  "check_instructions [] [kI32] [c0, c0] = Inl ValidationException"
  "check_instructions [] [kI32] [c0, AddI32, Return] = Inl ValidationException"
  "check_instructions [] [kI32] [c0, c0, c0, AddI32, Return] = Inl ValidationException"
  "check_instructions [] [kI32] [GetLocalI32 0, c0, AddI32, Return] = Inl ValidationException"
  "check_instructions [kI32] [] [c0, c0, AddI32, SetLocalI32 1, Return] = Inl ValidationException"
  "check_instructions [kI64] [] [c0, SetLocalI32 0] = Inl ValidationException"
  by (simp_all add: validator_defs)

section \<open>compiler/x64/runtime_stack_test.cc and compiler/arm64/runtime_stack_test.cc\<close>

lemma runtime_stack_tests:
  "reverse_iterator (new_runtime_stack 32) = []"
  "\<exists>s. stack_push (new_value kI64) (new_runtime_stack 32) = (Inr (), s) \<and> stack_pointer_of s = 8 \<and>
     reverse_iterator s = [(new_value kI64)\<lparr>stack_pointer := 8\<rparr>] \<and>
     (\<exists>v s'. stack_pop s = (Inr v, s') \<and> rv_type v = kI64 \<and> stack_pointer_of s' = 0 \<and> reverse_iterator s' = [])"
  by (simp_all add: new_runtime_stack_def stack_push_def stack_pop_def new_value_def rv_size_bytes_def
      stack_pointer_of_def Let_def)

section \<open>compiler/x64/register_tracker_test.cc and compiler/arm64/register_tracker_test.cc\<close>

primrec taken :: "call_convention \<Rightarrow> nat \<Rightarrow> register_mask \<Rightarrow> nat option list" where
  "taken cc 0 m = []"
| "taken cc (Suc n) m = (case take_unused_register cc m of (r, m') \<Rightarrow> r # taken cc n m')"

lemma register_tracker_tests:
  "taken x64_cc 10 mask_clear = map Some [0, 1, 2, 6, 7, 8, 9, 10, 11] @ [None]"
  "taken arm64_cc 16 mask_clear = map Some ([0..<8] @ [9..<16]) @ [None]"
  by code_simp+

section \<open>base/coro_test.cc\<close>

definition test_f :: "(unit, int) coro" where
  "test_f = CoReturn 4"

definition test_g :: "(unit, int) coro" where
  "test_g = co_seq test_f (\<lambda>a. co_seq test_f (\<lambda>b. CoReturn (a + b)))"

definition test_h :: "(unit, int) coro" where
  "test_h = co_seq test_f (\<lambda>a. co_seq test_f (\<lambda>b. co_seq test_g (\<lambda>c. CoReturn (a + b - c))))"

definition got :: "(unit, 'v) coro \<Rightarrow> (exn + 'v) option" where
  "got c = (case call_coroutine c \<lparr>frames = Map.empty, next_handle = 0, data = ()\<rparr> of
     (h, H) \<Rightarrow> map_option fst (future_get h H))"

lemma got_direct: "got c = Some (fst (direct c ()))"
proof -
  let ?fr = "\<lparr>point = Suspended c, chain_parent = NullHandle, promise_result = Monostate\<rparr>"
  let ?H = "\<lparr>frames = [0 \<mapsto> ?fr], next_handle = 1, data = ()\<rparr>"
  have "frames ?H 0 = Some ?fr" "point ?fr = Suspended c" "heap_ok ?H" "direct c (data ?H) = (fst (direct c ()), ())"
    by (simp_all add: heap_ok_def prod_eq_iff)
  from get_runs [OF this] show ?thesis by (auto simp: got_def call_coroutine_def Let_def)
qed

lemma coroutine_tests: "got test_h = Some (Inr 0)" "got (maybe_yield ()) = Some (Inr ())"
  by (simp_all add: got_direct test_h_def test_g_def test_f_def direct_co_seq seq_def maybe_yield_def)

section \<open>runtime/thread/thread_test.cc\<close>

text \<open>The data are \<open>running\<close> and \<open>invoke_count\<close>, and \<open>value\<close>; a point of a function is the value of its
  loop variable.\<close>

definition works_code :: "(bool \<times> nat, nat) thread_code" where
  "works_code k w = (case w of (running, n) \<Rightarrow>
     if running then (Inr (Some k), (running, n + 1)) else (Inr None, w))"

definition once_code :: "(nat, nat) thread_code" where
  "once_code k n = (Inr None, n + 1)"

definition loop_code :: "(int, nat) thread_code" where
  "loop_code i v = (if i < 4 then (Inr (Some (i + 1)), int i) else (Inr None, v))"

definition test_thread :: "(unit, nat) threads" where
  "test_thread = snd (create_thread 1 0 (no_threads ()))"

definition resumed :: "('w, nat) thread_code \<Rightarrow> (unit, nat) threads \<times> 'w \<Rightarrow> (unit, nat) threads \<times> 'w" where
  "resumed code x = snd (resume_and_run code 1 () x)"

definition seen :: "(unit, nat) threads \<times> 'w \<Rightarrow> thread_state option \<times> 'w" where
  "seen x = (state_of 1 (fst x), snd x)"

lemma works_test:
  "map (\<lambda>n. seen ((resumed works_code ^^ n) (test_thread, (True, 0)))) [0..<5] =
     [(Some kStopped, (True, 0)), (Some kSuspended, (True, 1)), (Some kSuspended, (True, 2)),
      (Some kSuspended, (True, 3)), (Some kSuspended, (True, 4))]"
  "seen (resumed works_code (fst ((resumed works_code ^^ 4) (test_thread, (True, 0))), (False, 4))) =
     (Some kStopped, (False, 4))"
  by code_simp+

lemma can_be_started_after_stop_test:
  "map (\<lambda>n. seen ((resumed once_code ^^ n) (test_thread, 0))) [0..<5] = map (\<lambda>n. (Some kStopped, n)) [0..<5]"
  by code_simp

lemma can_be_stopped_while_suspended_test:
  "let x3 = (resumed loop_code ^^ 3) (test_thread, -1); s4 = snd (stop 1 (fst x3)) in
   map (\<lambda>n. seen ((resumed loop_code ^^ n) (test_thread, -1))) [0..<4] =
     [(Some kStopped, -1), (Some kSuspended, 0), (Some kSuspended, 1), (Some kSuspended, 2)] \<and>
   state_of 1 s4 = Some kStopped \<and> seen (resumed loop_code (s4, snd x3)) = (Some kSuspended, 0)"
  by code_simp

section \<open>parser/parser_test.cc, compiler/compiler_test.cc\<close>

text \<open>The module of both tests, which exports \<open>add\<close>, in its binary form.\<close>

definition add_source :: module_source where
  "add_source =
     \<lparr>src_customs = [], src_keep_empty = False,
      src_types = [\<lparr>parameter_types = [kI32, kI32], result_types = [kI32]\<rparr>],
      src_imports = [], src_functions = [0], src_tables = [], src_memories = [],
      src_exports = [\<lparr>export_name = [0x61, 0x64, 0x64], export_desc = ExportFunc 0\<rparr>], src_start = None,
      src_codes = [\<lparr>code_locals = [], code_body = [GetLocalI32 0, GetLocalI32 1, AddI32]\<rparr>]\<rparr>"

definition add_bytes :: "u8 list" where
  "add_bytes =
     [0x00, 0x61, 0x73, 0x6D, 0x01, 0x00, 0x00, 0x00,
      0x01, 0x07, 0x01, 0x60, 0x02, 0x7F, 0x7F, 0x01, 0x7F,
      0x03, 0x02, 0x01, 0x00,
      0x07, 0x07, 0x01, 0x03, 0x61, 0x64, 0x64, 0x00, 0x00,
      0x0A, 0x09, 0x01, 0x07, 0x00, 0x20, 0x00, 0x20, 0x01, 0x6A, 0x0B]"

definition add_function :: wasm_function where
  "add_function =
     \<lparr>meta = \<lparr>signature = \<lparr>parameter_types = [kI32, kI32], result_types = [kI32]\<rparr>, locals = [],
              max_stack_size_bytes = 8, max_stack_elements = 2\<rparr>,
      body = [GetLocalI32 0, GetLocalI32 1, AddI32]\<rparr>"

lemma enc_add: "enc_module add_source = add_bytes"
  by (simp add: enc_defs encode_small add_source_def add_bytes_def)

lemma code_validated_add:
  "code_validated \<lparr>parameter_types = [kI32, kI32], result_types = [kI32]\<rparr>
     \<lparr>code_locals = [], code_body = [GetLocalI32 0, GetLocalI32 1, AddI32]\<rparr>
   = (Inr (), \<lparr>v_locals = [kI32, kI32], v_returns = [kI32], v_unreachable = False, v_underlying = [],
        v_current_memory_usage = 0, v_max_stack_size = 2, v_max_memory_usage = 8\<rparr>)"
  by code_simp

lemma add_source_ok: "source_ok add_source"
  unfolding source_ok_def enc_add
  by (simp add: add_source_def export_source_ok_def src_signatures_def code_ok_def code_validated_add [unfolded One_nat_def] max_defs
      signature_ok_def scalar_def name_ok_def local_types_def add_bytes_def
      enc_code_content_def enc_vec_def enc_expr_def encode_small)

lemma source_module_add: "source_module add_source =
    \<lparr>module_functions = [add_function], exported_functions = [[0x61, 0x64, 0x64] \<mapsto> 0]\<rparr>"
  by (simp add: source_module_def add_source_def src_signatures_def Body_Encoding.finished_def
      code_validated_add [unfolded One_nat_def] add_function_def local_types_def maximum_stack_size_bytes_def
      maximum_stack_elements_def)

lemma parser_test:
  "\<exists>p s. parse_module (new_byte_stream add_bytes) = (Inr p, s) \<and> \<not> has_remaining s \<and>
     length (module_functions p) = 1 \<and> exported_functions p = [[0x61, 0x64, 0x64] \<mapsto> 0]"
  using parse_enc_module [OF add_source_ok]
  by (simp add: enc_add source_module_add) (simp add: add_bytes_def has_remaining_def advance_def new_byte_stream_def)

text \<open>The call \<open>add(1, 2)\<close>, with the arguments in the registers of the calling convention.\<close>

definition calling :: "(nat \<times> u64) list \<Rightarrow> machine" where
  "calling xs = \<lparr>regs = (\<lambda>r. case map_of xs r of None \<Rightarrow> 0 | Some v \<Rightarrow> v), mem = (\<lambda>_. 0), carry = False\<rparr>"

definition result_of ::
    "'i target \<Rightarrow> ('i \<Rightarrow> machine \<Rightarrow> machine) \<Rightarrow> wasm_function \<Rightarrow> machine \<Rightarrow> u32 option" where
  "result_of T step f m = (case compile_function T f of
     Inl _ \<Rightarrow> None | Inr code \<Rightarrow> map_option (\<lambda>m'. low m' 0) (run_code T step code m))"

lemma add_code:
  "compile_function x64_target add_function =
     Inr [X_SubRsp 16, X_Store (-16) (R32 7), X_Store (-12) (R32 6), X_Load (R32 0) (-16),
          X_Load (R32 1) (-12), X_Adc (R32 0) (R32 1), X_Bind, X_AddRsp 16, X_Ret]"
  "compile_function arm64_target add_function =
     Inr [A_SubSp 16, A_Str (R32 0) (-16), A_Str (R32 1) (-12), A_Ldr (R32 0) (-16),
          A_Ldr (R32 1) (-12), A_Add (R32 0) (R32 0) (R32 1), A_Bind, A_AddSp 16, A_Ret (R64 30)]"
  by code_simp+

lemmas machine_runs = calling_def low_def sp_address_def add_carry_def store32_def load32_def

lemma compiler_test_x64:
  "result_of x64_target x64_step add_function (calling [(7, 1), (6, 2), (4, 0x1000)]) = Some 3"
  unfolding result_of_def add_code
  by (simp add: machine_runs x64_target_def)

lemma compiler_test_arm64:
  "result_of arm64_target arm64_step add_function (calling [(0, 1), (1, 2), (31, 0x1000)]) = Some 3"
  unfolding result_of_def add_code
  by (simp add: machine_runs arm64_target_def)

end
