(* ===== verification/Spec2Isabelle.thy ===== *)
theory Spec2Isabelle
  imports Futures Printing Parser_Properties Compile_Properties Compile_Total Machine_Threads
    Function_Handle Vm_Schedule Repository_Tests
begin

text \<open>
  wasmcc is a single-pass compiler and virtual machine for WebAssembly. This development models its
  whole path, from the bytes of a module to the result of a call: the parser and validator
  (src/parser), the code generators for x86-64 and AArch64 (src/compiler), the VM threads and the
  virtual machine (src/runtime), and what they share (src/base, src/core, src/leb128).

  Parts of the program and their theories, in the order in which data flows:

  \<^item> Prelude: C++ exceptions as the datatype \<open>exn\<close>; an operation \<open>('s, 'a) op\<close> takes a state to an
    outcome and a state, and the state is there after an exception as well. \<open>Abort\<close> and \<open>Assert\<close> of
    base/assert.h. Hoare triples (\<open>triple\<close>) and frame conditions (the locale \<open>frame\<close>) for operations.
  \<^item> Coroutine: base/coro.h and base/coro.cc. Coroutines run by \<open>Future::get\<close> compute what the same
    code computes with calls in place of \<open>co_await\<close>, which is how the parser and the compiler are
    modelled. Futures: which \<open>Future\<close> owns which frame, under moves, \<open>get\<close>, \<open>to_raw_handle\<close> and the
    destructor, and the promise of \<open>Future<void>\<close>.
  \<^item> Byte_Stream: \<open>Stream\<close> and \<open>ByteStream\<close> of base/stream.h and stream.cc. The interface that the
    parser relies on is the locale \<open>byte_source\<close>, interpreted by \<open>ByteStream\<close>.
  \<^item> Leb128: \<open>leb128::Encode\<close> and \<open>Decode\<close> at any width, their round trips, and a reference decoder
    that they agree with on every stream.
  \<^item> Value, Ast: core/value.h, core/value.cc, core/ast.h, core/instruction.h. Printing: their printers
    and that of \<open>ValidationType\<close>, and that different values print differently.
  \<^item> Validator: \<open>FunctionValidator\<close> of parser/validator.h and validator.cc, and its refinement to an
    abstract checker on stacks of types; Wasm_Typing: the declarative typing rules, and that the
    validator accepts the same bodies; Wasm_Exec: the execution of bodies, that accepted bodies do
    not get stuck, and that the computed stack sizes bound it.
  \<^item> Binary_Types, Module_Parser: parser/parser.cc, the functions that read one type each and the
    \<open>ModuleBuilder\<close> with its sections. Parser_Safety: the invariant of the builder and the errors
    that can occur. Body_Encoding, Module_Encoding: the binary format of function bodies and of modules
    as an encoder, and the proof that the parser inverts it. Parser_Properties: what holds of an
    accepted module, and where the parser and the binary format part.
  \<^item> Registers: \<open>RegisterMask\<close>, the two \<open>CallingConvention\<close>s and the \<open>RegisterTracker\<close>s
    (compiler/common, compiler/x64, compiler/arm64). Runtime_Stack: the compile-time operand stack.
    Function_Frame: base/align.h and the layout of a frame. The tracker and the stack are used
    through locales that state what they promise.
  \<^item> Native_Compiler: the two code generators compiler/x64/compiler.cc and
    compiler/arm64/compiler.cc. They are one text up to the instructions emitted, so they are one
    set of definitions over a record \<open>target\<close>. Machine: what the emitted instructions do.
    Compile_Correct: the locale \<open>code_target\<close>, with the simulation of WebAssembly bodies by emitted
    code, interpreted for both targets. Compile_Properties: what compiled functions compute as a caller
    sees it, and the programs that are compiled wrongly. Compile_Total: which accepted functions the
    generators produce code for.
  \<^item> Compiled_Module: \<open>CompilerImpl\<close> of compiler/compiler.cc for whole modules, with its single code
    holder, and compiler/module.h.
  \<^item> Context_Switch: the assembly of runtime/thread/thread_x64.cc and thread_arm64.cc. Vm_Thread: the
    state machine of \<open>VMThread\<close> (runtime/thread/thread.cc) as a step relation over calls of its
    interface in any order, with its invariant. Machine_Threads: the same operations with the saved
    states in memory and the assembly executed; on both processors they refine Vm_Thread, through the
    locale \<open>stack_switching\<close> of what an architecture promises. Vm_Coroutine: the operations seen as
    coroutines; the locale \<open>coroutine_threads\<close> is what the virtual machine relies on. Thread_Memory:
    stacks with guard pages.
  \<^item> Virtual_Machine: runtime/vm.cc, function_handle.cc and signature_converter.h. Vm_Schedule: many
    VMs executed in any order. Function_Handle: the typed handles and computations of runtime/vm.h and
    function_handle.h as objects, and calls of compiled code. Repository_Tests: what the
    repository's unit tests expect, as theorems of the model. This theory: the theorems that go
    through all parts.

  How the parts interact. \<open>ParseModule\<close> reads a stream through \<open>Stream\<close>, gives each body to the
  validator instruction by instruction, and returns functions with the stack sizes the validator
  computed; \<open>Compile\<close> sizes frames by them. Compiled code is called on the stack of the VM's one
  thread: \<open>InvokeDynamic\<close> resumes the thread, which takes the closure over and yields; \<open>Execute\<close>
  resumes it again, and the closure runs.

  Groups of lemmas. For each data structure there is an invariant that all its operations keep
  (\<open>builder_ok\<close>, \<open>slots_ok\<close>, \<open>threads_ok\<close>), for each loop the fact that it ends, and for each
  component a specification it is shown to meet: the reference decoder, the abstract checker, the
  typing rules, the encoder, the execution of WebAssembly, coroutines. Theorems that show a defect
  are stated of the code as it is, on an input or a class of inputs, beside what the WebAssembly
  specification says.

  Bounds. No recursion uses fuel. The parser's loops are bounded by counts read from the stream
  and by the bytes that remain; \<open>execute_until_done\<close>, which may run forever, is a partial function
  with a proof that it returns when the function does. Integers have the width of the code;
  lengths of vectors and addresses of heap blocks are natural numbers.

  What is taken from outside the repository. Instructions of the two processors have their
  documented meaning (Machine, Context_Switch). asmjit's code holder and runtime, \<open>mprotect\<close>,
  \<open>getpagesize\<close> and \<open>aligned_alloc\<close>, and the code that the C++ compiler generates for a call are
  parameters, with what is relied on as hypotheses.

  Limits of the correctness of compiled code. For bodies of constants, additions and accesses of
  locals whose operand stack fits into the caller-saved registers, Compile_Properties states exactly
  what the code computes, which on x86-64 includes the carry flag, and on both targets that declared
  locals start with what is in memory and that writes of locals go wrong; where these do not matter
  it is what WebAssembly computes. Deeper operand stacks are spilled wrongly (\<open>spill_shifts_registers\<close>)
  but compile. That a function compiles is a statement of the generators; the assembler, a
  parameter of Compiled_Module, may still refuse an instruction. The theorems that go through all
  parts are of the first function of a module, because calls of the others run the first
  (\<open>later_functions_run_first\<close>).

  Not modelled. The address sanitizer's hooks, logging, comments attached to instructions and the
  text of messages are left out; src/testing and third_party are test support and external code. Of
  the binary format the encoder leaves out globals, whose initialisers the parser does not read to
  their end, elements and data, which it refuses, and blocks, whose types it does not read.
\<close>

section \<open>From the bytes of a module to the result of a call\<close>

text \<open>The module whose function \<open>f\<close> adds seven to its argument, compiled for either target.\<close>

definition add_seven_compiled :: "'i target \<Rightarrow> compiled_module \<times> 'i compiler_impl" where
  "add_seven_compiled T =
     (case compile_module sample_jit T (source_module add_seven_source) new_compiler_impl of
        (Inr m, s) \<Rightarrow> (m, s))"

lemma compile_add_seven:
  assumes "fst (generate_code T add_seven) = Inr ()"
  shows "compile_module sample_jit T (source_module add_seven_source) new_compiler_impl =
     (Inr (fst (add_seven_compiled T)), snd (add_seven_compiled T))"
proof -
  obtain code where "generate_code T add_seven = (Inr (), code)"
    using assms by (metis prod.collapse)
  then have "\<exists>m impl. compile_module sample_jit T (source_module add_seven_source) new_compiler_impl =
      (Inr m, impl)"
    by (simp add: compile_module_def module_functions_add_seven compile_one_def compile_to_holder_def
        sample_jit_run new_compiler_impl_def seq_def)
  then show ?thesis by (auto simp: add_seven_compiled_def)
qed

lemma generate_add_seven:
  "fst (generate_code arm64_target add_seven) = Inr ()" "fst (generate_code x64_target add_seven) = Inr ()"
  by code_simp+

text \<open>C23: looking up a function of a module that was parsed and compiled never leaves the bounds of
  the function vector, and finds exactly the exported function of that name, provided its
  signature is the one that was asked for.\<close>

theorem lookup_parsed_and_compiled:
  assumes "parse_module src = (Inr p, rest)" and "compile_module J T p s = (Inr m, s')"
  shows "lookup_function_handle_dynamic m nm sig = Inr
    (case exported_functions p nm of
       None \<Rightarrow> None
     | Some i \<Rightarrow> if signature (meta (module_functions p ! unat i)) = sig
         then Some (compiled_functions m ! unat i) else None)"
proof (cases "exported_functions p nm")
  case (Some i)
  note m = compile_module_meta [OF assms(2)]
  have "unat i < length (module_functions p)" using assms(1) Some by (rule exported_in_range)
  moreover have "length (compiled_functions m) = length (module_functions p)"
    using m(1) by (metis length_map)
  moreover have "compiled_meta (compiled_functions m ! unat i) = meta (module_functions p ! unat i)"
    using m(1) calculation by (metis nth_map)
  ultimately show ?thesis using Some m(2) by (simp add: lookup_function_handle_dynamic_def Let_def)
qed (simp add: lookup_function_handle_dynamic_def compile_module_meta [OF assms(2)])

theorem lookup_parsed_and_compiled_witness:
  "lookup_function_handle_dynamic (fst (add_seven_compiled arm64_target)) [0x66] (signature (meta add_seven)) =
     Inr (Some (compiled_functions (fst (add_seven_compiled arm64_target)) ! 0)) \<and>
   lookup_function_handle_dynamic (fst (add_seven_compiled arm64_target)) [0x67] (signature (meta add_seven)) = Inr None"
  using lookup_parsed_and_compiled [OF parse_add_seven compile_add_seven [OF generate_add_seven(1)]]
  by (simp add: exports_add_seven module_functions_add_seven)

text \<open>What the two targets share. If the code of the first function of a module returns from every
  machine state in \<open>I\<close> in which it is called, and leaves one, then any number of calls through a
  handle return, and their results are what the code leaves in the first result register.\<close>

lemma first_function_invoked:
  assumes parse: "parse_module src = (Inr p, rest)"
    and compile: "compile_module J T p new_compiler_impl = (Inr m, impl)"
    and asmjit: "places_fresh J" "kept_code J [] = []"
    and exported: "exported_functions p nm = Some 0" and f: "f = module_functions p ! 0" "body f \<noteq> []"
    and sig: "signature_from_native arg_types (Some res_type) = Some (signature (meta f))"
    and idle: "vm_at h0 t Ready None w x" and I: "I (native_machine w)"
    and runs: "\<And>args m code. completed f \<Longrightarrow> args \<in> set argss \<Longrightarrow> I m \<Longrightarrow> compile_function T f = Inr code \<Longrightarrow>
      \<exists>m'. run_code T step code (enter args m) = Some m' \<and> I m' \<and> R args (low m' 0)"
  shows "\<exists>c ns x'. lookup_function_handle m nm arg_types (Some res_type) = Some (Inr (Some c)) \<and>
    run_calls (apply_compiled T step (jit_runtime impl) enter) t c h argss x = Some (Inr ns, x') \<and>
    is_done t x' \<and> list_all2 (\<lambda>args n. \<exists>r. result_is x' n r \<and> R args r) argss ns"
proof -
  let ?c = "compiled_functions m ! 0"
  have len: "0 < length (module_functions p)" using exported_in_range [OF parse exported] by simp
  then have fp: "f \<in> set (module_functions p)" unfolding f(1) by (rule nth_mem)
  from parsed_function [OF parse fp] f(2) have completed: "completed f"
    by (auto simp: declared_def new_function_def)
  obtain code where code: "compile_function T f = Inr code"
    by (rule compiled_functions_compile [OF asmjit(1) compile fp])
  have at: "jit_runtime impl (code_ptr ?c) = Some code"
    using compiled_code [OF asmjit(1) compile len] code asmjit(2) len f(1)
    by (cases "module_functions p") (auto simp: new_compiler_impl_def Let_def generate_code_function
      split: prod.splits sum.splits)
  have len': "0 < length (compiled_functions m)" "compiled_meta ?c = meta f"
    using compile_module_meta(1) [OF compile] len f(1) by (metis length_map, metis length_map nth_map)
  have "lookup_function_handle m nm arg_types (Some res_type) = Some (Inr (Some ?c))"
    using len' exported sig compile_module_meta(2) [OF compile]
    by (simp add: lookup_function_handle_def lookup_function_handle_dynamic_def Let_def)
  moreover have "\<exists>m'. run_code T step code (enter args m) = Some m' \<and> I m' \<and> R args (low m' 0)"
    if "args \<in> set argss" "I m" for args m
    using runs [OF completed that code] .
  ultimately show ?thesis
    using calls_return [where code_at = "jit_runtime impl" and c = ?c and code = code and enter = enter and
        R = R and I = I and h = h and argss = argss and T = T and step = step, OF at _ idle I] by blast
qed

lemma abi_kept_sp:
  "abi_kept arm64_cc m m' \<Longrightarrow> regs m' 31 = regs m 31" "abi_kept x64_cc m m' \<Longrightarrow> regs m' 4 = regs m 4"
  using arm64_cc.sp_not_saved x64_cc.sp_not_saved
  by (auto simp: abi_kept_def arm64_cc_def x64_cc_def set_mask_regs)



text \<open>The whole way for the module whose function \<open>f\<close> adds seven to its argument, which is passed in
  the first argument register of the convention.\<close>

definition enter_call :: "nat \<Rightarrow> u32 list \<Rightarrow> machine \<Rightarrow> machine" where
  "enter_call r args m = m\<lparr>regs := (regs m)(r := ucast (args ! 0))\<rparr>"

definition idle_world :: "nat \<Rightarrow> native_world" where
  "idle_world sp = \<lparr>native_machine = calling [(sp, 0x8000)], computations = Map.empty, next_computation = 0\<rparr>"

definition idle_vm :: "nat \<Rightarrow> unit typed_vm" where
  "idle_vm sp = (snd (vm_create 1 (no_threads ())), (None, idle_world sp))"

lemma idle_vm_at: "vm_at () 1 Ready None (idle_world sp) (idle_vm sp)"
  unfolding idle_vm_def vm_create_def
  by (rule create_vm_at) (simp_all add: host_runs_def threads_ok_none, simp_all add: no_threads_def)

lemma add_seven_looked_up:
  "exported_functions (source_module add_seven_source) [0x66] = Some 0"
  "add_seven = module_functions (source_module add_seven_source) ! 0" "body add_seven \<noteq> []"
  "kept_code sample_jit [] = []" "signature_from_native [Int32] (Some Int32) = Some (signature (meta add_seven))"
  by (simp_all add: exports_add_seven module_functions_add_seven sample_jit_run)
    (simp_all add: add_seven_def signature_from_native_def convert_native_signature_def)

lemma add_seven_result: "exec (body add_seven) ([n], []) = Some ([n], [r]) \<longleftrightarrow> r = n + 7"
  by (auto simp: add_seven_def as_U32_seven)

lemma enter_add_seven:
  "called_with arm64_cc add_seven [n] (enter_call 0 [n] m) \<and> regs (enter_call 0 [n] m) 31 = regs m 31"
  "called_with x64_cc add_seven [n] (enter_call 7 [n] m) \<and> regs (enter_call 7 [n] m) 4 = regs m 4"
  by (simp_all add: called_with_def add_seven_def enter_call_def low_def arm64_cc_def x64_cc_def)



end
